(* ===== verification/Go_Prelude.thy ===== *)
theory Go_Prelude
  imports Main "HOL-Library.Word" "HOL-Library.AList"
begin

unbundle bit_operations_syntax

text \<open>
  What every component of the model shares: the machine types of Go, bytes and
  strings, big-endian integers as \<open>encoding/binary\<close> reads and writes them, Go maps
  as association lists, buffered channels, and time stamps.

  Go strings are byte sequences, so \<^typ>\<open>string\<close> (lists of 8-bit characters) models
  them exactly and \<^const>\<open>length\<close> is Go's \<open>len\<close>. The sources are built for 64-bit
  platforms only, so Go's \<open>int\<close> holds every length that occurs and is modelled by
  \<^typ>\<open>int\<close> or \<^typ>\<open>nat\<close>; the fields the sources declare as \<open>uint16\<close>,
  \<open>uint32\<close> and \<open>uint64\<close> keep their width.
\<close>

named_theorems map_simps "rewriting Go map operations to updates of the represented map"
named_theorems step_defs "definitions of atomic operations"

section \<open>Machine types\<close>

type_synonym byte = "8 word"
type_synonym u16 = "16 word"
type_synonym u32 = "32 word"
type_synonym u64 = "64 word"

definition byte_of_char :: "char \<Rightarrow> byte" where
  "byte_of_char c = of_nat (of_char c)"

definition char_of_byte :: "byte \<Rightarrow> char" where
  "char_of_byte b = char_of (unat b)"

abbreviation bytes_of :: "string \<Rightarrow> byte list" where
  "bytes_of s \<equiv> map byte_of_char s"

abbreviation string_of :: "byte list \<Rightarrow> string" where
  "string_of bs \<equiv> map char_of_byte bs"

lemma char_of_byte_of_char [simp]: "char_of_byte (byte_of_char c) = c"
proof -
  have "(of_char c :: nat) < 256"
    by (metis of_char_mod_256 mod_less_divisor zero_less_numeral)
  then show ?thesis
    by (simp add: char_of_byte_def byte_of_char_def unat_of_nat)
qed

lemma byte_of_char_of_byte [simp]: "byte_of_char (char_of_byte b) = b"
proof -
  have "unat b < 2 ^ LENGTH(8)"
    by (rule unsigned_less)
  then show ?thesis
    by (simp add: char_of_byte_def byte_of_char_def)
qed

lemma char_byte_comp [simp]:
  "char_of_byte \<circ> byte_of_char = id" "byte_of_char \<circ> char_of_byte = id"
  by (simp_all add: fun_eq_iff)

lemma string_of_bytes_of [simp]: "string_of (bytes_of s) = s"
  by (simp add: map_idI)

lemma bytes_of_string_of [simp]: "bytes_of (string_of bs) = bs"
  by (simp add: map_idI)

section \<open>Big-endian integers\<close>

definition PutUint16 :: "u16 \<Rightarrow> byte list" where
  "PutUint16 v = [ucast (drop_bit 8 v), ucast v]"

definition PutUint32 :: "u32 \<Rightarrow> byte list" where
  "PutUint32 v = [ucast (drop_bit 24 v), ucast (drop_bit 16 v), ucast (drop_bit 8 v), ucast v]"

fun Uint16 :: "byte list \<Rightarrow> u16" where
  "Uint16 [b0, b1] = ucast b1 OR push_bit 8 (ucast b0)"
| "Uint16 _ = 0"

fun Uint32 :: "byte list \<Rightarrow> u32" where
  "Uint32 [b0, b1, b2, b3] =
     ucast b3 OR push_bit 8 (ucast b2) OR push_bit 16 (ucast b1) OR push_bit 24 (ucast b0)"
| "Uint32 _ = 0"

lemma length_PutUint16 [simp]: "length (PutUint16 v) = 2"
  by (simp add: PutUint16_def)

lemma length_PutUint32 [simp]: "length (PutUint32 v) = 4"
  by (simp add: PutUint32_def)

lemma Uint16_PutUint16 [simp]: "Uint16 (PutUint16 v) = v"
  by (rule bit_word_eqI) (auto simp: PutUint16_def bit_simps)

lemma Uint32_PutUint32 [simp]: "Uint32 (PutUint32 v) = v"
proof (rule bit_word_eqI)
  fix n assume "n < LENGTH(32)"
  then consider "n < 8" | "8 \<le> n" "n < 16" | "16 \<le> n" "n < 24" | "24 \<le> n" "n < 32"
    by (simp, linarith)
  then show "bit (Uint32 (PutUint32 v)) n = bit v n"
    by cases (auto simp: PutUint32_def bit_simps)
qed

lemma PutUint16_Uint16 [simp]:
  assumes "length bs = 2"
  shows "PutUint16 (Uint16 bs) = bs"
proof -
  obtain b0 b1 where bs: "bs = [b0, b1]"
    using assms by (auto simp: length_Suc_conv numeral_2_eq_2)
  have "(ucast (Uint16 [b0, b1]) :: byte) = b1"
    by (rule bit_word_eqI) (auto simp: bit_simps)
  moreover have "(ucast (drop_bit 8 (Uint16 [b0, b1])) :: byte) = b0"
    by (rule bit_word_eqI) (auto simp: bit_simps dest: bit_imp_le_length)
  ultimately show ?thesis
    by (simp add: bs PutUint16_def del: Uint16.simps)
qed

lemma PutUint32_Uint32 [simp]:
  assumes "length bs = 4"
  shows "PutUint32 (Uint32 bs) = bs"
proof -
  obtain b0 b1 b2 b3 where bs: "bs = [b0, b1, b2, b3]"
    using assms by (auto simp: length_Suc_conv numeral_eq_Suc)
  have "(ucast (Uint32 [b0, b1, b2, b3]) :: byte) = b3"
    by (rule bit_word_eqI) (auto simp: bit_simps)
  moreover have "(ucast (drop_bit 8 (Uint32 [b0, b1, b2, b3])) :: byte) = b2"
    by (rule bit_word_eqI) (auto simp: bit_simps dest: bit_imp_le_length)
  moreover have "(ucast (drop_bit 16 (Uint32 [b0, b1, b2, b3])) :: byte) = b1"
    by (rule bit_word_eqI) (auto simp: bit_simps dest: bit_imp_le_length)
  moreover have "(ucast (drop_bit 24 (Uint32 [b0, b1, b2, b3])) :: byte) = b0"
    by (rule bit_word_eqI) (auto simp: bit_simps dest: bit_imp_le_length)
  ultimately show ?thesis
    by (simp add: bs PutUint32_def del: Uint32.simps)
qed

section \<open>Go maps\<close>

text \<open>
  A Go map is an association list without repeated keys. \<open>m[k] = v\<close> is
  \<^const>\<open>AList.update\<close>, \<open>delete(m, k)\<close> is \<^const>\<open>AList.delete\<close>, a lookup is
  \<^const>\<open>map_of\<close> (\<^const>\<open>None\<close> where Go's second result is false) and \<open>len\<close> is
  \<^const>\<open>length\<close>. A \<open>range\<close> loop visits the entries in list order; Go leaves that
  order open, and the theorems hold for every list.
\<close>

type_synonym ('k, 'v) gomap = "('k \<times> 'v) list"

definition wf_map :: "('k, 'v) gomap \<Rightarrow> bool" where
  "wf_map m \<longleftrightarrow> distinct (map fst m)"

abbreviation map_put :: "'k \<Rightarrow> 'v \<Rightarrow> ('k, 'v) gomap \<Rightarrow> ('k, 'v) gomap" where
  "map_put \<equiv> AList.update"

abbreviation map_del :: "'k \<Rightarrow> ('k, 'v) gomap \<Rightarrow> ('k, 'v) gomap" where
  "map_del \<equiv> AList.delete"

text \<open>\<open>for k, v := range m { if P(k, v) { delete(m, k) } }\<close>\<close>

definition map_purge :: "('k \<Rightarrow> 'v \<Rightarrow> bool) \<Rightarrow> ('k, 'v) gomap \<Rightarrow> ('k, 'v) gomap" where
  "map_purge P m = filter (\<lambda>(k, v). \<not> P k v) m"

lemma map_of_put [simp, map_simps]: "map_of (map_put k v m) = (map_of m)(k \<mapsto> v)"
  by (rule update_conv')

lemma map_of_del [simp, map_simps]: "map_of (map_del k m) = (map_of m)(k := None)"
  by (rule delete_conv')

lemma wf_map_Nil [simp]: "wf_map []"
  by (simp add: wf_map_def)

lemma wf_map_put [simp]: "wf_map m \<Longrightarrow> wf_map (map_put k v m)"
  by (simp add: wf_map_def distinct_update)

lemma wf_map_del [simp]: "wf_map m \<Longrightarrow> wf_map (map_del k m)"
  by (simp add: wf_map_def distinct_delete)

lemma wf_map_purge [simp]: "wf_map m \<Longrightarrow> wf_map (map_purge P m)"
  unfolding wf_map_def map_purge_def
  by (induction m) (auto simp: image_iff)

lemma map_of_purge [map_simps]:
  assumes "wf_map m"
  shows "map_of (map_purge P m) k =
    (case map_of m k of None \<Rightarrow> None | Some v \<Rightarrow> if P k v then None else Some v)"
proof -
  have "map_of (filter (\<lambda>(k, v). \<not> P k v) m) k = None" if "k \<notin> fst ` set m" for m
    using that by (auto simp: map_of_eq_None_iff)
  with assms show ?thesis
    unfolding wf_map_def map_purge_def
    by (induction m) (auto split: option.splits)
qed

lemma length_put_new [simp]: "map_of m k = None \<Longrightarrow> length (map_put k v m) = Suc (length m)"
  by (induction m) (auto split: if_splits)

lemma length_put_old [simp]: "map_of m k = Some w \<Longrightarrow> length (map_put k v m) = length m"
  by (induction m) (auto split: if_splits)

lemma length_del_absent [simp]: "map_of m k = None \<Longrightarrow> map_del k m = m"
  by (simp add: map_of_eq_None_iff)

lemma length_del_present:
  "wf_map m \<Longrightarrow> map_of m k = Some v \<Longrightarrow> Suc (length (map_del k m)) = length m"
  unfolding wf_map_def by (induction m) (auto split: if_splits)

lemma map_of_SomeI: "wf_map m \<Longrightarrow> (k, v) \<in> set m \<Longrightarrow> map_of m k = Some v"
  by (simp add: wf_map_def)

lemma wf_map_Cons: "wf_map ((k, v) # m) \<longleftrightarrow> map_of m k = None \<and> wf_map m"
  by (auto simp: wf_map_def map_of_eq_None_iff)

section \<open>Loops that may fail\<close>

text \<open>A loop over received items that stops at the first error.\<close>

fun run_opt :: "('s \<Rightarrow> 'x \<Rightarrow> 's option) \<Rightarrow> 's \<Rightarrow> 'x list \<Rightarrow> 's option" where
  "run_opt f s [] = Some s"
| "run_opt f s (x # xs) = (case f s x of None \<Rightarrow> None | Some s' \<Rightarrow> run_opt f s' xs)"

lemma run_opt_append:
  "run_opt f s (xs @ ys) = (case run_opt f s xs of None \<Rightarrow> None | Some s' \<Rightarrow> run_opt f s' ys)"
  by (induction xs arbitrary: s) (auto split: option.splits)

lemma run_opt_invariant:
  assumes "run_opt f s xs = Some s'" and "P s"
    and "\<And>s x s'. P s \<Longrightarrow> f s x = Some s' \<Longrightarrow> P s'"
  shows "P s'"
  using assms by (induction xs arbitrary: s) (auto split: option.splits)

lemma set_map_filter_iff: "x \<in> set (List.map_filter f xs) \<longleftrightarrow> Some x \<in> f ` set xs"
  by (induction xs) (auto simp: List.map_filter_simps split: option.splits)

section \<open>Buffered channels\<close>

text \<open>
  \<open>make(chan T, n)\<close>: a queue of at most \<open>n\<close> values. \<open>chan_send\<close> is \<^const>\<open>None\<close> where
  the send would block.
\<close>

record 'a channel =
  ch_cap :: nat
  ch_buf :: "'a list"

definition make_chan :: "nat \<Rightarrow> 'a channel" where
  "make_chan n = \<lparr>ch_cap = n, ch_buf = []\<rparr>"

definition chan_send :: "'a \<Rightarrow> 'a channel \<Rightarrow> 'a channel option" where
  "chan_send x c =
     (if length (ch_buf c) < ch_cap c then Some (c\<lparr>ch_buf := ch_buf c @ [x]\<rparr>) else None)"

definition chan_recv :: "'a channel \<Rightarrow> ('a \<times> 'a channel) option" where
  "chan_recv c = (case ch_buf c of [] \<Rightarrow> None | x # xs \<Rightarrow> Some (x, c\<lparr>ch_buf := xs\<rparr>))"

section \<open>Time\<close>

text \<open>
  A \<open>time.Time\<close> is the number of nanoseconds since the zero time (so \<open>IsZero\<close> is
  equality with 0) and a \<open>time.Duration\<close> an \<open>int64\<close> number of nanoseconds. \<open>Sub\<close>
  saturates, as Go documents.
\<close>

definition maxDuration :: int where "maxDuration = 9223372036854775807"
definition minDuration :: int where "minDuration = - 9223372036854775808"
definition Second :: int where "Second = 1000000000"
definition Minute :: int where "Minute = 60 * Second"

definition time_Sub :: "int \<Rightarrow> int \<Rightarrow> int" where
  "time_Sub t u = max minDuration (min maxDuration (t - u))"

lemma time_Sub_ge_iff: "w \<le> maxDuration \<Longrightarrow> minDuration < w \<Longrightarrow> w \<le> time_Sub t u \<longleftrightarrow> u + w \<le> t"
  by (auto simp: time_Sub_def)

lemma time_Sub_exact: "0 \<le> t - u \<Longrightarrow> t - u \<le> maxDuration \<Longrightarrow> time_Sub t u = t - u"
  by (auto simp: time_Sub_def minDuration_def)

end
