(* ===== verification/Frames.thy ===== *)
theory Frames
  imports Go_Prelude
begin

text \<open>
  The binary frames that carry body chunks. The gateway has its codec in
  \<^verbatim>\<open>backend/internal/protocol/frame.go\<close> (\<open>MarshalBinary\<close>, \<open>ParseBinaryFrame\<close>), the
  agent its own in \<^verbatim>\<open>agent/internal/gatewayclient/frame.go\<close> (\<open>marshalBinary\<close>,
  \<open>parseBinaryFrame\<close>); the two check their input in a different order. The locale
  \<open>byte_codec\<close> states what the two sides rely on, and is interpreted on each codec and
  on the two mixed pairs that the tunnel uses: gateway to agent and agent to gateway.
\<close>

unbundle bit_operations_syntax

section \<open>The frame and its codecs\<close>

definition BinaryFrameVersion :: byte where "BinaryFrameVersion = 1"
definition RequestBodyChunk :: byte where "RequestBodyChunk = 1"
definition ResponseBodyChunk :: byte where "ResponseBodyChunk = 2"
definition binaryFrameHeader :: nat where "binaryFrameHeader = 12"
definition MaxBinaryFramePayload :: nat where "MaxBinaryFramePayload = 32768"

record BinaryFrame =
  frame_Type :: byte
  frame_RequestID :: string
  frame_Sequence :: u32
  frame_Payload :: "byte list"

datatype frame_error =
    UnsupportedFrameType byte
  | InvalidRequestIDLength nat
  | PayloadExceeds
  | InvalidFrame
  | InvalidFrameLength

definition MarshalBinary :: "BinaryFrame \<Rightarrow> frame_error + byte list" where
  "MarshalBinary f =
     (if frame_Type f \<noteq> RequestBodyChunk \<and> frame_Type f \<noteq> ResponseBodyChunk
      then Inl (UnsupportedFrameType (frame_Type f))
      else if length (frame_RequestID f) = 0 \<or> length (frame_RequestID f) > 2 ^ 16 - 1
      then Inl (InvalidRequestIDLength (length (frame_RequestID f)))
      else if length (frame_Payload f) > MaxBinaryFramePayload
      then Inl PayloadExceeds
      else Inr ([BinaryFrameVersion, frame_Type f]
                @ PutUint16 (of_nat (length (frame_RequestID f)))
                @ PutUint32 (frame_Sequence f)
                @ PutUint32 (of_nat (length (frame_Payload f)))
                @ bytes_of (frame_RequestID f)
                @ frame_Payload f))"

definition ParseBinaryFrame :: "byte list \<Rightarrow> frame_error + BinaryFrame" where
  "ParseBinaryFrame data =
     (if length data < binaryFrameHeader \<or> data ! 0 \<noteq> BinaryFrameVersion
      then Inl InvalidFrame
      else let frameType = data ! 1 in
        if frameType \<noteq> RequestBodyChunk \<and> frameType \<noteq> ResponseBodyChunk
        then Inl (UnsupportedFrameType frameType)
        else let idLength = unat (Uint16 (take 2 (drop 2 data)));
                 payloadLength = unat (Uint32 (take 4 (drop 8 data)))
        in if payloadLength > MaxBinaryFramePayload then Inl PayloadExceeds
        else if idLength = 0 \<or> length data \<noteq> binaryFrameHeader + idLength + payloadLength
        then Inl InvalidFrameLength
        else Inr \<lparr>frame_Type = frameType,
                  frame_RequestID = string_of (take idLength (drop 12 data)),
                  frame_Sequence = Uint32 (take 4 (drop 4 data)),
                  frame_Payload = drop (12 + idLength) data\<rparr>)"

text \<open>The agent's codec.\<close>

definition binaryFrameVersion :: byte where "binaryFrameVersion = 1"
definition requestBodyChunk :: byte where "requestBodyChunk = 1"
definition responseBodyChunk :: byte where "responseBodyChunk = 2"
definition maxBinaryFramePayload :: nat where "maxBinaryFramePayload = 32768"

definition marshalBinary :: "BinaryFrame \<Rightarrow> frame_error + byte list" where
  "marshalBinary f =
     (if frame_Type f \<noteq> requestBodyChunk \<and> frame_Type f \<noteq> responseBodyChunk
      then Inl (UnsupportedFrameType (frame_Type f))
      else if length (frame_RequestID f) = 0 \<or> length (frame_RequestID f) > 2 ^ 16 - 1
      then Inl (InvalidRequestIDLength (length (frame_RequestID f)))
      else if length (frame_Payload f) > maxBinaryFramePayload
      then Inl PayloadExceeds
      else Inr ([binaryFrameVersion, frame_Type f]
                @ PutUint16 (of_nat (length (frame_RequestID f)))
                @ PutUint32 (frame_Sequence f)
                @ PutUint32 (of_nat (length (frame_Payload f)))
                @ bytes_of (frame_RequestID f)
                @ frame_Payload f))"

definition parseBinaryFrame :: "byte list \<Rightarrow> frame_error + BinaryFrame" where
  "parseBinaryFrame data =
     (if length data < binaryFrameHeader \<or> data ! 0 \<noteq> binaryFrameVersion
      then Inl InvalidFrame
      else let idLength = unat (Uint16 (take 2 (drop 2 data)));
               payloadLength = unat (Uint32 (take 4 (drop 8 data)))
      in if payloadLength > maxBinaryFramePayload then Inl PayloadExceeds
      else if (data ! 1 \<noteq> requestBodyChunk \<and> data ! 1 \<noteq> responseBodyChunk) \<or> idLength = 0
              \<or> length data \<noteq> binaryFrameHeader + idLength + payloadLength
      then Inl InvalidFrameLength
      else Inr \<lparr>frame_Type = data ! 1,
                frame_RequestID = string_of (take idLength (drop 12 data)),
                frame_Sequence = Uint32 (take 4 (drop 4 data)),
                frame_Payload = drop (12 + idLength) data\<rparr>)"

section \<open>The codec contract\<close>

locale byte_codec =
  fixes enc :: "'a \<Rightarrow> 'e + byte list"
    and dec :: "byte list \<Rightarrow> 'f + 'a"
  assumes dec_enc: "enc x = Inr d \<Longrightarrow> dec d = Inr x"
    and enc_dec: "dec d = Inr x \<Longrightarrow> enc x = Inr d"
begin

lemma dec_iff: "dec d = Inr x \<longleftrightarrow> enc x = Inr d"
  using dec_enc enc_dec by blast

lemma enc_inj: "enc x = Inr d \<Longrightarrow> enc y = Inr d \<Longrightarrow> x = y"
  by (drule dec_enc, drule dec_enc) simp

lemma stream_dec_enc:
  "list_all2 (\<lambda>x d. enc x = Inr d) xs ds \<longleftrightarrow> list_all2 (\<lambda>d x. dec d = Inr x) ds xs"
  by (simp add: list_all2_conv_all_nth dec_iff) metis

end

text \<open>
  The bytes of a well-formed frame as one equation, so that both parsers are evaluated
  on it once.
\<close>

definition frame_ok :: "BinaryFrame \<Rightarrow> bool" where
  "frame_ok f \<longleftrightarrow> (frame_Type f = 1 \<or> frame_Type f = 2)
     \<and> 0 < length (frame_RequestID f) \<and> length (frame_RequestID f) < 65536
     \<and> length (frame_Payload f) \<le> 32768"

definition frame_bytes :: "BinaryFrame \<Rightarrow> byte list" where
  "frame_bytes f = 1 # frame_Type f # PutUint16 (of_nat (length (frame_RequestID f)))
     @ PutUint32 (frame_Sequence f) @ PutUint32 (of_nat (length (frame_Payload f)))
     @ bytes_of (frame_RequestID f) @ frame_Payload f"

lemmas frame_consts =
  BinaryFrameVersion_def RequestBodyChunk_def ResponseBodyChunk_def binaryFrameHeader_def
  MaxBinaryFramePayload_def binaryFrameVersion_def requestBodyChunk_def responseBodyChunk_def
  maxBinaryFramePayload_def

lemma MarshalBinary_iff: "MarshalBinary f = Inr d \<longleftrightarrow> frame_ok f \<and> d = frame_bytes f"
  by (auto simp: MarshalBinary_def frame_ok_def frame_bytes_def frame_consts split: if_splits)

lemma marshalBinary_eq: "marshalBinary f = MarshalBinary f"
  by (simp add: marshalBinary_def MarshalBinary_def frame_consts)

lemma frame_bytes_fields:
  shows "length (frame_bytes f) = 12 + length (frame_RequestID f) + length (frame_Payload f)"
    and "frame_bytes f ! 0 = 1"
    and "frame_bytes f ! Suc 0 = frame_Type f"
    and "take 2 (drop 2 (frame_bytes f)) = PutUint16 (of_nat (length (frame_RequestID f)))"
    and "take 4 (drop 4 (frame_bytes f)) = PutUint32 (frame_Sequence f)"
    and "take 4 (drop 8 (frame_bytes f)) = PutUint32 (of_nat (length (frame_Payload f)))"
    and "drop 12 (frame_bytes f) = bytes_of (frame_RequestID f) @ frame_Payload f"
  by (simp_all add: frame_bytes_def PutUint16_def PutUint32_def)

lemma frame_bytes_payload:
  "drop (12 + length (frame_RequestID f)) (frame_bytes f) = frame_Payload f"
proof -
  have "drop (12 + length (frame_RequestID f)) (frame_bytes f)
      = drop (length (frame_RequestID f)) (drop 12 (frame_bytes f))"
    by (simp add: add.commute)
  then show ?thesis
    by (simp add: frame_bytes_fields(7))
qed

lemma frame_ok_lengths:
  assumes "frame_ok f"
  shows "unat (of_nat (length (frame_RequestID f)) :: u16) = length (frame_RequestID f)"
    and "unat (of_nat (length (frame_Payload f)) :: u32) = length (frame_Payload f)"
  using assms by (simp_all add: frame_ok_def unat_of_nat)

lemma ParseBinaryFrame_bytes: "frame_ok f \<Longrightarrow> ParseBinaryFrame (frame_bytes f) = Inr f"
  using frame_ok_lengths [of f]
  by (simp add: ParseBinaryFrame_def frame_bytes_fields frame_bytes_payload frame_consts Let_def)
    (auto simp: frame_ok_def)

lemma parseBinaryFrame_bytes: "frame_ok f \<Longrightarrow> parseBinaryFrame (frame_bytes f) = Inr f"
  using frame_ok_lengths [of f]
  by (simp add: parseBinaryFrame_def frame_bytes_fields frame_bytes_payload frame_consts Let_def)
    (auto simp: frame_ok_def)

text \<open>
  Conversely a buffer that passes the checks of a parser is the encoding of the frame
  read from its fields.
\<close>

definition frame_fields :: "byte list \<Rightarrow> BinaryFrame" where
  "frame_fields data =
     \<lparr>frame_Type = data ! 1,
      frame_RequestID = string_of (take (unat (Uint16 (take 2 (drop 2 data)))) (drop 12 data)),
      frame_Sequence = Uint32 (take 4 (drop 4 data)),
      frame_Payload = drop (12 + unat (Uint16 (take 2 (drop 2 data)))) data\<rparr>"

definition frame_accepts :: "byte list \<Rightarrow> bool" where
  "frame_accepts data \<longleftrightarrow>
     (let idLength = unat (Uint16 (take 2 (drop 2 data)));
          payloadLength = unat (Uint32 (take 4 (drop 8 data)))
      in 12 \<le> length data \<and> data ! 0 = 1 \<and> (data ! 1 = 1 \<or> data ! 1 = 2)
         \<and> payloadLength \<le> 32768 \<and> idLength \<noteq> 0
         \<and> length data = 12 + idLength + payloadLength)"

lemma ParseBinaryFrame_iff:
  "ParseBinaryFrame data = Inr f \<longleftrightarrow> frame_accepts data \<and> f = frame_fields data"
proof -
  define i where "i = unat (Uint16 (take 2 (drop 2 data)))"
  define p where "p = unat (Uint32 (take 4 (drop 8 data)))"
  show ?thesis
    unfolding ParseBinaryFrame_def frame_accepts_def frame_fields_def frame_consts Let_def
      i_def [symmetric] p_def [symmetric]
    by auto
qed

lemma parseBinaryFrame_iff:
  "parseBinaryFrame data = Inr f \<longleftrightarrow> frame_accepts data \<and> f = frame_fields data"
proof -
  define i where "i = unat (Uint16 (take 2 (drop 2 data)))"
  define p where "p = unat (Uint32 (take 4 (drop 8 data)))"
  show ?thesis
    unfolding parseBinaryFrame_def frame_accepts_def frame_fields_def frame_consts Let_def
      i_def [symmetric] p_def [symmetric]
    by auto
qed

lemma header_split:
  assumes "12 \<le> length data"
  shows "data ! 0 # data ! 1 # take 2 (drop 2 data) @ take 4 (drop 4 data)
           @ take 4 (drop 8 data) @ drop 12 data = data"
proof -
  have "data = take 2 data @ drop 2 data" "drop 2 data = take 2 (drop 2 data) @ drop 4 data"
    "drop 4 data = take 4 (drop 4 data) @ drop 8 data"
    "drop 8 data = take 4 (drop 8 data) @ drop 12 data"
    using append_take_drop_id [of 2 "drop 2 data"] append_take_drop_id [of 4 "drop 4 data"]
      append_take_drop_id [of 4 "drop 8 data"]
    by simp_all
  moreover have "take 2 data = [data ! 0, data ! 1]"
    using assms by (cases data; cases "tl data") auto
  ultimately show ?thesis
    by (metis append_Cons append_Nil)
qed

lemma frame_accepts_bytes:
  assumes "frame_accepts data"
  shows "frame_ok (frame_fields data)" and "frame_bytes (frame_fields data) = data"
proof -
  define i where "i = unat (Uint16 (take 2 (drop 2 data)))"
  define p where "p = unat (Uint32 (take 4 (drop 8 data)))"
  have acc: "12 \<le> length data" "length data = 12 + i + p" "data ! 0 = 1"
    "data ! 1 = 1 \<or> data ! 1 = 2" "p \<le> 32768" "i \<noteq> 0"
    using assms unfolding frame_accepts_def Let_def i_def p_def by blast+
  have "i < 2 ^ LENGTH(16)"
    unfolding i_def by (rule unsigned_less)
  moreover have fields: "frame_fields data = \<lparr>frame_Type = data ! 1,
      frame_RequestID = string_of (take i (drop 12 data)),
      frame_Sequence = Uint32 (take 4 (drop 4 data)), frame_Payload = drop (12 + i) data\<rparr>"
    unfolding frame_fields_def i_def ..
  ultimately show "frame_ok (frame_fields data)"
    unfolding frame_ok_def using acc by simp
  have rest: "take i (drop 12 data) @ drop (12 + i) data = drop 12 data"
    using append_take_drop_id [of i "drop 12 data"] by (simp add: add.commute)
  have puts: "PutUint16 (of_nat i) = take 2 (drop 2 data)"
    "PutUint32 (of_nat p) = take 4 (drop 8 data)"
    "PutUint32 (Uint32 (take 4 (drop 4 data))) = take 4 (drop 4 data)"
    using acc(1) by (simp_all add: i_def p_def)
  have "frame_bytes (frame_fields data) = data ! 0 # data ! 1 # take 2 (drop 2 data)
      @ take 4 (drop 4 data) @ take 4 (drop 8 data) @ take i (drop 12 data) @ drop (12 + i) data"
    using acc puts by (simp add: frame_bytes_def fields)
  then show "frame_bytes (frame_fields data) = data"
    unfolding rest header_split [OF acc(1)] .
qed

lemma ParseBinaryFrame_sound: "ParseBinaryFrame d = Inr f \<Longrightarrow> MarshalBinary f = Inr d"
  using frame_accepts_bytes by (auto simp: ParseBinaryFrame_iff MarshalBinary_iff)

lemma parse_agree: "parseBinaryFrame d = Inr f \<longleftrightarrow> ParseBinaryFrame d = Inr f"
  by (simp add: ParseBinaryFrame_iff parseBinaryFrame_iff)

section \<open>The four sender and receiver pairs\<close>

interpretation gateway_codec: byte_codec MarshalBinary ParseBinaryFrame
  by unfold_locales
    (auto simp: MarshalBinary_iff ParseBinaryFrame_bytes dest: ParseBinaryFrame_sound)

interpretation agent_codec: byte_codec marshalBinary parseBinaryFrame
  by unfold_locales
    (auto simp: marshalBinary_eq parse_agree gateway_codec.dec_iff)

interpretation upload_codec: byte_codec MarshalBinary parseBinaryFrame
  by unfold_locales (auto simp: parse_agree gateway_codec.dec_iff)

interpretation download_codec: byte_codec marshalBinary ParseBinaryFrame
  by unfold_locales (auto simp: marshalBinary_eq gateway_codec.dec_iff)

section \<open>Properties\<close>

text \<open>
  C27: the gateway's frame codec is a bijection between the frames it accepts and the
  byte strings it accepts: parsing returns a frame exactly for the bytes that
  marshalling that frame produces. In particular parsing inverts marshalling and no two
  byte strings denote the same frame.
\<close>

theorem frame_codec_bijection: "ParseBinaryFrame d = Inr f \<longleftrightarrow> MarshalBinary f = Inr d"
  by (rule gateway_codec.dec_iff)

text \<open>
  C28: the agent's independently written codec is wire compatible with the gateway's in
  both directions: what the gateway marshals the agent parses to the same frame, what
  the agent marshals the gateway parses to the same frame, and neither side accepts a
  byte string that the other did not produce.
\<close>

theorem frame_codecs_interoperate:
  "(parseBinaryFrame d = Inr f \<longleftrightarrow> MarshalBinary f = Inr d)
   \<and> (ParseBinaryFrame d = Inr f \<longleftrightarrow> marshalBinary f = Inr d)"
  by (simp add: upload_codec.dec_iff download_codec.dec_iff)

end
