(* ===== verification/Chunk_Assembler.thy ===== *)
theory Chunk_Assembler
  imports Frames
begin

text \<open>
  Reassembling a body from numbered chunks. The agent does it in
  \<^verbatim>\<open>agent/internal/gatewayclient/chunk_assembler.go\<close> for request bodies; the gateway
  does it inside \<open>serveSession\<close> for response bodies. What both promise is the locale
  \<open>chunk_receiver\<close>: a chunk is accepted exactly when it has the right type, carries the
  next sequence number and fits, and an accepted chunk is appended.
\<close>

section \<open>The agent's assembler\<close>

record chunkAssembler =
  ca_expected :: int
  ca_next :: u32
  ca_body :: "byte list"

datatype assembler_error =
    InvalidContentLength
  | MakeslicePanic
  | UnexpectedChunk
  | ExceedsContentLength
  | ShorterThanContentLength

text \<open>
  \<open>make([]byte, 0, capacity)\<close> panics when the capacity exceeds what the Go runtime can
  allocate; that platform limit is the argument \<open>maxAlloc\<close>.
\<close>

definition newChunkAssembler :: "int \<Rightarrow> int \<Rightarrow> assembler_error + chunkAssembler" where
  "newChunkAssembler maxAlloc expected =
     (if expected < -1 then Inl InvalidContentLength
      else let capacity = (if expected > 0 then expected else 0) in
        if capacity > maxAlloc then Inl MakeslicePanic
        else Inr \<lparr>ca_expected = expected, ca_next = 0, ca_body = []\<rparr>)"

definition assembler_add ::
    "chunkAssembler \<Rightarrow> BinaryFrame \<Rightarrow> assembler_error + bool \<times> chunkAssembler" where
  "assembler_add a frame =
     (if frame_Type frame \<noteq> requestBodyChunk \<or> frame_Sequence frame \<noteq> ca_next a
      then Inl UnexpectedChunk
      else if ca_expected a \<ge> 0
              \<and> int (length (ca_body a) + length (frame_Payload frame)) > ca_expected a
      then Inl ExceedsContentLength
      else let a' = a\<lparr>ca_body := ca_body a @ frame_Payload frame, ca_next := ca_next a + 1\<rparr>
           in Inr (ca_expected a' \<ge> 0 \<and> int (length (ca_body a')) = ca_expected a', a'))"

definition assembler_complete :: "chunkAssembler \<Rightarrow> assembler_error + unit" where
  "assembler_complete a =
     (if ca_expected a \<ge> 0 \<and> int (length (ca_body a)) \<noteq> ca_expected a
      then Inl ShorterThanContentLength else Inr ())"

section \<open>The contract of a chunk receiver\<close>

text \<open>The frames a sender produces for the chunks of one body.\<close>

fun number_chunks :: "byte \<Rightarrow> string \<Rightarrow> u32 \<Rightarrow> byte list list \<Rightarrow> BinaryFrame list" where
  "number_chunks ty rid n [] = []"
| "number_chunks ty rid n (c # cs) =
     \<lparr>frame_Type = ty, frame_RequestID = rid, frame_Sequence = n, frame_Payload = c\<rparr>
     # number_chunks ty rid (n + 1) cs"

definition in_order :: "byte \<Rightarrow> u32 \<Rightarrow> BinaryFrame list \<Rightarrow> bool" where
  "in_order ty n fs \<longleftrightarrow>
     map frame_Type fs = replicate (length fs) ty
     \<and> map frame_Sequence fs = map (\<lambda>i. n + of_nat i) [0..<length fs]"

abbreviation payloads :: "BinaryFrame list \<Rightarrow> byte list" where
  "payloads fs \<equiv> concat (map frame_Payload fs)"

lemma in_order_Nil [simp]: "in_order ty n []"
  by (simp add: in_order_def)

lemma in_order_Cons [simp]:
  "in_order ty n (f # fs) \<longleftrightarrow>
     frame_Type f = ty \<and> frame_Sequence f = n \<and> in_order ty (n + 1) fs"
proof -
  have "[0..<Suc (length fs)] = 0 # map Suc [0..<length fs]"
    by (simp only: upt_conv_Cons zero_less_Suc map_Suc_upt)
  then show ?thesis
    by (auto simp: in_order_def comp_def add.assoc simp del: upt_Suc)
qed

lemma in_order_number_chunks [simp]: "in_order ty n (number_chunks ty rid n cs)"
  by (induction cs arbitrary: n) auto

lemma payloads_number_chunks [simp]: "payloads (number_chunks ty rid n cs) = concat cs"
  by (induction cs arbitrary: n) auto

lemma length_number_chunks [simp]: "length (number_chunks ty rid n cs) = length cs"
  by (induction cs arbitrary: n) auto

locale chunk_receiver =
  fixes accept :: "'s \<Rightarrow> BinaryFrame \<Rightarrow> 's option"
    and body :: "'s \<Rightarrow> byte list"
    and nxt :: "'s \<Rightarrow> u32"
    and fits :: "'s \<Rightarrow> nat \<Rightarrow> bool"
    and move :: "u32 \<Rightarrow> byte list \<Rightarrow> 's \<Rightarrow> 's"
    and ctype :: byte
  assumes accept_eq: "accept s f =
      (if frame_Type f = ctype \<and> frame_Sequence f = nxt s
          \<and> fits s (length (body s) + length (frame_Payload f))
       then Some (move (nxt s + 1) (body s @ frame_Payload f) s) else None)"
    and body_move: "body (move n b s) = b"
    and nxt_move: "nxt (move n b s) = n"
    and fits_move: "fits (move n b s) = fits s"
    and move_move: "move n b (move m c s) = move n b s"
    and move_id: "move (nxt s) (body s) s = s"
    and fits_mono: "fits s k \<Longrightarrow> j \<le> k \<Longrightarrow> fits s j"
begin

lemmas move_laws = body_move nxt_move fits_move move_move

lemma run_iff:
  "run_opt accept s fs = Some t \<longleftrightarrow>
     in_order ctype (nxt s) fs
     \<and> (fs \<noteq> [] \<longrightarrow> fits s (length (body s) + length (payloads fs)))
     \<and> t = move (nxt s + of_nat (length fs)) (body s @ payloads fs) s"
proof (induction fs arbitrary: s)
  case Nil
  show ?case by (auto simp: move_id)
next
  case (Cons f fs)
  let ?ok = "frame_Type f = ctype \<and> frame_Sequence f = nxt s
      \<and> fits s (length (body s) + length (frame_Payload f))"
  have fits_prefix: "fits s (length (body s) + length (payloads (f # fs)))
      \<Longrightarrow> fits s (length (body s) + length (frame_Payload f))"
    by (erule fits_mono) simp
  show ?case
  proof (cases ?ok)
    case True
    then have "run_opt accept s (f # fs) = Some t \<longleftrightarrow>
        run_opt accept (move (nxt s + 1) (body s @ frame_Payload f) s) fs = Some t"
      by (simp add: accept_eq)
    with True show ?thesis
      by (auto simp: Cons.IH move_laws ac_simps)
  next
    case False
    then show ?thesis
      using fits_prefix by (auto simp: accept_eq)
  qed
qed

lemma run_numbered:
  assumes "cs \<noteq> [] \<longrightarrow> fits s (length (body s) + length (concat cs))"
  shows "run_opt accept s (number_chunks ctype rid (nxt s) cs)
    = Some (move (nxt s + of_nat (length cs)) (body s @ concat cs) s)"
  using assms by (cases cs) (simp_all add: run_iff del: run_opt.simps number_chunks.simps
      flip: length_greater_0_conv)

lemma run_body: "run_opt accept s fs = Some t \<Longrightarrow> body t = body s @ payloads fs"
  by (auto simp: run_iff body_move)

lemma run_fits: "run_opt accept s fs = Some t \<Longrightarrow> fs \<noteq> [] \<Longrightarrow> fits s (length (body t))"
  by (auto simp: run_iff body_move)

end

section \<open>The agent's assembler is a chunk receiver\<close>

definition assembler_step :: "chunkAssembler \<Rightarrow> BinaryFrame \<Rightarrow> chunkAssembler option" where
  "assembler_step a f = (case assembler_add a f of Inl _ \<Rightarrow> None | Inr (_, a') \<Rightarrow> Some a')"

definition assembler_fits :: "chunkAssembler \<Rightarrow> nat \<Rightarrow> bool" where
  "assembler_fits a k \<longleftrightarrow> ca_expected a \<ge> 0 \<longrightarrow> int k \<le> ca_expected a"

definition assembler_move :: "u32 \<Rightarrow> byte list \<Rightarrow> chunkAssembler \<Rightarrow> chunkAssembler" where
  "assembler_move n b a = a\<lparr>ca_body := b, ca_next := n\<rparr>"

interpretation request_assembler:
  chunk_receiver assembler_step ca_body ca_next assembler_fits assembler_move requestBodyChunk
  by unfold_locales
    (auto simp: assembler_step_def assembler_add_def assembler_fits_def assembler_move_def
      Let_def split: if_splits)

section \<open>Properties\<close>

text \<open>
  C34: the agent reassembles a request body from exactly the well-ordered streams. After
  a request start that announces the length \<open>n\<close>, a sequence of chunks is accepted and
  completed with the body \<open>b\<close> if and only if every chunk is a request chunk, the
  sequence numbers count up from 0 (modulo \<open>2^32\<close>), \<open>b\<close> is the concatenation of the
  payloads, and \<open>b\<close> has the announced length (any length when \<open>n\<close> is -1).
\<close>

theorem request_body_reassembled:
  assumes "newChunkAssembler maxAlloc n = Inr a"
  shows "(\<exists>a'. run_opt assembler_step a fs = Some a' \<and> assembler_complete a' = Inr ()
            \<and> ca_body a' = b)
     \<longleftrightarrow> in_order requestBodyChunk 0 fs \<and> b = payloads fs \<and> (n = -1 \<or> int (length b) = n)"
proof -
  have a: "a = \<lparr>ca_expected = n, ca_next = 0, ca_body = []\<rparr>" "n \<ge> -1"
    using assms by (auto simp: newChunkAssembler_def Let_def split: if_splits)
  then show ?thesis
    by (auto simp: request_assembler.run_iff assembler_complete_def assembler_move_def
        assembler_fits_def)
qed

theorem request_body_reassembled_witness:
  "\<exists>a'. run_opt assembler_step \<lparr>ca_expected = 3, ca_next = 0, ca_body = []\<rparr>
          (number_chunks requestBodyChunk ''r'' 0 [[1, 2], [3]]) = Some a'
        \<and> assembler_complete a' = Inr () \<and> ca_body a' = [1, 2, 3]"
proof -
  have "newChunkAssembler 4096 3 = Inr \<lparr>ca_expected = 3, ca_next = 0, ca_body = []\<rparr>"
    by (simp add: newChunkAssembler_def)
  from request_body_reassembled [OF this,
      of "number_chunks requestBodyChunk ''r'' 0 [[1, 2], [3]]" "[1, 2, 3]"]
  show ?thesis by simp
qed

end
