(* ===== verification/Go_Strings.thy ===== *)
theory Go_Strings
  imports Go_Prelude
begin

text \<open>
  The functions of Go's \<open>strings\<close>, \<open>net\<close> and \<open>unicode/utf8\<close> packages that the
  sources call, on byte strings. \<open>TrimSpace\<close> removes the UTF-8 encodings of all
  Unicode white space, as Go's does. The Unicode case table behind \<open>ToLower\<close> is data of
  Go's library that is not reproduced: \<open>ToLower\<close> is exact on ASCII strings and
  takes the result on other strings from its argument \<open>uni\<close>, and every theorem holds
  for every \<open>uni\<close>.
\<close>

section \<open>Characters\<close>

abbreviation code :: "char \<Rightarrow> nat" where
  "code c \<equiv> of_char c"

definition is_ascii :: "char \<Rightarrow> bool" where
  "is_ascii c \<longleftrightarrow> code c < 128"

definition is_upper :: "char \<Rightarrow> bool" where
  "is_upper c \<longleftrightarrow> 65 \<le> code c \<and> code c \<le> 90"

definition is_lower :: "char \<Rightarrow> bool" where
  "is_lower c \<longleftrightarrow> 97 \<le> code c \<and> code c \<le> 122"

definition is_digit :: "char \<Rightarrow> bool" where
  "is_digit c \<longleftrightarrow> 48 \<le> code c \<and> code c \<le> 57"

definition lower_char :: "char \<Rightarrow> char" where
  "lower_char c = (if is_upper c then char_of (code c + 32) else c)"

definition upper_char :: "char \<Rightarrow> char" where
  "upper_char c = (if is_lower c then char_of (code c - 32) else c)"

lemma code_less [simp]: "code c < 256"
  by (metis of_char_mod_256 mod_less_divisor zero_less_numeral)

lemma lower_char_id [simp]: "\<not> is_upper c \<Longrightarrow> lower_char c = c"
  by (simp add: lower_char_def)

section \<open>Package strings\<close>

definition HasPrefix :: "string \<Rightarrow> string \<Rightarrow> bool" where
  "HasPrefix s p \<longleftrightarrow> length p \<le> length s \<and> take (length p) s = p"

definition HasSuffix :: "string \<Rightarrow> string \<Rightarrow> bool" where
  "HasSuffix s p \<longleftrightarrow> length p \<le> length s \<and> drop (length s - length p) s = p"

definition TrimPrefix :: "string \<Rightarrow> string \<Rightarrow> string" where
  "TrimPrefix s p = (if HasPrefix s p then drop (length p) s else s)"

definition TrimSuffix :: "string \<Rightarrow> string \<Rightarrow> string" where
  "TrimSuffix s p = (if HasSuffix s p then take (length s - length p) s else s)"

text \<open>\<open>strings.Split\<close> with a separator of one byte.\<close>

fun SplitByte :: "char \<Rightarrow> string \<Rightarrow> string list" where
  "SplitByte c [] = [[]]"
| "SplitByte c (x # xs) =
     (if x = c then [] # SplitByte c xs
      else case SplitByte c xs of [] \<Rightarrow> [[x]] | p # ps \<Rightarrow> (x # p) # ps)"

definition ToLower :: "(string \<Rightarrow> string) \<Rightarrow> string \<Rightarrow> string" where
  "ToLower uni s = (if list_all is_ascii s then map lower_char s else uni s)"

fun IndexByte :: "string \<Rightarrow> char \<Rightarrow> nat option" where
  "IndexByte [] c = None"
| "IndexByte (x # xs) c = (if x = c then Some 0 else map_option Suc (IndexByte xs c))"

definition LastIndexByte :: "string \<Rightarrow> char \<Rightarrow> nat option" where
  "LastIndexByte s c = map_option (\<lambda>i. length s - 1 - i) (IndexByte (rev s) c)"

fun Contains :: "string \<Rightarrow> string \<Rightarrow> bool" where
  "Contains [] sub \<longleftrightarrow> sub = []"
| "Contains (c # s) sub \<longleftrightarrow> HasPrefix (c # s) sub \<or> Contains s sub"

text \<open>\<open>strings.TrimRight\<close> with a cutset of one byte.\<close>

definition TrimRightByte :: "char \<Rightarrow> string \<Rightarrow> string" where
  "TrimRightByte c s = rev (dropWhile (\<lambda>x. x = c) (rev s))"

text \<open>The UTF-8 encodings of the white space characters of \<open>unicode.IsSpace\<close>.\<close>

definition white_space :: "string list" where
  "white_space =
     [[CHR 0x20], [CHR 0x09], [CHR 0x0A], [CHR 0x0B], [CHR 0x0C], [CHR 0x0D],
      [CHR 0xC2, CHR 0x85], [CHR 0xC2, CHR 0xA0], [CHR 0xE1, CHR 0x9A, CHR 0x80]]
     @ map (\<lambda>b. [CHR 0xE2, CHR 0x80, b])
         [CHR 0x80, CHR 0x81, CHR 0x82, CHR 0x83, CHR 0x84, CHR 0x85, CHR 0x86, CHR 0x87,
          CHR 0x88, CHR 0x89, CHR 0x8A, CHR 0xA8, CHR 0xA9, CHR 0xAF]
     @ [[CHR 0xE2, CHR 0x81, CHR 0x9F], [CHR 0xE3, CHR 0x80, CHR 0x80]]"

text \<open>Strip every leading occurrence of one of the given non-empty words.\<close>

lemma find_holds: "find P xs = Some x \<Longrightarrow> P x \<and> x \<in> set xs"
  by (induction xs) (auto split: if_splits)

function strip_words :: "string list \<Rightarrow> string \<Rightarrow> string" where
  "strip_words ws s =
     (case find (\<lambda>w. w \<noteq> [] \<and> HasPrefix s w) ws of
        None \<Rightarrow> s
      | Some w \<Rightarrow> strip_words ws (drop (length w) s))"
  by pat_completeness auto
termination
proof (relation "measure (\<lambda>(ws, s). length s)")
  fix ws s w assume "find (\<lambda>w. w \<noteq> [] \<and> HasPrefix s w) ws = Some w"
  then have "w \<noteq> []" and "length w \<le> length s"
    by (auto dest: find_holds simp: HasPrefix_def)
  then show "((ws, drop (length w) s), (ws, s)) \<in> measure (\<lambda>(ws, s). length s)"
    by (cases w; cases s) auto
qed simp

declare strip_words.simps [simp del]

definition TrimSpace :: "string \<Rightarrow> string" where
  "TrimSpace s =
     rev (strip_words (map rev white_space) (rev (strip_words white_space s)))"

section \<open>Package net\<close>

text \<open>
  \<open>net.SplitHostPort\<close>; its error value is never inspected by the sources, so an error is
  \<^const>\<open>None\<close>.
\<close>

definition SplitHostPort :: "string \<Rightarrow> (string \<times> string) option" where
  "SplitHostPort hostport =
     (case LastIndexByte hostport CHR '':'' of
        None \<Rightarrow> None
      | Some i \<Rightarrow>
          let tail = (\<lambda>host j k.
                if IndexByte (drop j hostport) CHR ''['' \<noteq> None then None
                else if IndexByte (drop k hostport) CHR '']'' \<noteq> None then None
                else Some (host, drop (i + 1) hostport))
          in if hd hostport = CHR ''['' then
               (case IndexByte hostport CHR '']'' of
                  None \<Rightarrow> None
                | Some e \<Rightarrow>
                    if e + 1 = length hostport then None
                    else if e + 1 = i then tail (take (e - 1) (drop 1 hostport)) 1 (e + 1)
                    else None)
             else
               let host = take i hostport
               in if IndexByte host CHR '':'' \<noteq> None then None else tail host 0 0)"

section \<open>Package unicode/utf8\<close>

text \<open>
  The width of the UTF-8 sequence at the front of a string, 0 where it is empty or not
  well formed.
\<close>

definition cont :: "char \<Rightarrow> bool" where
  "cont c \<longleftrightarrow> 128 \<le> code c \<and> code c \<le> 191"

fun rune_width :: "string \<Rightarrow> nat" where
  "rune_width [] = 0"
| "rune_width (a # s) =
     (let x = code a in
      if x < 128 then 1
      else case s of [] \<Rightarrow> 0 | b # s' \<Rightarrow>
        if 194 \<le> x \<and> x \<le> 223 then (if cont b then 2 else 0)
        else case s' of [] \<Rightarrow> 0 | c # s'' \<Rightarrow>
          if x = 224 then (if 160 \<le> code b \<and> code b \<le> 191 \<and> cont c then 3 else 0)
          else if x = 237 then (if 128 \<le> code b \<and> code b \<le> 159 \<and> cont c then 3 else 0)
          else if 225 \<le> x \<and> x \<le> 239 then (if cont b \<and> cont c then 3 else 0)
          else case s'' of [] \<Rightarrow> 0 | d # _ \<Rightarrow>
            if x = 240 then (if 144 \<le> code b \<and> code b \<le> 191 \<and> cont c \<and> cont d then 4 else 0)
            else if x = 244 then (if 128 \<le> code b \<and> code b \<le> 143 \<and> cont c \<and> cont d then 4 else 0)
            else if 241 \<le> x \<and> x \<le> 243 then (if cont b \<and> cont c \<and> cont d then 4 else 0)
            else 0)"

text \<open>
  \<open>encoding/json\<close> replaces every byte that does not start a well-formed sequence by the
  replacement character U+FFFD.
\<close>

definition replacement_char :: string where
  "replacement_char = [CHR 0xEF, CHR 0xBF, CHR 0xBD]"

fun utf8_coerce :: "string \<Rightarrow> string" where
  "utf8_coerce [] = []"
| "utf8_coerce (a # s) =
     (case rune_width (a # s) of
        0 \<Rightarrow> replacement_char @ utf8_coerce s
      | Suc n \<Rightarrow> a # take n s @ utf8_coerce (drop n s))"

definition utf8_valid :: "string \<Rightarrow> bool" where
  "utf8_valid s \<longleftrightarrow> utf8_coerce s = s"

section \<open>Laws\<close>

lemma HasPrefix_append [simp]: "HasPrefix (p @ s) p"
  by (simp add: HasPrefix_def)

lemma HasSuffix_append [simp]: "HasSuffix (s @ p) p"
  by (simp add: HasSuffix_def)

lemma HasPrefixE: "HasPrefix s p \<Longrightarrow> (\<And>t. s = p @ t \<Longrightarrow> thesis) \<Longrightarrow> thesis"
  unfolding HasPrefix_def by (metis append_take_drop_id)

lemma HasSuffixE: "HasSuffix s p \<Longrightarrow> (\<And>t. s = t @ p \<Longrightarrow> thesis) \<Longrightarrow> thesis"
  unfolding HasSuffix_def by (metis append_take_drop_id)

lemma TrimPrefix_append [simp]: "TrimPrefix (p @ s) p = s"
  by (simp add: TrimPrefix_def)

lemma TrimSuffix_append [simp]: "TrimSuffix (s @ p) p = s"
  by (simp add: TrimSuffix_def)

lemma HasSuffix_single: "HasSuffix s [c] \<longleftrightarrow> s \<noteq> [] \<and> last s = c"
  by (cases s rule: rev_cases) (auto simp: HasSuffix_def)

lemma TrimSuffix_single: "TrimSuffix s [c] = (if s \<noteq> [] \<and> last s = c then butlast s else s)"
  by (simp add: TrimSuffix_def HasSuffix_single butlast_conv_take)

lemma IndexByte_None_iff [simp]: "IndexByte s c = None \<longleftrightarrow> c \<notin> set s"
  by (induction s) auto

lemma IndexByte_append [simp]:
  "c \<notin> set a \<Longrightarrow> IndexByte (a @ c # b) c = Some (length a)"
  by (induction a) auto

lemma LastIndexByte_None_iff [simp]: "LastIndexByte s c = None \<longleftrightarrow> c \<notin> set s"
  by (simp add: LastIndexByte_def)

lemma LastIndexByte_append:
  "c \<notin> set b \<Longrightarrow> LastIndexByte (a @ c # b) c = Some (length a)"
  by (simp add: LastIndexByte_def)

lemma SplitHostPort_no_colon: "CHR '':'' \<notin> set s \<Longrightarrow> SplitHostPort s = None"
  by (simp add: SplitHostPort_def LastIndexByte_None_iff [THEN iffD2])

lemma SplitHostPort_port:
  assumes "set h \<inter> {CHR '':'', CHR ''['', CHR '']''} = {}"
    and "set p \<inter> {CHR '':'', CHR ''['', CHR '']''} = {}"
  shows "SplitHostPort (h @ CHR '':'' # p) = Some (h, p)"
proof -
  have "hd (h @ CHR '':'' # p) \<noteq> CHR ''[''"
    using assms by (cases h) auto
  moreover have "LastIndexByte (h @ CHR '':'' # p) CHR '':'' = Some (length h)"
    using assms by (intro LastIndexByte_append) auto
  ultimately show ?thesis
    using assms by (auto simp: SplitHostPort_def Let_def)
qed

text \<open>Trimming leaves a string alone that neither starts nor ends with white space.\<close>

lemma strip_words_id: "\<forall>w \<in> set ws. \<not> HasPrefix s w \<Longrightarrow> strip_words ws s = s"
  by (subst strip_words.simps) (auto dest: find_holds split: option.splits)

lemma white_space_first:
  "w \<in> set white_space \<Longrightarrow> hd w \<in> {CHR 0x20, CHR 0x09, CHR 0x0A, CHR 0x0B, CHR 0x0C, CHR 0x0D,
     CHR 0xC2, CHR 0xE1, CHR 0xE2, CHR 0xE3} \<and> w \<noteq> []"
  by (auto simp: white_space_def)

lemma white_space_last:
  "w \<in> set white_space \<Longrightarrow> (code (last w) \<le> 32 \<or> 128 \<le> code (last w)) \<and> w \<noteq> []"
  by (auto simp: white_space_def)

definition plain_char :: "char \<Rightarrow> bool" where
  "plain_char c \<longleftrightarrow> 33 \<le> code c \<and> code c \<le> 126"

lemma strip_words_left_plain:
  assumes "s = [] \<or> plain_char (hd s)"
  shows "strip_words white_space s = s"
proof (rule strip_words_id, intro ballI notI)
  fix w assume "w \<in> set white_space" and "HasPrefix s w"
  then have "hd s = hd w" and "s \<noteq> []" and
    "hd w \<in> {CHR 0x20, CHR 0x09, CHR 0x0A, CHR 0x0B, CHR 0x0C, CHR 0x0D,
     CHR 0xC2, CHR 0xE1, CHR 0xE2, CHR 0xE3}"
    using white_space_first [of w] by (auto elim!: HasPrefixE)
  with assms show False
    by (auto simp: plain_char_def)
qed

lemma strip_words_right_plain:
  assumes "s = [] \<or> plain_char (last s)"
  shows "strip_words (map rev white_space) (rev s) = rev s"
proof (rule strip_words_id, intro ballI notI)
  fix w assume "w \<in> set (map rev white_space)" and "HasPrefix (rev s) w"
  then obtain v where "v \<in> set white_space" and "HasPrefix (rev s) (rev v)"
    by auto
  then have "last s = last v" and "s \<noteq> []" and "code (last v) \<le> 32 \<or> 128 \<le> code (last v)"
    using white_space_last [of v]
    by (auto elim!: HasPrefixE simp flip: hd_rev)
  with assms show False
    by (auto simp: plain_char_def)
qed

lemma TrimSpace_plain:
  "s = [] \<or> plain_char (hd s) \<and> plain_char (last s) \<Longrightarrow> TrimSpace s = s"
  using strip_words_left_plain [of s] strip_words_right_plain [of s]
  by (auto simp: TrimSpace_def)

lemma ToLower_ascii: "list_all is_ascii s \<Longrightarrow> ToLower uni s = map lower_char s"
  by (simp add: ToLower_def)

lemma rune_width_le: "rune_width s \<le> length s"
  by (cases s rule: rune_width.cases) (auto simp: Let_def split: list.splits)

lemma rune_width_take:
  assumes "rune_width s = Suc n" shows "rune_width (take (Suc n) s @ t) = Suc n"
proof (cases s)
  case (Cons a u)
  consider "code a < 128" | "128 \<le> code a" "u = []" | b where "128 \<le> code a" "u = [b]"
    | b c where "128 \<le> code a"  "u = [b, c]" | b c d v where "128 \<le> code a" "u = b # c # d # v"
    by (metis list.exhaust not_less)
  then show ?thesis
  proof cases
    case 1
    with assms Cons show ?thesis by simp
  next
    case 2
    with assms Cons show ?thesis by simp
  next
    case (3 b)
    with assms Cons show ?thesis by (auto simp: Let_def split: if_split_asm)
  next
    case (4 b c)
    with assms Cons show ?thesis by (auto simp: Let_def split: if_split_asm)
  next
    case (5 b c d v)
    with assms Cons show ?thesis by (auto simp: Let_def split: if_split_asm)
  qed
qed (use assms in simp)
lemma rune_width_ascii: "rune_width (a # s) = Suc 0 \<longleftrightarrow> code a < 128"
  by (simp add: Let_def split: list.split)

lemma rune_width_multi: "rune_width (a # s) = Suc (Suc n) \<Longrightarrow> 194 \<le> code a"
  by (simp add: Let_def split: list.split_asm if_split_asm)

lemma utf8_coerce_ascii: "list_all is_ascii s \<Longrightarrow> utf8_coerce s = s"
  by (induction s) (auto simp: is_ascii_def)

lemma utf8_valid_ascii: "list_all is_ascii s \<Longrightarrow> utf8_valid s"
  by (simp add: utf8_valid_def utf8_coerce_ascii)

end
