(* ===== verification/Public_Host.thy ===== *)
theory Public_Host
  imports Go_Strings
begin

text \<open>
  Host routing (\<^verbatim>\<open>backend/internal/tunnels/public_host.go\<close>) and the random subdomains
  it routes to (\<^verbatim>\<open>backend/internal/tunnels/subdomain.go\<close>). The random source is the
  sequence of results of \<open>rand.Read\<close> on a one-byte buffer: \<^const>\<open>None\<close> is a failed
  read, and the end of the sequence stands for a read that has not returned yet.
\<close>

section \<open>Parsing the Host header\<close>

definition normalizeHost :: "(string \<Rightarrow> string) \<Rightarrow> string \<Rightarrow> string" where
  "normalizeHost uni host =
     (let host = ToLower uni (TrimSuffix (TrimSpace host) ''.'')
      in case SplitHostPort host of Some (value, _) \<Rightarrow> value | None \<Rightarrow> host)"

definition label_char :: "char \<Rightarrow> bool" where
  "label_char c \<longleftrightarrow> is_lower c \<or> is_digit c \<or> c = CHR ''-''"

definition normalizeBase :: "(string \<Rightarrow> string) \<Rightarrow> string \<Rightarrow> string" where
  "normalizeBase uni baseDomain = ToLower uni (TrimSuffix (TrimSpace baseDomain) ''.'')"

definition ParsePublicHost :: "(string \<Rightarrow> string) \<Rightarrow> string \<Rightarrow> string \<Rightarrow> string option" where
  "ParsePublicHost uni host baseDomain =
     (let host = normalizeHost uni host;
          baseDomain = normalizeBase uni baseDomain
      in if host = '''' \<or> baseDomain = '''' then None
      else let suffix = ''.'' @ baseDomain in
        if \<not> HasSuffix host suffix then None
        else let subdomain = TrimSuffix host suffix in
          if subdomain = '''' \<or> CHR ''.'' \<in> set subdomain then None
          else if \<not> list_all label_char subdomain then None
          else Some subdomain)"

section \<open>Random subdomains\<close>

definition subdomainLength :: nat where "subdomainLength = 10"

definition alphabet :: string where
  "alphabet = ''abcdefghijklmnopqrstuvwxyz0123456789''"

datatype 'a rand_result = RandDone 'a "byte option list" | RandError | RandPending

definition subdomain_limit :: byte where
  "subdomain_limit = of_nat (256 - (256 mod length alphabet))"

fun pick_char :: "byte option list \<Rightarrow> char rand_result" where
  "pick_char [] = RandPending"
| "pick_char (None # rs) = RandError"
| "pick_char (Some b # rs) =
     (if b < subdomain_limit then RandDone (alphabet ! (unat b mod length alphabet)) rs
      else pick_char rs)"

fun pick_chars :: "nat \<Rightarrow> byte option list \<Rightarrow> string rand_result" where
  "pick_chars 0 rs = RandDone [] rs"
| "pick_chars (Suc n) rs =
     (case pick_char rs of
        RandPending \<Rightarrow> RandPending
      | RandError \<Rightarrow> RandError
      | RandDone c rs' \<Rightarrow>
          (case pick_chars n rs' of
             RandDone cs rs'' \<Rightarrow> RandDone (c # cs) rs''
           | r \<Rightarrow> r))"

definition GenerateSubdomain :: "byte option list \<Rightarrow> string rand_result" where
  "GenerateSubdomain rs = pick_chars subdomainLength rs"

section \<open>Lemmas\<close>

lemma label_char_plain: "label_char c \<Longrightarrow> plain_char c \<and> is_ascii c \<and> \<not> is_upper c"
  by (auto simp: label_char_def is_lower_def is_digit_def plain_char_def is_ascii_def is_upper_def)

lemma label_no_special: "list_all label_char l \<Longrightarrow> set l \<inter> {CHR ''.'', CHR '':'', CHR ''['', CHR '']''} = {}"
  by (auto simp: list_all_iff label_char_def is_lower_def is_digit_def)

lemma ParsePublicHost_iff:
  "ParsePublicHost uni host base = Some l \<longleftrightarrow>
     l \<noteq> '''' \<and> list_all label_char l \<and> normalizeBase uni base \<noteq> ''''
     \<and> normalizeHost uni host = l @ ''.'' @ normalizeBase uni base"
proof
  assume "ParsePublicHost uni host base = Some l"
  then show "l \<noteq> '''' \<and> list_all label_char l \<and> normalizeBase uni base \<noteq> ''''
     \<and> normalizeHost uni host = l @ ''.'' @ normalizeBase uni base"
    by (auto simp: ParsePublicHost_def Let_def split: if_splits elim!: HasSuffixE)
next
  assume r: "l \<noteq> '''' \<and> list_all label_char l \<and> normalizeBase uni base \<noteq> ''''
     \<and> normalizeHost uni host = l @ ''.'' @ normalizeBase uni base"
  then have "CHR ''.'' \<notin> set l"
    using label_no_special by fastforce
  moreover have "HasSuffix (l @ ''.'' @ normalizeBase uni base) (''.'' @ normalizeBase uni base)"
    by simp
  moreover have "TrimSuffix (l @ ''.'' @ normalizeBase uni base) (''.'' @ normalizeBase uni base) = l"
    by (rule TrimSuffix_append)
  ultimately show "ParsePublicHost uni host base = Some l"
    using r by (simp add: ParsePublicHost_def Let_def del: append_Cons append_Nil)
qed

lemma map_lower_label [simp]: "list_all label_char l \<Longrightarrow> map lower_char l = l"
  by (induction l) (auto dest: label_char_plain)

lemma list_all_ascii_label: "list_all label_char l \<Longrightarrow> list_all is_ascii l"
  by (auto simp: list_all_iff dest: label_char_plain)

text \<open>
  The base domain as configured: ASCII, trimmed, without a port and more than a lone dot.
\<close>

definition base_ok :: "string \<Rightarrow> bool" where
  "base_ok b \<longleftrightarrow> b \<noteq> '''' \<and> b \<noteq> ''.'' \<and> list_all is_ascii b \<and> plain_char (hd b)
     \<and> plain_char (last b) \<and> CHR '':'' \<notin> set b"

lemma lower_char_not_colon: "lower_char c = CHR '':'' \<longleftrightarrow> c = CHR '':''"
proof -
  have "code (lower_char c) = (if is_upper c then code c + 32 else code c)"
    using code_less [of c] by (auto simp: lower_char_def is_upper_def)
  then have "code (lower_char c) = code CHR '':'' \<longleftrightarrow> code c = code CHR '':''"
    by (auto simp: is_upper_def)
  then show ?thesis
    by (simp only: of_char_eq_iff)
qed

lemma normalizeHost_label:
  assumes l: "list_all label_char l" "l \<noteq> ''''" and b: "base_ok b"
  shows "normalizeHost uni (l @ ''.'' @ b) = l @ ''.'' @ normalizeBase uni b"
proof -
  have bne: "b \<noteq> []" and asc: "list_all is_ascii b" and nc: "CHR '':'' \<notin> set b"
    and ends: "plain_char (hd b)" "plain_char (last b)"
    using b by (auto simp: base_ok_def)
  have "plain_char (hd l)"
    using l label_char_plain by (cases l) auto
  then have trim: "TrimSpace (l @ ''.'' @ b) = l @ ''.'' @ b" "TrimSpace b = b"
    using l bne ends by (auto intro!: TrimSpace_plain)
  have suf: "TrimSuffix (l @ ''.'' @ b) ''.'' = l @ ''.'' @ TrimSuffix b ''.''"
    using bne by (simp add: TrimSuffix_single butlast_append)
  have asc': "list_all is_ascii (TrimSuffix b ''.'')"
    using asc by (auto simp: TrimSuffix_single list_all_iff dest: in_set_butlastD)
  have "list_all is_ascii (l @ ''.'' @ TrimSuffix b ''.'')"
    using l asc' by (auto simp: list_all_ascii_label is_ascii_def)
  then have low: "ToLower uni (l @ ''.'' @ TrimSuffix b ''.'') = l @ ''.'' @ map lower_char (TrimSuffix b ''.'')"
    using l by (simp add: ToLower_ascii lower_char_def is_upper_def)
  have "CHR '':'' \<notin> set (TrimSuffix b ''.'')"
    using nc by (auto simp: TrimSuffix_single dest: in_set_butlastD)
  then have "CHR '':'' \<notin> lower_char ` set (TrimSuffix b ''.'')"
    by (metis imageE lower_char_not_colon)
  then have "CHR '':'' \<notin> set (l @ ''.'' @ map lower_char (TrimSuffix b ''.''))"
    using label_no_special [OF l(1)] by auto
  then have "SplitHostPort (l @ ''.'' @ map lower_char (TrimSuffix b ''.'')) = None"
    by (rule SplitHostPort_no_colon)
  then show ?thesis
    unfolding normalizeHost_def normalizeBase_def trim suf low Let_def
    by (simp add: ToLower_ascii [OF asc'])
qed

lemma normalizeBase_nonempty: "base_ok b \<Longrightarrow> normalizeBase uni b \<noteq> ''''"
proof -
  assume b: "base_ok b"
  then have "TrimSpace b = b"
    by (auto simp: base_ok_def intro!: TrimSpace_plain)
  moreover have "TrimSuffix b ''.'' \<noteq> ''''"
    using b by (cases b rule: rev_cases) (auto simp: TrimSuffix_single base_ok_def)
  moreover have "list_all is_ascii (TrimSuffix b ''.'')"
    using b by (auto simp: TrimSuffix_single base_ok_def list_all_iff dest: in_set_butlastD)
  ultimately show ?thesis
    by (simp add: normalizeBase_def ToLower_ascii)
qed

lemma ParsePublicHost_label:
  "list_all label_char l \<Longrightarrow> l \<noteq> '''' \<Longrightarrow> base_ok b \<Longrightarrow> ParsePublicHost uni (l @ ''.'' @ b) b = Some l"
  by (simp add: ParsePublicHost_iff normalizeHost_label normalizeBase_nonempty
      del: append_Cons append_Nil)

lemma subdomain_limit_val: "subdomain_limit = 252"
  by (simp add: subdomain_limit_def alphabet_def)

lemma alphabet_labels: "list_all label_char alphabet"
  by code_simp

lemma pick_char_label: "pick_char rs = RandDone c rs' \<Longrightarrow> label_char c"
proof (induction rs rule: pick_char.induct)
  case (3 b rs)
  have "alphabet ! (unat b mod length alphabet) \<in> set alphabet"
    by (rule nth_mem) (simp add: alphabet_def)
  then have "label_char (alphabet ! (unat b mod length alphabet))"
    using alphabet_labels by (simp add: list_all_iff)
  with 3 show ?case by (auto split: if_splits)
qed auto

lemma pick_chars_label:
  "pick_chars n rs = RandDone cs rs' \<Longrightarrow> list_all label_char cs \<and> length cs = n"
proof (induction n arbitrary: rs cs)
  case (Suc n)
  then show ?case
    by (auto split: rand_result.splits dest: pick_char_label)
qed simp

lemma pick_char_filter:
  "pick_char (map Some bs) =
     (case dropWhile (\<lambda>b. \<not> b < subdomain_limit) bs of
        [] \<Rightarrow> RandPending
      | b # bs' \<Rightarrow> RandDone (alphabet ! (unat b mod length alphabet)) (map Some bs'))"
  by (induction bs) auto

lemma pick_chars_accepts:
  assumes "n \<le> length (filter (\<lambda>b. b < subdomain_limit) bs)"
  shows "\<exists>rs'. pick_chars n (map Some bs) = RandDone
     (map (\<lambda>b. alphabet ! (unat b mod length alphabet))
        (take n (filter (\<lambda>b. b < subdomain_limit) bs))) rs'"
  using assms
proof (induction n arbitrary: bs)
  case (Suc n)
  then obtain b bs' where d: "dropWhile (\<lambda>b. \<not> b < subdomain_limit) bs = b # bs'"
    by (cases "dropWhile (\<lambda>b. \<not> b < subdomain_limit) bs")
      (auto simp: dropWhile_eq_Nil_conv)
  have b: "b < subdomain_limit"
    using hd_dropWhile [of "\<lambda>b. \<not> b < subdomain_limit" bs] d by auto
  have "filter (\<lambda>b. b < subdomain_limit) (dropWhile (\<lambda>b. \<not> b < subdomain_limit) bs)
      = filter (\<lambda>b. b < subdomain_limit) bs"
    by (induction bs) auto
  with d b have f: "filter (\<lambda>b. b < subdomain_limit) bs = b # filter (\<lambda>b. b < subdomain_limit) bs'"
    by simp
  with Suc.prems have "n \<le> length (filter (\<lambda>b. b < subdomain_limit) bs')"
    by simp
  from Suc.IH [OF this] show ?case
    by (auto simp: pick_char_filter d f)
qed simp

lemma alphabet_runs:
  "distinct alphabet"
  "map (\<lambda>n. alphabet ! (n mod length alphabet)) [0..<unat subdomain_limit]
     = concat (replicate 7 alphabet)"
  unfolding subdomain_limit_val by code_simp+

section \<open>Properties\<close>


text \<open>
  every subdomain the gateway generates is reachable. It has ten characters, and a
  request whose Host is that subdomain under the configured base domain is routed back
  to it.
\<close>

theorem generated_subdomain_routes:
  assumes "GenerateSubdomain rs = RandDone s rs'" and "base_ok base"
  shows "length s = 10 \<and> ParsePublicHost uni (s @ ''.'' @ base) base = Some s"
proof -
  have "list_all label_char s" and "length s = 10"
    using pick_chars_label assms(1) unfolding GenerateSubdomain_def subdomainLength_def
    by blast+
  moreover from this have "s \<noteq> []"
    by auto
  ultimately show ?thesis
    using assms(2) ParsePublicHost_label [of s base uni] by auto
qed

theorem generated_subdomain_routes_witness:
  "length ''aj90aj90aj'' = 10
   \<and> ParsePublicHost id ''aj90aj90aj.Tunnel.example.test.'' ''Tunnel.example.test.'' = Some ''aj90aj90aj''"
proof -
  have g: "GenerateSubdomain (map Some [0, 255, 9, 35, 26, 36, 45, 252, 71, 62, 0, 9])
      = RandDone ''aj90aj90aj'' []"
    by code_simp
  have b: "base_ok ''Tunnel.example.test.''"
    by code_simp
  show ?thesis
    using generated_subdomain_routes [OF g b, of id] by simp
qed

text \<open>
  generating a subdomain terminates as soon as the random source has delivered ten
  bytes below the rejection limit, the result is determined by those ten bytes, and the
  rejection removes the modulo bias: each of the 36 characters is chosen by exactly
  seven of the 252 accepted byte values, as the accepted values in order run seven times
  through the alphabet of distinct characters.
\<close>

theorem subdomain_sampling:
  "(10 \<le> length (filter (\<lambda>b. b < subdomain_limit) bs) \<longrightarrow>
      (\<exists>rs'. GenerateSubdomain (map Some bs) = RandDone
         (map (\<lambda>b. alphabet ! (unat b mod length alphabet))
            (take 10 (filter (\<lambda>b. b < subdomain_limit) bs))) rs'))
   \<and> distinct alphabet
   \<and> map (\<lambda>n. alphabet ! (n mod length alphabet)) [0..<unat subdomain_limit]
       = concat (replicate 7 alphabet)"
  using pick_chars_accepts [of 10 bs] alphabet_runs
  by (simp add: GenerateSubdomain_def subdomainLength_def)

theorem subdomain_sampling_witness:
  "\<exists>rs'. GenerateSubdomain (map Some [0, 255, 1, 2, 3, 4, 5, 6, 7, 8, 9 :: byte]) = RandDone
         (map (\<lambda>b. alphabet ! (unat b mod length alphabet)) [0, 1, 2, 3, 4, 5, 6, 7, 8, 9 :: byte]) rs'"
proof -
  have f: "filter (\<lambda>b. b < subdomain_limit) [0, 255, 1, 2, 3, 4, 5, 6, 7, 8, 9 :: byte]
      = [0, 1, 2, 3, 4, 5, 6, 7, 8, 9]"
    by (simp add: subdomain_limit_val)
  show ?thesis
    using subdomain_sampling [of "[0, 255, 1, 2, 3, 4, 5, 6, 7, 8, 9]"] unfolding f by simp
qed

end
