(* ===== verification/Rate_Limiter.thy ===== *)
theory Rate_Limiter
  imports Go_Prelude
begin

text \<open>
  The two fixed-window rate limiters: \<^verbatim>\<open>backend/internal/tunnels/rate_limiter.go\<close> in
  front of the tunnels and \<^verbatim>\<open>backend/internal/auth/rate_limiter.go\<close> in front of the
  authentication routes. Each call of \<open>allow\<close> runs under the limiter's mutex, so a
  limiter is a state machine whose steps are calls. The locale \<open>window_limiter\<close> states
  what one call does to the entry of its own key and to the entries of other keys; the
  bounds are proved there once, against a limiter for a single key (\<open>key_allow\<close>), and
  hold for both implementations.
\<close>

section \<open>The limiters\<close>

record rateEntry =
  re_started :: int
  re_count :: int

record rateLimiter =
  rl_limit :: int
  rl_window :: int
  rl_entries :: "(string, rateEntry) gomap"

definition publicRateLimit :: int where "publicRateLimit = 120"
definition publicRateWindow :: int where "publicRateWindow = Minute"
definition authRateLimit :: int where "authRateLimit = 10"
definition authRateWindow :: int where "authRateWindow = Minute"

definition newPublicRateLimiter :: "int \<Rightarrow> int \<Rightarrow> rateLimiter" where
  "newPublicRateLimiter limit window = \<lparr>rl_limit = limit, rl_window = window, rl_entries = []\<rparr>"

definition newAuthRateLimiter :: "int \<Rightarrow> int \<Rightarrow> rateLimiter" where
  "newAuthRateLimiter limit window = \<lparr>rl_limit = limit, rl_window = window, rl_entries = []\<rparr>"

definition public_allow ::
    "rateLimiter \<Rightarrow> string \<Rightarrow> int \<Rightarrow> (bool \<times> int) \<times> rateLimiter" where
  "public_allow l key now =
     (let entries = map_purge (\<lambda>_ e. time_Sub now (re_started e) \<ge> rl_window l) (rl_entries l);
          entry = (case map_of entries key of
                     Some e \<Rightarrow> e | None \<Rightarrow> \<lparr>re_started = 0, re_count = 0\<rparr>)
      in if re_started entry = 0 \<or> time_Sub now (re_started entry) \<ge> rl_window l
         then ((True, 0),
               l\<lparr>rl_entries := map_put key \<lparr>re_started = now, re_count = 1\<rparr> entries\<rparr>)
         else if re_count entry \<ge> rl_limit l
         then ((False, rl_window l - time_Sub now (re_started entry)), l\<lparr>rl_entries := entries\<rparr>)
         else ((True, 0),
               l\<lparr>rl_entries := map_put key (entry\<lparr>re_count := re_count entry + 1\<rparr>) entries\<rparr>))"

definition auth_allow ::
    "rateLimiter \<Rightarrow> string \<Rightarrow> int \<Rightarrow> (bool \<times> int) \<times> rateLimiter" where
  "auth_allow l key now =
     (let entries = map_purge (\<lambda>_ e. time_Sub now (re_started e) \<ge> rl_window l) (rl_entries l);
          entry = (case map_of entries key of
                     Some e \<Rightarrow> e | None \<Rightarrow> \<lparr>re_started = 0, re_count = 0\<rparr>)
      in if re_started entry = 0 \<or> time_Sub now (re_started entry) \<ge> rl_window l
         then ((True, 0),
               l\<lparr>rl_entries := map_put key \<lparr>re_started = now, re_count = 1\<rparr> entries\<rparr>)
         else if re_count entry \<ge> rl_limit l
         then ((False, rl_window l - time_Sub now (re_started entry)), l\<lparr>rl_entries := entries\<rparr>)
         else ((True, 0),
               l\<lparr>rl_entries := map_put key (entry\<lparr>re_count := re_count entry + 1\<rparr>) entries\<rparr>))"

text \<open>The verdicts of a sequence of calls, each a key and the time it is made.\<close>

fun verdicts ::
    "('l \<Rightarrow> string \<Rightarrow> int \<Rightarrow> (bool \<times> int) \<times> 'l) \<Rightarrow> 'l \<Rightarrow> (string \<times> int) list \<Rightarrow> bool list" where
  "verdicts al l [] = []"
| "verdicts al l ((k, t) # cs) =
     (let r = al l k t in fst (fst r) # verdicts al (snd r) cs)"

section \<open>The specification: one key\<close>

text \<open>
  A limiter for a single key: the start of the current window and the calls allowed in
  it, if there is a window.
\<close>

fun key_allow :: "int \<Rightarrow> int \<Rightarrow> (int \<times> int) option \<Rightarrow> int \<Rightarrow> bool \<times> (int \<times> int) option" where
  "key_allow L W None t = (True, Some (t, 1))"
| "key_allow L W (Some (s, c)) t =
     (if s + W \<le> t then (True, Some (t, 1))
      else if c \<ge> L then (False, Some (s, c)) else (True, Some (s, c + 1)))"

fun key_run :: "int \<Rightarrow> int \<Rightarrow> (int \<times> int) option \<Rightarrow> int list \<Rightarrow> bool list" where
  "key_run L W st [] = []"
| "key_run L W st (t # ts) =
     (let r = key_allow L W st t in fst r # key_run L W (snd r) ts)"

definition allowed_before :: "int \<Rightarrow> int list \<Rightarrow> bool list \<Rightarrow> nat" where
  "allowed_before b ts vs = length (filter (\<lambda>(t, v). v \<and> t < b) (zip ts vs))"

lemma allowed_before_Nil [simp]: "allowed_before b [] vs = 0"
  by (simp add: allowed_before_def)

lemma allowed_before_Cons [simp]:
  "allowed_before b (t # ts) (v # vs) = (if v \<and> t < b then 1 else 0) + allowed_before b ts vs"
  by (simp add: allowed_before_def)

lemma allowed_before_late: "\<forall>t \<in> set ts. b \<le> t \<Longrightarrow> allowed_before b ts vs = 0"
  by (force simp: allowed_before_def filter_empty_conv dest: set_zip_leftD)

text \<open>Within one window at most the remaining budget is allowed.\<close>

lemma key_run_window:
  assumes "sorted ts" and "\<forall>t \<in> set ts. s \<le> t" and "b \<le> s + W"
  shows "allowed_before b ts (key_run L W (Some (s, c)) ts) \<le> nat (L - c)"
  using assms
proof (induction ts arbitrary: c)
  case (Cons t ts)
  show ?case
  proof (cases "s + W \<le> t")
    case True
    with Cons.prems have "\<forall>u \<in> set (t # ts). b \<le> u"
      by auto
    then have "allowed_before b (t # ts) vs = 0" for vs
      by (rule allowed_before_late)
    then show ?thesis by simp
  next
    case False
    with Cons.IH [of c] Cons.IH [of "c + 1"] Cons.prems show ?thesis
      by (auto simp: Let_def)
  qed
qed simp

text \<open>
  An interval of the length of the window meets the end of one window and the start of
  the next, so at most twice the budget is allowed in it.
\<close>

lemma key_run_interval:
  assumes "sorted ts" and "\<forall>t \<in> set ts. a \<le> t"
    and "case st of None \<Rightarrow> True | Some (s, c) \<Rightarrow> 1 \<le> c"
  shows "allowed_before (a + W) ts (key_run L W st ts)
    \<le> nat (max 1 L) + (case st of None \<Rightarrow> 0 | Some (s, c) \<Rightarrow> nat (L - c))"
  using assms
proof (induction ts arbitrary: st)
  case (Cons t ts)
  have fresh: "allowed_before (a + W) ts (key_run L W (Some (t, 1)) ts) \<le> nat (L - 1)"
    using Cons.prems by (intro key_run_window) auto
  show ?case
  proof (cases st)
    case None
    with fresh show ?thesis by (auto simp: Let_def)
  next
    case (Some p)
    obtain s c where st: "st = Some (s, c)"
      using Some by (cases p) auto
    have "allowed_before (a + W) ts (key_run L W (Some (s, d)) ts) \<le> nat (max 1 L) + nat (L - d)"
      if "1 \<le> d" for d
      using Cons.IH [of "Some (s, d)"] Cons.prems that by simp
    from this [of c] this [of "c + 1"] fresh Cons.prems(3) st show ?thesis
      by (auto simp: Let_def)
  qed
qed simp

lemma key_allow_count:
  "case st of None \<Rightarrow> True | Some (s, c) \<Rightarrow> (1 :: int) \<le> c \<Longrightarrow>
   case snd (key_allow L W st t) of None \<Rightarrow> True | Some (s, c) \<Rightarrow> 1 \<le> c"
  by (cases "(L, W, st, t)" rule: key_allow.cases) auto

lemma key_run_any_interval:
  assumes "sorted ts" and "case st of None \<Rightarrow> True | Some (s, c) \<Rightarrow> 1 \<le> c"
  shows "length (filter (\<lambda>(t, v). v \<and> a \<le> t \<and> t < a + W) (zip ts (key_run L W st ts)))
    \<le> 2 * nat (max 1 L) - 1"
  using assms
proof (induction ts arbitrary: st)
  case (Cons t ts)
  show ?case
  proof (cases "a \<le> t")
    case True
    with Cons.prems have late: "\<forall>u \<in> set (t # ts). a \<le> u"
      by auto
    have "length (filter (\<lambda>(t, v). v \<and> a \<le> t \<and> t < a + W) (zip (t # ts) vs))
        = allowed_before (a + W) (t # ts) vs" for vs
      unfolding allowed_before_def using late
      by (intro arg_cong [where f = length] filter_cong) (force dest: set_zip_leftD)+
    moreover have "(case st of None \<Rightarrow> 0 | Some (s, c) \<Rightarrow> nat (L - c)) \<le> nat (max 1 L) - 1"
      using Cons.prems(2) by (auto split: option.splits)
    ultimately show ?thesis
      using key_run_interval [OF Cons.prems(1) late Cons.prems(2), of W L] by simp
  next
    case False
    with Cons.IH [OF _ key_allow_count [OF Cons.prems(2)]] Cons.prems(1) show ?thesis
      by (simp add: Let_def)
  qed
qed simp

section \<open>The contract of a limiter\<close>

locale window_limiter =
  fixes allow :: "'l \<Rightarrow> string \<Rightarrow> int \<Rightarrow> (bool \<times> int) \<times> 'l"
    and entry :: "'l \<Rightarrow> string \<Rightarrow> (int \<times> int) option"
    and limit :: "'l \<Rightarrow> int"
    and window :: "'l \<Rightarrow> int"
    and wf :: "'l \<Rightarrow> bool"
  assumes allow_own: "wf l \<Longrightarrow> 0 < t \<Longrightarrow>
      (fst (fst (allow l k t)), entry (snd (allow l k t)) k)
        = key_allow (limit l) (window l) (entry l k) t"
    and allow_other: "wf l \<Longrightarrow> 0 < t \<Longrightarrow> k' \<noteq> k \<Longrightarrow>
      entry (snd (allow l k t)) k' =
        (case entry l k' of None \<Rightarrow> None
         | Some (s, c) \<Rightarrow> if s + window l \<le> t then None else Some (s, c))"
    and allow_keeps: "wf l \<Longrightarrow> 0 < t \<Longrightarrow> wf (snd (allow l k t))
        \<and> limit (snd (allow l k t)) = limit l \<and> window (snd (allow l k t)) = window l"
    and retry_after: "wf l \<Longrightarrow> 0 < t \<Longrightarrow> allow l k t = ((False, r), l') \<Longrightarrow>
        \<exists>s c. entry l k = Some (s, c) \<and> (s \<le> t \<longrightarrow> r = s + window l - t)"
begin

text \<open>
  The stored entry of a key and the state of its single-key limiter agree, up to windows
  that are over: those the limiter may have dropped already.
\<close>

definition agrees :: "int \<Rightarrow> 'l \<Rightarrow> string \<Rightarrow> (int \<times> int) option \<Rightarrow> bool" where
  "agrees t l k st \<longleftrightarrow> entry l k = st
     \<or> entry l k = None \<and> (\<exists>s c. st = Some (s, c) \<and> s + window l \<le> t)"

lemma agrees_own:
  assumes "wf l" "0 < t" "agrees t l k st" "key_allow (limit l) (window l) st t = (v, st')"
  shows "fst (fst (allow l k t)) = v \<and> entry (snd (allow l k t)) k = st'"
  using allow_own [OF assms(1,2), of k] assms(3,4)
  by (auto simp: agrees_def prod_eq_iff split: if_splits)

lemma agrees_other:
  assumes "wf l" "0 < t" "agrees t l k' st" "k' \<noteq> k"
  shows "agrees t (snd (allow l k t)) k' st"
  using allow_other [OF assms(1,2,4)] allow_keeps [OF assms(1,2), of k] assms(3)
  by (auto simp: agrees_def split: option.splits if_splits)

lemma agrees_later: "agrees t l k st \<Longrightarrow> t \<le> u \<Longrightarrow> agrees u l k st"
  by (fastforce simp: agrees_def)

lemma verdicts_isolated:
  assumes "wf l" "sorted (map snd cs)" "\<forall>t \<in> snd ` set cs. u \<le> t" "0 < u" "agrees u l k st"
  shows "map snd (filter (\<lambda>((k', t), v). k' = k) (zip cs (verdicts allow l cs)))
       = key_run (limit l) (window l) st (map snd (filter (\<lambda>(k', t). k' = k) cs))"
  using assms
proof (induction cs arbitrary: l st u)
  case (Cons c cs)
  obtain k1 t where c: "c = (k1, t)" by (cases c)
  have t: "0 < t" "u \<le> t" and srt: "sorted (map snd cs)" "\<forall>t' \<in> snd ` set cs. t \<le> t'"
    using Cons.prems c by auto
  have keep: "wf (snd (allow l k1 t))" "limit (snd (allow l k1 t)) = limit l"
    "window (snd (allow l k1 t)) = window l"
    using allow_keeps [OF Cons.prems(1) t(1)] by auto
  have ag: "agrees t l k st"
    using Cons.prems(5) t(2) by (rule agrees_later)
  show ?case
  proof (cases "k1 = k")
    case True
    obtain v st' where r: "key_allow (limit l) (window l) st t = (v, st')"
      by fastforce
    have own: "fst (fst (allow l k t)) = v" "agrees t (snd (allow l k t)) k st'"
      using agrees_own [OF Cons.prems(1) t(1) ag r] by (auto simp: agrees_def)
    show ?thesis
      using Cons.IH [OF keep(1) srt t(1)] own keep True by (simp add: c Let_def r)
  next
    case False
    have "agrees t (snd (allow l k1 t)) k st"
      using False by (intro agrees_other [OF Cons.prems(1) t(1) ag]) simp
    then show ?thesis
      using Cons.IH [OF keep(1) srt t(1)] keep False by (simp add: c Let_def)
  qed
qed simp

lemma length_verdicts [simp]: "length (verdicts allow l cs) = length cs"
  by (induction cs arbitrary: l) (auto simp: Let_def)

text \<open>Two callers' verdicts for a key agree whatever the calls for other keys are.\<close>

lemma verdicts_other_keys:
  assumes "wf l" "sorted (map snd cs)" "\<forall>t \<in> snd ` set cs. 0 < t"
  shows "map snd (filter (\<lambda>((k', t), v). k' = k) (zip cs (verdicts allow l cs)))
       = verdicts allow l (filter (\<lambda>(k', t). k' = k) cs)"
proof -
  have pos: "\<forall>t \<in> snd ` set cs. 1 \<le> t"
    using assms(3) by fastforce
  let ?own = "filter (\<lambda>(k', t). k' = k) cs"
  have own: "sorted (map snd ?own)" "\<forall>t \<in> snd ` set ?own. 1 \<le> t"
    using assms(2) pos by (auto intro: sorted_filter)
  have "filter (\<lambda>((k', t), v). k' = k) (zip ?own vs) = zip ?own vs"
    for vs :: "bool list"
    by (auto simp: filter_id_conv dest: set_zip_leftD)
  moreover have "filter (\<lambda>(k', t). k' = k) ?own = ?own"
    by (simp add: filter_id_conv)
  ultimately have "verdicts allow l ?own
      = key_run (limit l) (window l) (entry l k) (map snd ?own)"
    using verdicts_isolated [OF assms(1) own, of k "entry l k"]
    by (simp add: agrees_def map_snd_zip [OF length_verdicts [symmetric]])
  then show ?thesis
    using verdicts_isolated [OF assms(1,2) pos, of k "entry l k"] by (simp add: agrees_def)
qed

text \<open>How many calls for one key any interval of the window's length can see allowed.\<close>

lemma allowed_in_interval:
  assumes "wf l" "sorted (map snd cs)" "\<forall>t \<in> snd ` set cs. 0 < t" "entry l k = None"
  shows "length (filter (\<lambda>((k', t), v). k' = k \<and> v \<and> a \<le> t \<and> t < a + window l)
           (zip cs (verdicts allow l cs))) \<le> 2 * nat (max 1 (limit l)) - 1"
proof -
  have pos: "\<forall>t \<in> snd ` set cs. 1 \<le> t"
    using assms(3) by fastforce
  let ?F = "filter (\<lambda>((k', t), v). k' = k) (zip cs (verdicts allow l cs))"
  let ?ts = "map snd (filter (\<lambda>(k', t). k' = k) cs)"
  have vs: "map snd ?F = key_run (limit l) (window l) None ?ts"
    using verdicts_isolated [OF assms(1,2) pos, of k None] assms(4) by (simp add: agrees_def)
  have "map fst (filter (\<lambda>((k', t), v). k' = k) (zip xs ys)) = filter (\<lambda>(k', t). k' = k) xs"
    if "length xs = length ys" for xs :: "(string \<times> int) list" and ys :: "bool list"
    using that by (induction xs ys rule: list_induct2) auto
  then have ts: "map (snd \<circ> fst) ?F = ?ts"
    by (metis length_verdicts list.map_comp)
  have "map (\<lambda>((k', t), v). (t, v)) ?F = zip (map (snd \<circ> fst) ?F) (map snd ?F)"
    by (simp add: zip_map_map zip_same_conv_map case_prod_unfold)
  then have F: "map (\<lambda>((k', t), v). (t, v)) ?F
      = zip ?ts (key_run (limit l) (window l) None ?ts)"
    by (simp only: vs ts)
  have "filter (\<lambda>((k', t), v). k' = k \<and> v \<and> a \<le> t \<and> t < a + window l) (zip cs ys)
      = filter (\<lambda>x. snd x \<and> a \<le> snd (fst x) \<and> snd (fst x) < a + window l)
          (filter (\<lambda>((k', t), v). k' = k) (zip cs ys))" for ys
    by (auto intro: filter_cong)
  then have "length (filter (\<lambda>((k', t), v). k' = k \<and> v \<and> a \<le> t \<and> t < a + window l)
        (zip cs (verdicts allow l cs)))
      = length (filter (\<lambda>(t, v). v \<and> a \<le> t \<and> t < a + window l)
          (map (\<lambda>((k', t), v). (t, v)) ?F))"
    by (simp add: filter_map comp_def case_prod_unfold)
  also have "\<dots> \<le> 2 * nat (max 1 (limit l)) - 1"
    unfolding F using assms(2) by (intro key_run_any_interval) (auto intro: sorted_filter)
  finally show ?thesis .
qed

text \<open>A refused caller that waits as long as it is told to is served.\<close>

lemma retry_succeeds:
  assumes "wf l" "0 < t" "0 < window l" "allow l k t = ((False, r), l')"
    and "\<And>s c. entry l k = Some (s, c) \<Longrightarrow> s \<le> t"
  shows "0 < r \<and> r \<le> window l \<and> fst (fst (allow l' k (t + r)))
    \<and> (\<forall>u. t \<le> u \<and> u < t + r \<longrightarrow> \<not> fst (fst (allow l' k u)))"
proof -
  obtain s c where e: "entry l k = Some (s, c)" and r: "r = s + window l - t" and st: "s \<le> t"
    using retry_after [OF assms(1,2,4)] assms(5) by blast
  have own: "key_allow (limit l) (window l) (Some (s, c)) t = (False, entry l' k)"
    using allow_own [OF assms(1,2), of k] assms(4) e by simp
  then have c: "c \<ge> limit l" "\<not> s + window l \<le> t" "entry l' k = Some (s, c)"
    by (auto split: if_splits)
  have l': "wf l'" "limit l' = limit l" "window l' = window l"
    using allow_keeps [OF assms(1,2), of k] assms(4) by auto
  have later: "fst (fst (allow l' k u)) \<longleftrightarrow> s + window l \<le> u" if "t \<le> u" for u
    using allow_own [OF l'(1), of u k] that assms(2) c l' by (auto simp: prod_eq_iff)
  show ?thesis
    using c(2) st r later by auto
qed

end

section \<open>Both limiters keep the contract\<close>

definition limiter_entry :: "rateLimiter \<Rightarrow> string \<Rightarrow> (int \<times> int) option" where
  "limiter_entry l k = map_option (\<lambda>e. (re_started e, re_count e)) (map_of (rl_entries l) k)"

definition limiter_wf :: "rateLimiter \<Rightarrow> bool" where
  "limiter_wf l \<longleftrightarrow> wf_map (rl_entries l) \<and> 0 < rl_window l \<and> rl_window l \<le> maxDuration
     \<and> (\<forall>e \<in> ran (map_of (rl_entries l)). 0 < re_started e)"

lemma auth_allow_eq: "auth_allow = public_allow"
  by (simp add: fun_eq_iff auth_allow_def public_allow_def)

lemma limiter_wf_put:
  assumes "limiter_wf l" "0 < re_started e"
  shows "limiter_wf (l\<lparr>rl_entries := map_put k e (map_purge P (rl_entries l))\<rparr>)"
  using assms by (auto simp: limiter_wf_def map_of_put map_of_purge ran_def split: if_splits option.splits)

lemma limiter_wf_purge:
  "limiter_wf l \<Longrightarrow> limiter_wf (l\<lparr>rl_entries := map_purge P (rl_entries l)\<rparr>)"
  by (auto simp: limiter_wf_def map_of_purge ran_def split: if_splits option.splits)

lemma public_allow_cases:
  assumes "limiter_wf l" "0 < t"
  defines "es \<equiv> map_purge (\<lambda>_ e. re_started e + rl_window l \<le> t) (rl_entries l)"
  shows "public_allow l k t =
    (case map_of (rl_entries l) k of
       None \<Rightarrow> ((True, 0), l\<lparr>rl_entries := map_put k \<lparr>re_started = t, re_count = 1\<rparr> es\<rparr>)
     | Some e \<Rightarrow>
         if re_started e + rl_window l \<le> t
         then ((True, 0), l\<lparr>rl_entries := map_put k \<lparr>re_started = t, re_count = 1\<rparr> es\<rparr>)
         else if re_count e \<ge> rl_limit l
         then ((False, rl_window l - time_Sub t (re_started e)), l\<lparr>rl_entries := es\<rparr>)
         else ((True, 0), l\<lparr>rl_entries := map_put k (e\<lparr>re_count := re_count e + 1\<rparr>) es\<rparr>))"
proof -
  have sub: "rl_window l \<le> time_Sub t s \<longleftrightarrow> s + rl_window l \<le> t" for s
    using assms(1) by (intro time_Sub_ge_iff) (auto simp: limiter_wf_def minDuration_def)
  have pos: "map_of (rl_entries l) k = Some e \<Longrightarrow> re_started e \<noteq> 0" for e
    using assms(1) by (fastforce simp: limiter_wf_def ran_def)
  have "map_of es k = (case map_of (rl_entries l) k of None \<Rightarrow> None
      | Some e \<Rightarrow> if re_started e + rl_window l \<le> t then None else Some e)"
    using assms(1) by (auto simp: es_def limiter_wf_def map_of_purge split: option.splits)
  with pos show ?thesis
    by (auto simp: public_allow_def sub es_def [symmetric] Let_def split: option.splits)
qed

lemma public_allow_contract:
  "window_limiter public_allow limiter_entry rl_limit rl_window limiter_wf"
proof
  fix l k k' r l' and t :: int
  assume wf: "limiter_wf l" and t: "0 < t"
  note allow = public_allow_cases [OF wf t]
  have [simp]: "wf_map (rl_entries l)"
    using wf by (simp add: limiter_wf_def)
  show "(fst (fst (public_allow l k t)), limiter_entry (snd (public_allow l k t)) k)
      = key_allow (rl_limit l) (rl_window l) (limiter_entry l k) t"
    by (auto simp: allow limiter_entry_def map_of_put map_of_purge split: option.splits)
  show "limiter_entry (snd (public_allow l k t)) k' =
      (case limiter_entry l k' of None \<Rightarrow> None
       | Some (s, c) \<Rightarrow> if s + rl_window l \<le> t then None else Some (s, c))" if "k' \<noteq> k"
    using that by (auto simp: allow limiter_entry_def map_of_put map_of_purge split: option.splits)
  have "limiter_wf (snd (public_allow l k t))"
  proof -
    have "0 < re_started e" if "map_of (rl_entries l) k = Some e" for e
      using wf that by (auto simp: limiter_wf_def ran_def)
    with t show ?thesis
      by (auto simp: allow limiter_wf_put [OF wf] limiter_wf_purge [OF wf] split: option.splits)
  qed
  then show "limiter_wf (snd (public_allow l k t))
      \<and> rl_limit (snd (public_allow l k t)) = rl_limit l
      \<and> rl_window (snd (public_allow l k t)) = rl_window l"
    by (auto simp: allow split: option.splits)
  show "\<exists>s c. limiter_entry l k = Some (s, c) \<and> (s \<le> t \<longrightarrow> r = s + rl_window l - t)"
    if refused: "public_allow l k t = ((False, r), l')"
  proof -
    obtain e where e: "map_of (rl_entries l) k = Some e" "\<not> re_started e + rl_window l \<le> t"
      "r = rl_window l - time_Sub t (re_started e)"
      using refused by (auto simp: allow split: option.splits if_splits)
    have "time_Sub t (re_started e) = t - re_started e" if "re_started e \<le> t"
      using that e(2) wf by (intro time_Sub_exact) (auto simp: limiter_wf_def)
    with e show ?thesis by (auto simp: limiter_entry_def)
  qed
qed

interpretation public_limiter: window_limiter public_allow limiter_entry rl_limit rl_window limiter_wf
  by (rule public_allow_contract)

interpretation auth_limiter: window_limiter auth_allow limiter_entry rl_limit rl_window limiter_wf
  unfolding auth_allow_eq by (rule public_allow_contract)

lemma limiter_wf_new [simp]:
  "0 < w \<Longrightarrow> w \<le> maxDuration \<Longrightarrow> limiter_wf (newPublicRateLimiter n w)"
  "0 < w \<Longrightarrow> w \<le> maxDuration \<Longrightarrow> limiter_wf (newAuthRateLimiter n w)"
  by (auto simp: limiter_wf_def newPublicRateLimiter_def newAuthRateLimiter_def wf_map_def)

lemma limiter_new_simps [simp]:
  "limiter_entry (newPublicRateLimiter n w) k = None"
  "limiter_entry (newAuthRateLimiter n w) k = None"
  "rl_limit (newPublicRateLimiter n w) = n" "rl_window (newPublicRateLimiter n w) = w"
  "rl_limit (newAuthRateLimiter n w) = n" "rl_window (newAuthRateLimiter n w) = w"
  by (auto simp: limiter_entry_def newPublicRateLimiter_def newAuthRateLimiter_def)

lemma Minute_bounds [simp]: "0 < Minute" "Minute \<le> maxDuration"
  by (simp_all add: Minute_def Second_def maxDuration_def)

text \<open>
  C35: the limiter in front of the tunnels serves at most 239 requests of one key (a tunnel
  and a client address) in any interval of a minute, whatever the order of the calls of
  all clients; the limiter of the authentication routes serves at most 19 calls per client
  address in any minute. Windows are fixed, so twice the configured limit less one is
  reached by a burst across the border of two windows.
\<close>

theorem rate_limit_per_minute:
  assumes "sorted (map snd cs)" and "\<forall>t \<in> snd ` set cs. 0 < t"
  shows "length (filter (\<lambda>((k', t), v). k' = k \<and> v \<and> a \<le> t \<and> t < a + Minute)
           (zip cs (verdicts public_allow (newPublicRateLimiter publicRateLimit publicRateWindow) cs)))
           \<le> 239
       \<and> length (filter (\<lambda>((k', t), v). k' = k \<and> v \<and> a \<le> t \<and> t < a + Minute)
           (zip cs (verdicts auth_allow (newAuthRateLimiter authRateLimit authRateWindow) cs)))
           \<le> 19"
  using public_limiter.allowed_in_interval [OF _ assms,
      of "newPublicRateLimiter publicRateLimit publicRateWindow" k a]
    auth_limiter.allowed_in_interval [OF _ assms,
      of "newAuthRateLimiter authRateLimit authRateWindow" k a]
  by (simp add: publicRateLimit_def publicRateWindow_def authRateLimit_def authRateWindow_def)

theorem rate_limit_per_minute_witness:
  "length (filter (\<lambda>((k', t), v). k' = ''a'' \<and> v \<and> 1 \<le> t \<and> t < 1 + Minute)
     (zip [(''a'', 1), (''b'', 2), (''a'', 3)]
       (verdicts public_allow (newPublicRateLimiter publicRateLimit publicRateWindow)
         [(''a'', 1), (''b'', 2), (''a'', 3)]))) \<le> 239"
  using rate_limit_per_minute [of "[(''a'', 1), (''b'', 2), (''a'', 3)]" "''a''" 1] by simp

text \<open>
  no key's calls change what another key gets. The verdicts a key receives in a
  sequence of calls by everyone are those it would receive if only its own calls had been
  made, although every call purges the entries of all keys.
\<close>

theorem rate_limit_isolation:
  assumes "limiter_wf l" and "sorted (map snd cs)" and "\<forall>t \<in> snd ` set cs. 0 < t"
  shows "map snd (filter (\<lambda>((k', t), v). k' = k) (zip cs (verdicts public_allow l cs)))
           = verdicts public_allow l (filter (\<lambda>(k', t). k' = k) cs)
       \<and> map snd (filter (\<lambda>((k', t), v). k' = k) (zip cs (verdicts auth_allow l cs)))
           = verdicts auth_allow l (filter (\<lambda>(k', t). k' = k) cs)"
  using public_limiter.verdicts_other_keys [OF assms] auth_limiter.verdicts_other_keys [OF assms]
  by simp

theorem rate_limit_isolation_witness:
  "map snd (filter (\<lambda>((k', t), v). k' = ''a'')
     (zip [(''a'', 1 :: int), (''b'', 2), (''a'', 3)]
       (verdicts public_allow (newPublicRateLimiter 1 Minute) [(''a'', 1), (''b'', 2), (''a'', 3)])))
   = [True, False]"
proof -
  have "verdicts public_allow (newPublicRateLimiter 1 Minute) [(''a'', 1), (''a'', 3)] = [True, False]"
    by code_simp
  then show ?thesis
    using rate_limit_isolation [of "newPublicRateLimiter 1 Minute"
        "[(''a'', 1), (''b'', 2), (''a'', 3)]" "''a''"] by simp
qed

text \<open>
  a refusal reports the exact rest of the window. The wait is positive and at most the
  window; the same key is refused at every moment before it is over and served when it is.
\<close>

theorem rate_limit_retry_after:
  assumes "limiter_wf l" and "0 < t" and "public_allow l k t = ((False, r), l')"
    and "\<And>s c. limiter_entry l k = Some (s, c) \<Longrightarrow> s \<le> t"
  shows "0 < r \<and> r \<le> rl_window l \<and> fst (fst (public_allow l' k (t + r)))
    \<and> (\<forall>u. t \<le> u \<and> u < t + r \<longrightarrow> \<not> fst (fst (public_allow l' k u)))"
proof -
  have "0 < rl_window l"
    using assms(1) by (simp add: limiter_wf_def)
  from public_limiter.retry_succeeds [OF assms(1,2) this assms(3)] assms(4) show ?thesis
    by blast
qed

theorem rate_limit_retry_after_witness:
  "fst (fst (public_allow
     \<lparr>rl_limit = 1, rl_window = 10, rl_entries = [(''a'', \<lparr>re_started = 5, re_count = 1\<rparr>)]\<rparr>
     ''a'' (8 + 7)))"
proof -
  let ?l = "\<lparr>rl_limit = 1, rl_window = 10, rl_entries = [(''a'', \<lparr>re_started = 5, re_count = 1\<rparr>)]\<rparr>"
  have "limiter_wf ?l"
    by (simp add: limiter_wf_def wf_map_def maxDuration_def ran_def)
  moreover have "public_allow ?l ''a'' 8 = ((False, 7), ?l)"
    by code_simp
  moreover have "limiter_entry ?l ''a'' = Some (5, 1)"
    by (simp add: limiter_entry_def)
  ultimately show ?thesis
    using rate_limit_retry_after [of ?l 8 "''a''" 7 ?l] by simp
qed

end
