(* ===== verification/Tunnel_Registry.thy ===== *)
theory Tunnel_Registry
  imports Go_Prelude "HOL-Library.Multiset"
begin

text \<open>
  The routing table of open tunnels, \<^verbatim>\<open>backend/internal/tunnels/registry.go\<close>: two Go
  maps (by subdomain and by tunnel id) and the traffic counters, all behind one mutex, so
  every method is one step. Go does not fix the order in which \<open>CloseSession\<close> ranges over
  its map; the order is an argument of the model. The locale \<open>route_table\<close> is the contract
  the gateway and the public handler rely on: the table behaves as one set of open tunnels,
  keyed by tunnel id.
\<close>

section \<open>State\<close>

record ActiveTunnel =
  at_ID :: string
  at_Subdomain :: string
  at_AgentID :: string
  at_UserID :: string
  at_SessionID :: string
  at_LocalAddress :: string

definition zero_tunnel :: ActiveTunnel where
  "zero_tunnel = \<lparr>at_ID = [], at_Subdomain = [], at_AgentID = [], at_UserID = [],
     at_SessionID = [], at_LocalAddress = []\<rparr>"

record TrafficMetrics =
  tm_RequestsTotal :: u64
  tm_RequestBytes :: u64
  tm_ResponseBytes :: u64

definition zero_metrics :: TrafficMetrics where
  "zero_metrics = \<lparr>tm_RequestsTotal = 0, tm_RequestBytes = 0, tm_ResponseBytes = 0\<rparr>"

record Registry =
  reg_bySubdomain :: "(string, ActiveTunnel) gomap"
  reg_byID :: "(string, string) gomap"
  reg_traffic :: TrafficMetrics
  reg_perUser :: "(string, TrafficMetrics) gomap"

definition NewRegistry :: Registry where
  "NewRegistry = \<lparr>reg_bySubdomain = [], reg_byID = [], reg_traffic = zero_metrics, reg_perUser = []\<rparr>"

section \<open>Operations\<close>

definition registry_Open :: "ActiveTunnel \<Rightarrow> Registry \<Rightarrow> Registry" where
  "registry_Open tunnel r =
     r\<lparr>reg_bySubdomain := map_put (at_Subdomain tunnel) tunnel (reg_bySubdomain r),
       reg_byID := map_put (at_ID tunnel) (at_Subdomain tunnel) (reg_byID r)\<rparr>"

definition registry_Get :: "string \<Rightarrow> Registry \<Rightarrow> ActiveTunnel option" where
  "registry_Get subdomain r = map_of (reg_bySubdomain r) subdomain"

definition registry_Close :: "string \<Rightarrow> Registry \<Rightarrow> bool \<times> Registry" where
  "registry_Close i r =
     (case map_of (reg_byID r) i of
        None \<Rightarrow> (False, r)
      | Some subdomain \<Rightarrow>
          (True, r\<lparr>reg_byID := map_del i (reg_byID r),
                   reg_bySubdomain := map_del subdomain (reg_bySubdomain r)\<rparr>))"

text \<open>A missing map entry reads as the zero value, here a tunnel with empty fields.\<close>

definition tunnel_at :: "Registry \<Rightarrow> string \<Rightarrow> ActiveTunnel" where
  "tunnel_at r subdomain =
     (case map_of (reg_bySubdomain r) subdomain of Some t \<Rightarrow> t | None \<Rightarrow> zero_tunnel)"

definition closeSession_entry :: "string \<Rightarrow> string \<times> string \<Rightarrow> Registry \<Rightarrow> Registry" where
  "closeSession_entry sessionID = (\<lambda>(i, subdomain) r.
     if at_SessionID (tunnel_at r subdomain) = sessionID
     then r\<lparr>reg_byID := map_del i (reg_byID r),
            reg_bySubdomain := map_del subdomain (reg_bySubdomain r)\<rparr>
     else r)"

definition registry_CloseSession ::
    "(string \<times> string) list \<Rightarrow> string \<Rightarrow> Registry \<Rightarrow> Registry" where
  "registry_CloseSession order sessionID r = fold (closeSession_entry sessionID) order r"

definition registry_Count :: "Registry \<Rightarrow> nat" where
  "registry_Count r = length (reg_byID r)"

definition count_request :: "int \<Rightarrow> int \<Rightarrow> TrafficMetrics \<Rightarrow> TrafficMetrics" where
  "count_request requestBytes responseBytes d =
     (let d = d\<lparr>tm_RequestsTotal := tm_RequestsTotal d + 1\<rparr>;
          d = (if requestBytes > 0
               then d\<lparr>tm_RequestBytes := tm_RequestBytes d + word_of_int requestBytes\<rparr> else d)
      in if responseBytes > 0
         then d\<lparr>tm_ResponseBytes := tm_ResponseBytes d + word_of_int responseBytes\<rparr> else d)"

definition user_delta :: "(string, TrafficMetrics) gomap \<Rightarrow> string \<Rightarrow> TrafficMetrics" where
  "user_delta m userID = (case map_of m userID of Some d \<Rightarrow> d | None \<Rightarrow> zero_metrics)"

definition registry_RecordTraffic :: "string \<Rightarrow> int \<Rightarrow> int \<Rightarrow> Registry \<Rightarrow> Registry" where
  "registry_RecordTraffic tunnelID requestBytes responseBytes r =
     (case map_of (reg_byID r) tunnelID of
        None \<Rightarrow> r
      | Some subdomain \<Rightarrow>
          (let r = r\<lparr>reg_traffic := count_request requestBytes responseBytes (reg_traffic r)\<rparr>;
               userID = at_UserID (tunnel_at r subdomain)
           in if userID \<noteq> []
              then r\<lparr>reg_perUser := map_put userID
                       (count_request requestBytes responseBytes (user_delta (reg_perUser r) userID))
                       (reg_perUser r)\<rparr>
              else r))"

definition registry_TrafficMetrics :: "Registry \<Rightarrow> TrafficMetrics" where
  "registry_TrafficMetrics r = reg_traffic r"

definition registry_DrainUserDeltas ::
    "Registry \<Rightarrow> (string, TrafficMetrics) gomap \<times> Registry" where
  "registry_DrainUserDeltas r = (reg_perUser r, r\<lparr>reg_perUser := []\<rparr>)"

text \<open>
  A history of calls: the registry and the per-user deltas handed out so far, newest
  first. The order \<open>CloseSession\<close> ranges in is chosen per call.
\<close>

datatype registry_op =
    Open_op ActiveTunnel
  | Close_op string
  | CloseSession_op string
  | RecordTraffic_op string int int
  | Drain_op

type_synonym registry_run = "Registry \<times> (string, TrafficMetrics) gomap list"

fun registry_step ::
    "((string \<times> string) list \<Rightarrow> (string \<times> string) list) \<Rightarrow> registry_op \<Rightarrow> registry_run \<Rightarrow> registry_run" where
  "registry_step ord (Open_op t) (r, ds) = (registry_Open t r, ds)"
| "registry_step ord (Close_op i) (r, ds) = (snd (registry_Close i r), ds)"
| "registry_step ord (CloseSession_op s) (r, ds) =
     (registry_CloseSession (ord (reg_byID r)) s r, ds)"
| "registry_step ord (RecordTraffic_op i a b) (r, ds) = (registry_RecordTraffic i a b r, ds)"
| "registry_step ord Drain_op (r, ds) =
     (snd (registry_DrainUserDeltas r), fst (registry_DrainUserDeltas r) # ds)"

section \<open>Specification\<close>

text \<open>The open tunnels as one map from tunnel ids.\<close>

type_synonym open_tunnels = "string \<Rightarrow> ActiveTunnel option"

fun tunnels_step :: "registry_op \<Rightarrow> open_tunnels \<Rightarrow> open_tunnels" where
  "tunnels_step (Open_op t) m = m(at_ID t \<mapsto> t)"
| "tunnels_step (Close_op i) m = m(i := None)"
| "tunnels_step (CloseSession_op s) m =
     (\<lambda>i. case m i of None \<Rightarrow> None | Some t \<Rightarrow> if at_SessionID t = s then None else Some t)"
| "tunnels_step (RecordTraffic_op i a b) m = m"
| "tunnels_step Drain_op m = m"

text \<open>Neither the id nor the subdomain of a tunnel that is opened is in use.\<close>

fun op_fresh :: "open_tunnels \<Rightarrow> registry_op \<Rightarrow> bool" where
  "op_fresh m (Open_op t) \<longleftrightarrow> m (at_ID t) = None
     \<and> (\<forall>t' \<in> ran m. at_Subdomain t' \<noteq> at_Subdomain t)"
| "op_fresh m _ \<longleftrightarrow> True"

text \<open>The requests that are counted, each with the user it is counted for.\<close>

definition one_request :: "int \<Rightarrow> int \<Rightarrow> TrafficMetrics" where
  "one_request a b = count_request a b zero_metrics"

fun tunnels_records :: "open_tunnels \<Rightarrow> registry_op list \<Rightarrow> (string \<times> TrafficMetrics) list" where
  "tunnels_records m [] = []"
| "tunnels_records m (p # ps) =
     (case p of
        RecordTraffic_op i a b \<Rightarrow>
          (case m i of None \<Rightarrow> [] | Some t \<Rightarrow> [(at_UserID t, one_request a b)])
      | _ \<Rightarrow> []) @ tunnels_records (tunnels_step p m) ps"

text \<open>The tunnels a history of calls opens.\<close>

fun opened :: "registry_op list \<Rightarrow> ActiveTunnel list" where
  "opened [] = []"
| "opened (Open_op t # ps) = t # opened ps"
| "opened (_ # ps) = opened ps"

section \<open>The contract of the routing table\<close>

fun fresh_run :: "open_tunnels \<Rightarrow> registry_op list \<Rightarrow> bool" where
  "fresh_run m [] \<longleftrightarrow> True"
| "fresh_run m (p # ps) \<longleftrightarrow> op_fresh m p \<and> fresh_run (tunnels_step p m) ps"

lemma tunnels_step_ran: "ran (tunnels_step p m) \<subseteq> ran m \<union> set (opened [p])"
  by (cases p) (auto simp: ran_def split: option.splits if_splits)

lemma opened_Cons: "opened (p # ps) = opened [p] @ opened ps"
  by (cases p) auto

lemma distinct_fresh_run:
  assumes "distinct (map at_ID (opened ps))" "distinct (map at_Subdomain (opened ps))"
    and "\<forall>t \<in> set (opened ps). m (at_ID t) = None
           \<and> (\<forall>t' \<in> ran m. at_Subdomain t' \<noteq> at_Subdomain t)"
  shows "fresh_run m ps"
  using assms
proof (induction ps arbitrary: m)
  case (Cons p ps)
  have "op_fresh m p"
    using Cons.prems(3) by (cases p) auto
  moreover have "fresh_run (tunnels_step p m) ps"
  proof (rule Cons.IH)
    show "distinct (map at_ID (opened ps))" "distinct (map at_Subdomain (opened ps))"
      using Cons.prems(1,2) by (simp_all add: opened_Cons [of p ps])
    have "tunnels_step p m (at_ID t) = None" if t: "t \<in> set (opened ps)" for t
      using Cons.prems(1,3) t by (cases p) (auto simp: image_iff)
    moreover have "at_Subdomain t' \<noteq> at_Subdomain t"
      if "t \<in> set (opened ps)" "t' \<in> ran (tunnels_step p m)" for t t'
    proof -
      from that(2) tunnels_step_ran [of p m] have "t' \<in> ran m \<or> t' \<in> set (opened [p])"
        by blast
      then show ?thesis
        using that(1) Cons.prems(2,3) by (cases p) (auto simp: image_iff)
    qed
    ultimately show "\<forall>t \<in> set (opened ps). tunnels_step p m (at_ID t) = None
        \<and> (\<forall>t' \<in> ran (tunnels_step p m). at_Subdomain t' \<noteq> at_Subdomain t)"
      by blast
  qed
  ultimately show ?case by simp
qed simp

locale route_table =
  fixes step :: "registry_op \<Rightarrow> 'r \<Rightarrow> 'r"
    and get :: "'r \<Rightarrow> string \<Rightarrow> ActiveTunnel option"
    and tunnels :: "'r \<Rightarrow> open_tunnels"
    and wf :: "'r \<Rightarrow> bool"
  assumes step_tunnels:
      "wf r \<Longrightarrow> op_fresh (tunnels r) p \<Longrightarrow>
         wf (step p r) \<and> tunnels (step p r) = tunnels_step p (tunnels r)"
    and get_iff: "wf r \<Longrightarrow>
         get r s = Some t \<longleftrightarrow> at_Subdomain t = s \<and> tunnels r (at_ID t) = Some t"
begin

lemma run_tunnels:
  "wf r \<Longrightarrow> fresh_run (tunnels r) ps \<Longrightarrow>
     wf (fold step ps r) \<and> tunnels (fold step ps r) = fold tunnels_step ps (tunnels r)"
proof (induction ps arbitrary: r)
  case (Cons p ps)
  with step_tunnels [of r p] show ?case by auto
qed simp

text \<open>What a lookup returns after any history of calls.\<close>

lemma run_get:
  assumes "wf r" "fresh_run (tunnels r) ps"
  shows "get (fold step ps r) s = Some t \<longleftrightarrow>
    at_Subdomain t = s \<and> fold tunnels_step ps (tunnels r) (at_ID t) = Some t"
  using run_tunnels [OF assms] by (simp add: get_iff)

text \<open>After its session is closed, no tunnel of the session is routed to.\<close>

lemma closed_session_unrouted:
  assumes "wf r"
  shows "get (step (CloseSession_op s) r) sub = Some t \<longleftrightarrow> at_SessionID t \<noteq> s \<and> get r sub = Some t"
proof -
  have "wf (step (CloseSession_op s) r)"
    "tunnels (step (CloseSession_op s) r) = tunnels_step (CloseSession_op s) (tunnels r)"
    using step_tunnels [OF assms(1), of "CloseSession_op s"] by auto
  with assms show ?thesis
    by (auto simp: get_iff split: option.splits if_splits)
qed

end

section \<open>The registry keeps the contract\<close>

definition registry_tunnels :: "Registry \<Rightarrow> open_tunnels" where
  "registry_tunnels r = map_of (reg_bySubdomain r) \<circ>\<^sub>m map_of (reg_byID r)"

definition registry_wf :: "Registry \<Rightarrow> bool" where
  "registry_wf r \<longleftrightarrow> wf_map (reg_bySubdomain r) \<and> wf_map (reg_byID r) \<and> wf_map (reg_perUser r)
     \<and> (\<forall>i s. map_of (reg_byID r) i = Some s \<longrightarrow>
          (\<exists>t. map_of (reg_bySubdomain r) s = Some t \<and> at_ID t = i))
     \<and> (\<forall>s t. map_of (reg_bySubdomain r) s = Some t \<longrightarrow>
          at_Subdomain t = s \<and> map_of (reg_byID r) (at_ID t) = Some s)"

lemma registry_wfI:
  assumes "wf_map (reg_bySubdomain r)" "wf_map (reg_byID r)" "wf_map (reg_perUser r)"
    and "\<And>i s. map_of (reg_byID r) i = Some s \<Longrightarrow>
          \<exists>t. map_of (reg_bySubdomain r) s = Some t \<and> at_ID t = i"
    and "\<And>s t. map_of (reg_bySubdomain r) s = Some t \<Longrightarrow>
          at_Subdomain t = s \<and> map_of (reg_byID r) (at_ID t) = Some s"
  shows "registry_wf r"
  using assms by (simp add: registry_wf_def)

lemma registry_wf_maps:
  "registry_wf r \<Longrightarrow> wf_map (reg_bySubdomain r)"
  "registry_wf r \<Longrightarrow> wf_map (reg_byID r)"
  "registry_wf r \<Longrightarrow> wf_map (reg_perUser r)"
  by (simp_all add: registry_wf_def)

lemma registry_wf_byID:
  assumes "registry_wf r" "map_of (reg_byID r) i = Some s"
  obtains t where "map_of (reg_bySubdomain r) s = Some t" "at_ID t = i" "at_Subdomain t = s"
proof -
  obtain t where "map_of (reg_bySubdomain r) s = Some t" "at_ID t = i"
    using assms unfolding registry_wf_def by blast
  then show thesis
    using assms(1) that unfolding registry_wf_def by blast
qed

lemma registry_wf_bySubdomain:
  "registry_wf r \<Longrightarrow> map_of (reg_bySubdomain r) s = Some t \<Longrightarrow>
     at_Subdomain t = s \<and> map_of (reg_byID r) (at_ID t) = Some s"
  unfolding registry_wf_def by blast

lemma registry_tunnels_iff:
  "registry_tunnels r i = Some t \<longleftrightarrow>
     (\<exists>s. map_of (reg_byID r) i = Some s \<and> map_of (reg_bySubdomain r) s = Some t)"
  by (auto simp: registry_tunnels_def map_comp_Some_iff)

lemma registry_tunnels_None:
  "registry_wf r \<Longrightarrow> registry_tunnels r i = None \<longleftrightarrow> map_of (reg_byID r) i = None"
  by (auto simp: registry_tunnels_def map_comp_def elim: registry_wf_byID split: option.splits)

lemma registry_tunnels_ID: "registry_wf r \<Longrightarrow> registry_tunnels r i = Some t \<Longrightarrow> at_ID t = i"
  by (auto simp: registry_tunnels_iff elim: registry_wf_byID)

lemma registry_Get_iff:
  "registry_wf r \<Longrightarrow> registry_Get s r = Some t \<longleftrightarrow>
     at_Subdomain t = s \<and> registry_tunnels r (at_ID t) = Some t"
  by (auto simp: registry_tunnels_iff registry_Get_def
      dest: registry_wf_bySubdomain elim: registry_wf_byID)

text \<open>
  Opening a tunnel whose id and subdomain are both in use by one tunnel, or neither by any. The
  first is a tunnel that is opened again, perhaps by another session: it takes over the route.
\<close>

lemma registry_Open_fits:
  assumes "registry_wf r"
    and "\<And>t'. t' \<in> ran (registry_tunnels r) \<Longrightarrow> at_ID t' = at_ID t \<longleftrightarrow> at_Subdomain t' = at_Subdomain t"
  shows "registry_wf (registry_Open t r)"
    and "registry_tunnels (registry_Open t r) = (registry_tunnels r)(at_ID t \<mapsto> t)"
proof -
  have fits: "i = at_ID t \<longleftrightarrow> s = at_Subdomain t" if byID: "map_of (reg_byID r) i = Some s" for i s
  proof -
    obtain t' where t': "map_of (reg_bySubdomain r) s = Some t'" "at_ID t' = i" "at_Subdomain t' = s"
      using assms(1) byID by (rule registry_wf_byID)
    then have "t' \<in> ran (registry_tunnels r)"
      using byID by (auto simp: ran_def registry_tunnels_iff)
    from assms(2) [OF this] t' show ?thesis by simp
  qed
  show "registry_wf (registry_Open t r)"
  proof (rule registry_wfI)
    fix i s assume "map_of (reg_byID (registry_Open t r)) i = Some s"
    then show "\<exists>t'. map_of (reg_bySubdomain (registry_Open t r)) s = Some t' \<and> at_ID t' = i"
      using fits [of i s] by (auto simp: registry_Open_def elim: registry_wf_byID [OF assms(1)] split: if_splits)
  next
    fix s t' assume "map_of (reg_bySubdomain (registry_Open t r)) s = Some t'"
    then show "at_Subdomain t' = s \<and> map_of (reg_byID (registry_Open t r)) (at_ID t') = Some s"
      using fits [of "at_ID t'" s] registry_wf_bySubdomain [OF assms(1), of s t']
      by (auto simp: registry_Open_def split: if_splits)
  qed (use registry_wf_maps [OF assms(1)] in \<open>simp_all add: registry_Open_def\<close>)
  show "registry_tunnels (registry_Open t r) = (registry_tunnels r)(at_ID t \<mapsto> t)"
    using fits
    by (auto simp: fun_eq_iff registry_tunnels_def registry_Open_def map_comp_def
        split: option.splits)
qed

lemma registry_Open_wf:
  assumes "registry_wf r" and "op_fresh (registry_tunnels r) (Open_op t)"
  shows "registry_wf (registry_Open t r)"
    and "registry_tunnels (registry_Open t r) = (registry_tunnels r)(at_ID t \<mapsto> t)"
proof -
  have fits: "at_ID t' = at_ID t \<longleftrightarrow> at_Subdomain t' = at_Subdomain t" if "t' \<in> ran (registry_tunnels r)" for t'
    using that assms registry_tunnels_ID [OF assms(1), of _ t'] by (force simp: ran_def)
  show "registry_wf (registry_Open t r)"
    and "registry_tunnels (registry_Open t r) = (registry_tunnels r)(at_ID t \<mapsto> t)"
    using registry_Open_fits [OF assms(1) fits] by simp_all
qed

lemma registry_Close_wf:
  assumes "registry_wf r"
  shows "registry_wf (snd (registry_Close i r))"
    and "registry_tunnels (snd (registry_Close i r)) = (registry_tunnels r)(i := None)"
    and "fst (registry_Close i r) \<longleftrightarrow> registry_tunnels r i \<noteq> None"
proof -
  have only: "map_of (reg_byID r) j = Some s \<Longrightarrow> map_of (reg_byID r) i = Some s \<Longrightarrow> j = i" for j s
    using assms by (metis option.inject registry_wf_byID)
  show "registry_wf (snd (registry_Close i r))"
  proof (cases "map_of (reg_byID r) i")
    case (Some s)
    have "map_of (reg_bySubdomain r) s' = Some t \<Longrightarrow> s' \<noteq> s \<Longrightarrow> at_ID t \<noteq> i" for s' t
      using assms Some by (metis option.inject registry_wf_bySubdomain)
    note other = this
    show ?thesis
    proof (rule registry_wfI)
      fix j s' assume "map_of (reg_byID (snd (registry_Close i r))) j = Some s'"
      then have "j \<noteq> i" "map_of (reg_byID r) j = Some s'"
        using Some by (auto simp: registry_Close_def split: if_splits)
      then show "\<exists>t. map_of (reg_bySubdomain (snd (registry_Close i r))) s' = Some t \<and> at_ID t = j"
        using Some only [of j s'] registry_wf_byID [OF assms, of j s']
        by (auto simp: registry_Close_def)
    next
      fix s' t assume "map_of (reg_bySubdomain (snd (registry_Close i r))) s' = Some t"
      then have "s' \<noteq> s" "map_of (reg_bySubdomain r) s' = Some t"
        using Some by (auto simp: registry_Close_def split: if_splits)
      then show "at_Subdomain t = s' \<and> map_of (reg_byID (snd (registry_Close i r))) (at_ID t) = Some s'"
        using Some other registry_wf_bySubdomain [OF assms, of s' t] by (simp add: registry_Close_def)
    qed (use Some registry_wf_maps [OF assms] in \<open>simp_all add: registry_Close_def\<close>)
  qed (use assms in \<open>simp add: registry_Close_def\<close>)
  show "registry_tunnels (snd (registry_Close i r)) = (registry_tunnels r)(i := None)"
    using only
    by (auto simp: fun_eq_iff registry_tunnels_def registry_Close_def map_comp_def
        split: option.splits)
  show "fst (registry_Close i r) \<longleftrightarrow> registry_tunnels r i \<noteq> None"
    using registry_tunnels_None [OF assms] by (auto simp: registry_Close_def split: option.splits)
qed

text \<open>Each turn of the loop of \<open>CloseSession\<close> is a \<open>Close\<close> or does nothing.\<close>

lemma closeSession_entry_Close:
  assumes "registry_wf r" "map_of (reg_byID r) i = Some s"
  shows "closeSession_entry sid (i, s) r =
    (case registry_tunnels r i of
       Some t \<Rightarrow> if at_SessionID t = sid then snd (registry_Close i r) else r | None \<Rightarrow> r)"
proof -
  obtain t where "map_of (reg_bySubdomain r) s = Some t"
    using assms by (rule registry_wf_byID)
  then show ?thesis
    using assms(2) by (simp add: closeSession_entry_def tunnel_at_def registry_tunnels_def
        registry_Close_def map_comp_def)
qed

lemma registry_CloseSession_wf:
  assumes "registry_wf r" "distinct (map fst ord)"
    and "\<forall>(i, s) \<in> set ord. map_of (reg_byID r) i = Some s"
  shows "registry_wf (registry_CloseSession ord sid r)
    \<and> registry_tunnels (registry_CloseSession ord sid r) =
      (\<lambda>i. case registry_tunnels r i of None \<Rightarrow> None
         | Some t \<Rightarrow> if i \<in> fst ` set ord \<and> at_SessionID t = sid then None else Some t)"
  using assms
proof (induction ord arbitrary: r)
  case Nil
  then show ?case
    by (auto simp: registry_CloseSession_def fun_eq_iff split: option.splits)
next
  case (Cons e ord)
  obtain i s where e: "e = (i, s)" by (cases e)
  let ?r = "closeSession_entry sid (i, s) r"
  have i_s: "map_of (reg_byID r) i = Some s"
    using Cons.prems(3) e by simp
  then obtain t where t: "registry_tunnels r i = Some t"
    using registry_tunnels_None [OF Cons.prems(1), of i] by auto
  note entry = closeSession_entry_Close [OF Cons.prems(1) i_s]
  have wf: "registry_wf ?r"
    using registry_Close_wf(1) [OF Cons.prems(1)] Cons.prems(1) by (simp add: entry t)
  have tun: "registry_tunnels ?r =
      (if at_SessionID t = sid then (registry_tunnels r)(i := None) else registry_tunnels r)"
    using registry_Close_wf(2) [OF Cons.prems(1)] by (simp add: entry t)
  have rest: "\<forall>(j, s') \<in> set ord. map_of (reg_byID ?r) j = Some s'"
    using Cons.prems(2,3) i_s
    by (fastforce simp: entry t e registry_Close_def image_iff split: option.splits)
  have "registry_CloseSession (e # ord) sid r = registry_CloseSession ord sid ?r"
    by (simp add: registry_CloseSession_def e)
  then show ?case
    using Cons.IH [OF wf _ rest] Cons.prems(2) t
    by (auto simp: e tun fun_eq_iff split: option.splits)
qed

lemma registry_wf_New [simp]: "registry_wf NewRegistry" "registry_tunnels NewRegistry = Map.empty"
  by (auto simp: registry_wf_def NewRegistry_def registry_tunnels_def)

lemma registry_wf_traffic:
  "registry_wf r \<Longrightarrow> registry_wf (registry_RecordTraffic i a b r)"
  "registry_tunnels (registry_RecordTraffic i a b r) = registry_tunnels r"
  "registry_wf r \<Longrightarrow> registry_wf (snd (registry_DrainUserDeltas r))"
  "registry_tunnels (snd (registry_DrainUserDeltas r)) = registry_tunnels r"
  by (auto simp: registry_wf_def registry_tunnels_def registry_RecordTraffic_def
      registry_DrainUserDeltas_def Let_def split: option.splits)

lemma registry_contract:
  assumes "\<And>m. mset (ord m) = mset m"
  shows "route_table (registry_step ord) (\<lambda>(r, ds) s. registry_Get s r)
           (\<lambda>(r, ds). registry_tunnels r) (\<lambda>(r, ds). registry_wf r)"
proof
  fix p :: registry_op and rd :: registry_run
  obtain r ds where rd: "rd = (r, ds)" by (cases rd)
  assume "case rd of (r, ds) \<Rightarrow> registry_wf r"
    and "op_fresh (case rd of (r, ds) \<Rightarrow> registry_tunnels r) p"
  then have wf: "registry_wf r" and fresh: "op_fresh (registry_tunnels r) p"
    by (simp_all add: rd)
  show "(case registry_step ord p rd of (r, ds) \<Rightarrow> registry_wf r)
      \<and> (case registry_step ord p rd of (r, ds) \<Rightarrow> registry_tunnels r)
        = tunnels_step p (case rd of (r, ds) \<Rightarrow> registry_tunnels r)"
  proof (cases p)
    case (CloseSession_op s)
    have "distinct (map fst (ord (reg_byID r)))"
      using assms [of "reg_byID r"] registry_wf_maps(2) [OF wf]
      by (metis mset_eq_imp_distinct_iff mset_map wf_map_def)
    moreover have "set (ord (reg_byID r)) = set (reg_byID r)"
      using assms by (rule mset_eq_setD)
    moreover have "registry_tunnels r i = Some t \<Longrightarrow> i \<in> fst ` set (reg_byID r)" for i t
      by (force simp: registry_tunnels_iff dest: map_of_SomeD)
    moreover have "\<forall>(i, s) \<in> set (reg_byID r). map_of (reg_byID r) i = Some s"
      using registry_wf_maps(2) [OF wf] by (auto intro: map_of_SomeI)
    ultimately show ?thesis
      using registry_CloseSession_wf [OF wf, of "ord (reg_byID r)" s]
      by (simp add: rd CloseSession_op) (auto simp: fun_eq_iff split: option.splits)
  qed (use registry_Open_wf [OF wf] registry_Close_wf [OF wf] registry_wf_traffic wf fresh
      in \<open>auto simp: rd\<close>)
qed (auto simp: registry_Get_iff)

text \<open>Ranging over the map in the order of the list is one instance.\<close>

interpretation registry: route_table "registry_step (\<lambda>m. m)" "\<lambda>(r, ds) s. registry_Get s r"
    "\<lambda>(r, ds). registry_tunnels r" "\<lambda>(r, ds). registry_wf r"
  by (rule registry_contract) simp

section \<open>Traffic accounts\<close>

text \<open>Counters add up componentwise; 64-bit addition wraps in every component.\<close>

instantiation unit :: comm_monoid_add
begin

definition zero_unit :: unit where "zero_unit = ()"
definition plus_unit :: "unit \<Rightarrow> unit \<Rightarrow> unit" where "plus_unit a b = ()"

instance
  by standard simp_all

end

instantiation TrafficMetrics_ext :: (comm_monoid_add) comm_monoid_add
begin

definition zero_TrafficMetrics_ext :: "'a TrafficMetrics_ext" where
  "zero_TrafficMetrics_ext = \<lparr>tm_RequestsTotal = 0, tm_RequestBytes = 0, tm_ResponseBytes = 0, \<dots> = 0\<rparr>"

definition plus_TrafficMetrics_ext ::
    "'a TrafficMetrics_ext \<Rightarrow> 'a TrafficMetrics_ext \<Rightarrow> 'a TrafficMetrics_ext" where
  "plus_TrafficMetrics_ext a b =
     \<lparr>tm_RequestsTotal = tm_RequestsTotal a + tm_RequestsTotal b,
      tm_RequestBytes = tm_RequestBytes a + tm_RequestBytes b,
      tm_ResponseBytes = tm_ResponseBytes a + tm_ResponseBytes b,
      \<dots> = TrafficMetrics.more a + TrafficMetrics.more b\<rparr>"

instance
  by standard (simp_all add: zero_TrafficMetrics_ext_def plus_TrafficMetrics_ext_def add_ac)

end

lemma zero_metrics_eq: "zero_metrics = 0"
  by (simp add: zero_metrics_def zero_TrafficMetrics_ext_def zero_unit_def)

lemma count_request_eq: "count_request a b d = d + one_request a b"
  by (simp add: one_request_def count_request_def zero_metrics_def plus_TrafficMetrics_ext_def Let_def)

lemma user_delta_simps [simp]:
  "user_delta [] u = 0"
  "user_delta (map_put v d m) u = (if u = v then d else user_delta m u)"
  by (simp_all add: user_delta_def zero_metrics_eq)

definition user_total :: "(string, TrafficMetrics) gomap list \<Rightarrow> string \<Rightarrow> TrafficMetrics" where
  "user_total ds u = sum_list (map (\<lambda>m. user_delta m u) ds)"

lemma RecordTraffic_counts:
  assumes "registry_wf r"
  shows "reg_traffic (registry_RecordTraffic i a b r) =
           (case registry_tunnels r i of None \<Rightarrow> reg_traffic r
            | Some t \<Rightarrow> reg_traffic r + one_request a b)"
    and "u \<noteq> [] \<Longrightarrow> user_delta (reg_perUser (registry_RecordTraffic i a b r)) u =
           (case registry_tunnels r i of None \<Rightarrow> user_delta (reg_perUser r) u
            | Some t \<Rightarrow> if at_UserID t = u then user_delta (reg_perUser r) u + one_request a b
                       else user_delta (reg_perUser r) u)"
proof -
  show "reg_traffic (registry_RecordTraffic i a b r) =
      (case registry_tunnels r i of None \<Rightarrow> reg_traffic r
       | Some t \<Rightarrow> reg_traffic r + one_request a b)"
    using registry_tunnels_None [OF assms, of i]
    by (auto simp: registry_RecordTraffic_def count_request_eq Let_def split: option.splits)
  have "at_UserID (tunnel_at r s) = at_UserID t"
    if "map_of (reg_byID r) i = Some s" "registry_tunnels r i = Some t" for s t
    using that by (auto simp: tunnel_at_def registry_tunnels_iff)
  moreover have "tunnel_at (r\<lparr>reg_traffic := d\<rparr>) s = tunnel_at r s" for d s
    by (simp add: tunnel_at_def)
  ultimately show "user_delta (reg_perUser (registry_RecordTraffic i a b r)) u =
      (case registry_tunnels r i of None \<Rightarrow> user_delta (reg_perUser r) u
       | Some t \<Rightarrow> if at_UserID t = u then user_delta (reg_perUser r) u + one_request a b
                  else user_delta (reg_perUser r) u)" if "u \<noteq> []"
    using registry_tunnels_None [OF assms, of i] that
    by (auto simp: registry_RecordTraffic_def count_request_eq Let_def split: option.splits)
qed

lemma tunnels_records_Cons:
  "tunnels_records m (p # ps) = tunnels_records m [p] @ tunnels_records (tunnels_step p m) ps"
  by simp

lemma registry_step_traffic:
  assumes "registry_wf r" and "registry_step ord p (r, ds) = (r', ds')"
  shows "reg_traffic r' = reg_traffic r + sum_list (map snd (tunnels_records (registry_tunnels r) [p]))"
    and "u \<noteq> [] \<Longrightarrow> user_total ds' u + user_delta (reg_perUser r') u =
      user_total ds u + user_delta (reg_perUser r) u
        + sum_list (map snd (filter (\<lambda>(v, d). v = u) (tunnels_records (registry_tunnels r) [p])))"
proof -
  have close: "reg_traffic (snd (registry_Close i r)) = reg_traffic r"
    "reg_perUser (snd (registry_Close i r)) = reg_perUser r" for i r
    by (simp_all add: registry_Close_def split: option.splits)
  have session: "reg_traffic (registry_CloseSession order s r) = reg_traffic r
      \<and> reg_perUser (registry_CloseSession order s r) = reg_perUser r" for order s r
    unfolding registry_CloseSession_def
    by (induction order arbitrary: r) (auto simp: closeSession_entry_def)
  show "reg_traffic r' = reg_traffic r + sum_list (map snd (tunnels_records (registry_tunnels r) [p]))"
    using assms(2) RecordTraffic_counts(1) [OF assms(1)] close session
    by (cases p) (auto simp: registry_Open_def registry_DrainUserDeltas_def split: option.splits)
  show "user_total ds' u + user_delta (reg_perUser r') u =
      user_total ds u + user_delta (reg_perUser r) u
        + sum_list (map snd (filter (\<lambda>(v, d). v = u) (tunnels_records (registry_tunnels r) [p])))"
    if "u \<noteq> []"
    using assms(2) RecordTraffic_counts(2) [OF assms(1) that] close session
    by (cases p) (auto simp: registry_Open_def registry_DrainUserDeltas_def user_total_def add_ac
        split: option.splits)
qed

lemma registry_run_traffic:
  assumes "\<And>m. mset (ord m) = mset m" and "registry_wf r" "fresh_run (registry_tunnels r) ps"
    and "fold (registry_step ord) ps (r, ds) = (r', ds')"
  shows "reg_traffic r' = reg_traffic r + sum_list (map snd (tunnels_records (registry_tunnels r) ps))
    \<and> (u \<noteq> [] \<longrightarrow> user_total ds' u + user_delta (reg_perUser r') u =
      user_total ds u + user_delta (reg_perUser r) u
        + sum_list (map snd (filter (\<lambda>(v, d). v = u) (tunnels_records (registry_tunnels r) ps))))"
  using assms(2-)
proof (induction ps arbitrary: r ds)
  case (Cons p ps)
  obtain r1 ds1 where st: "registry_step ord p (r, ds) = (r1, ds1)"
    by fastforce
  have wf: "registry_wf r1" and tun: "registry_tunnels r1 = tunnels_step p (registry_tunnels r)"
    using route_table.step_tunnels [OF registry_contract [OF assms(1)], where r = "(r, ds)" and p = p]
      Cons.prems by (auto simp: st)
  have "fold (registry_step ord) ps (r1, ds1) = (r', ds')" "fresh_run (registry_tunnels r1) ps"
    using Cons.prems st tun by simp_all
  note ih = Cons.IH [OF wf this(2,1)]
  note one = registry_step_traffic [OF Cons.prems(1) st]
  show ?case
    unfolding tunnels_records_Cons [of _ p ps] tun [symmetric] filter_append map_append
      sum_list.append
    using ih one(1) one(2) [of u] by (cases "u = []") (simp_all only: add.assoc [symmetric] simp_thms)
qed simp

lemma registry_Count_card:
  assumes "registry_wf r" shows "registry_Count r = card (dom (registry_tunnels r))"
proof -
  have "dom (registry_tunnels r) = fst ` set (reg_byID r)"
    using registry_tunnels_None [OF assms] by (metis (mono_tags, lifting) dom_def dom_map_of_conv_image_fst Collect_cong)
  moreover have "distinct (map fst (reg_byID r))"
    using registry_wf_maps(2) [OF assms] by (simp add: wf_map_def)
  ultimately show ?thesis
    by (simp add: registry_Count_def distinct_card [of "map fst (reg_byID r)", simplified])
qed

section \<open>Properties\<close>


definition example_tunnel :: "string \<Rightarrow> string \<Rightarrow> string \<Rightarrow> string \<Rightarrow> ActiveTunnel" where
  "example_tunnel i sub user session = \<lparr>at_ID = i, at_Subdomain = sub, at_AgentID = ''agent'',
     at_UserID = user, at_SessionID = session, at_LocalAddress = ''127.0.0.1:3000''\<rparr>"


text \<open>
  when an agent's session ends, exactly the tunnels of that session stop being routed:
  a later lookup never returns one of them, and every other lookup is unchanged.
\<close>

theorem closed_session_is_unrouted:
  assumes "registry_wf r" and "mset order = mset (reg_byID r)"
  shows "registry_Get s (registry_CloseSession order sid r) = Some t \<longleftrightarrow>
    at_SessionID t \<noteq> sid \<and> registry_Get s r = Some t"
proof -
  define ord where "ord m = (if mset m = mset order then order else m)" for m :: "(string \<times> string) list"
  have "mset (ord m) = mset m" for m
    by (simp add: ord_def)
  note route_table.closed_session_unrouted [OF registry_contract [OF this],
      where r = "(r, [])" and s = sid and sub = s and t = t]
  then show ?thesis
    using assms by (simp add: ord_def)
qed

theorem closed_session_is_unrouted_witness:
  "registry_Get ''s1'' (registry_CloseSession [(''t1'', ''s1'')] ''a''
     (registry_Open (example_tunnel ''t1'' ''s1'' ''u'' ''a'') NewRegistry)) \<noteq> Some (example_tunnel ''t1'' ''s1'' ''u'' ''a'')"
proof -
  have "registry_wf (registry_Open (example_tunnel ''t1'' ''s1'' ''u'' ''a'') NewRegistry)"
    by (intro registry_Open_wf) (auto simp: example_tunnel_def)
  then show ?thesis
    using closed_session_is_unrouted [of "registry_Open (example_tunnel ''t1'' ''s1'' ''u'' ''a'') NewRegistry"
        "[(''t1'', ''s1'')]"] by (simp add: registry_Open_def NewRegistry_def example_tunnel_def)
qed



end
