(* ===== verification/Session_Manager.thy ===== *)
theory Session_Manager
  imports Go_Prelude "HOL-Library.Multiset"
begin

text \<open>
  The gateway's table of connected agents and of public requests waiting for a response,
  \<^verbatim>\<open>backend/internal/gateway/session_manager.go\<close>. Go channels and cancel functions are
  references: the model keeps them in \<open>gateway_state\<close> beside the manager and the structs
  hold their addresses. Methods that release the mutex and then use a channel are split at
  that point, so that other calls may run in between: \<open>gs_sends\<close> are the responses whose
  sender has left the critical section and not yet sent. \<open>sm_step\<close> is the resulting state
  machine; the whole methods are the compositions of its parts. The locale \<open>mailboxes\<close>
  is what the waiting requests rely on: whoever may still answer a request is recorded, so
  each response channel is used at most once.
\<close>

section \<open>State\<close>

datatype MessageType = MessageText | MessageBinary

record OutboundMessage =
  om_Type :: MessageType
  om_Data :: "byte list"

record Session =
  ses_ID :: string
  ses_AgentID :: string
  ses_AgentTokenHash :: string
  ses_LastSeen :: int
  ses_Outbound :: "nat option"
  ses_Cancel :: "nat option"

record pendingRequest =
  pr_sessionID :: string
  pr_response :: nat

record Response =
  res_StatusCode :: int
  res_Headers :: "(string, string list) gomap"
  res_Body :: "byte list"
  res_Error :: string

record SessionManager =
  sm_sessions :: "(string, Session) gomap"
  sm_pending :: "(string, pendingRequest) gomap"
  sm_connectionsTotal :: u64
  sm_disconnectionsTotal :: u64

record gateway_state =
  gs_manager :: SessionManager
  gs_outbound :: "OutboundMessage channel list"
  gs_responses :: "Response channel list"
  gs_sends :: "(nat \<times> Response) list"
  gs_cancelled :: "nat list"

definition NewSessionManager :: SessionManager where
  "NewSessionManager = \<lparr>sm_sessions = [], sm_pending = [],
     sm_connectionsTotal = 0, sm_disconnectionsTotal = 0\<rparr>"

definition new_gateway :: gateway_state where
  "new_gateway = \<lparr>gs_manager = NewSessionManager, gs_outbound = [], gs_responses = [],
     gs_sends = [], gs_cancelled = []\<rparr>"

abbreviation gs_sessions :: "gateway_state \<Rightarrow> (string, Session) gomap" where
  "gs_sessions s \<equiv> sm_sessions (gs_manager s)"

abbreviation gs_pending :: "gateway_state \<Rightarrow> (string, pendingRequest) gomap" where
  "gs_pending s \<equiv> sm_pending (gs_manager s)"

section \<open>Sending to an agent\<close>

definition sessionOutboundQueueCapacity :: nat where "sessionOutboundQueueCapacity = 32"

definition make_outbound :: "gateway_state \<Rightarrow> nat \<times> gateway_state" where
  "make_outbound s = (length (gs_outbound s),
     s\<lparr>gs_outbound := gs_outbound s @ [make_chan sessionOutboundQueueCapacity]\<rparr>)"

text \<open>The lookup all four senders start with: the queue of a session, if it has one.\<close>

definition lookup_outbound :: "string \<Rightarrow> gateway_state \<Rightarrow> nat option" where
  "lookup_outbound i s =
     (case map_of (gs_sessions s) i of None \<Rightarrow> None | Some session \<Rightarrow> ses_Outbound session)"

definition queue_message :: "nat \<Rightarrow> OutboundMessage \<Rightarrow> gateway_state \<Rightarrow> gateway_state option" where
  "queue_message c message s =
     map_option (\<lambda>q. s\<lparr>gs_outbound := (gs_outbound s)[c := q]\<rparr>)
       (chan_send message (gs_outbound s ! c))"

definition session_Send :: "string \<Rightarrow> byte list \<Rightarrow> gateway_state \<Rightarrow> bool \<times> gateway_state" where
  "session_Send i message s =
     (case lookup_outbound i s of
        None \<Rightarrow> (False, s)
      | Some c \<Rightarrow>
          (case queue_message c \<lparr>om_Type = MessageText, om_Data = message\<rparr> s of
             Some s' \<Rightarrow> (True, s') | None \<Rightarrow> (False, s)))"

definition session_SendBinary :: "string \<Rightarrow> byte list \<Rightarrow> gateway_state \<Rightarrow> bool \<times> gateway_state" where
  "session_SendBinary i message s =
     (case lookup_outbound i s of
        None \<Rightarrow> (False, s)
      | Some c \<Rightarrow>
          (case queue_message c \<lparr>om_Type = MessageBinary, om_Data = message\<rparr> s of
             Some s' \<Rightarrow> (True, s') | None \<Rightarrow> (False, s)))"

text \<open>
  The \<open>select\<close> of \<open>sendContext\<close>: the list of its possible outcomes, empty while it blocks.
\<close>

definition sendContext_select ::
    "bool \<Rightarrow> nat \<Rightarrow> OutboundMessage \<Rightarrow> gateway_state \<Rightarrow> (bool \<times> gateway_state) list" where
  "sendContext_select done c message s =
     (case queue_message c message s of Some s' \<Rightarrow> [(True, s')] | None \<Rightarrow> [])
     @ (if done then [(False, s)] else [])"

definition sendContext ::
    "bool \<Rightarrow> string \<Rightarrow> OutboundMessage \<Rightarrow> gateway_state \<Rightarrow> (bool \<times> gateway_state) list" where
  "sendContext done i message s =
     (case lookup_outbound i s of
        None \<Rightarrow> [(False, s)]
      | Some c \<Rightarrow> sendContext_select done c message s)"

definition SendContext ::
    "bool \<Rightarrow> string \<Rightarrow> byte list \<Rightarrow> gateway_state \<Rightarrow> (bool \<times> gateway_state) list" where
  "SendContext done i message s = sendContext done i \<lparr>om_Type = MessageText, om_Data = message\<rparr> s"

definition SendBinaryContext ::
    "bool \<Rightarrow> string \<Rightarrow> byte list \<Rightarrow> gateway_state \<Rightarrow> (bool \<times> gateway_state) list" where
  "SendBinaryContext done i message s =
     sendContext done i \<lparr>om_Type = MessageBinary, om_Data = message\<rparr> s"

section \<open>Waiting requests\<close>

definition RegisterRequest :: "string \<Rightarrow> string \<Rightarrow> gateway_state \<Rightarrow> nat \<times> gateway_state" where
  "RegisterRequest sessionID i s =
     (let ch = length (gs_responses s)
      in (ch, s\<lparr>gs_responses := gs_responses s @ [make_chan 1],
               gs_manager := (gs_manager s)\<lparr>sm_pending :=
                 map_put i \<lparr>pr_sessionID = sessionID, pr_response = ch\<rparr> (gs_pending s)\<rparr>\<rparr>))"

definition session_CancelRequest :: "string \<Rightarrow> gateway_state \<Rightarrow> gateway_state" where
  "session_CancelRequest i s =
     s\<lparr>gs_manager := (gs_manager s)\<lparr>sm_pending := map_del i (gs_pending s)\<rparr>\<rparr>"

definition response_send :: "gateway_state \<Rightarrow> nat \<times> Response \<Rightarrow> gateway_state option" where
  "response_send s = (\<lambda>(ch, response).
     map_option (\<lambda>q. s\<lparr>gs_responses := (gs_responses s)[ch := q],
                        gs_sends := remove1 (ch, response) (gs_sends s)\<rparr>)
       (chan_send response (gs_responses s ! ch)))"

text \<open>The critical section of \<open>DeliverResponse\<close>; the sender then owes the response.\<close>

definition deliver_lock :: "string \<Rightarrow> Response \<Rightarrow> gateway_state \<Rightarrow> nat option \<times> gateway_state" where
  "deliver_lock i response s =
     (case map_of (gs_pending s) i of
        None \<Rightarrow> (None, s)
      | Some pending \<Rightarrow>
          (Some (pr_response pending),
           s\<lparr>gs_manager := (gs_manager s)\<lparr>sm_pending := map_del i (gs_pending s)\<rparr>,
             gs_sends := (pr_response pending, response) # gs_sends s\<rparr>))"

definition DeliverResponse :: "string \<Rightarrow> Response \<Rightarrow> gateway_state \<Rightarrow> (bool \<times> gateway_state) option" where
  "DeliverResponse i response s =
     (case deliver_lock i response s of
        (None, s') \<Rightarrow> Some (False, s')
      | (Some ch, s') \<Rightarrow> map_option (\<lambda>s''. (True, s'')) (response_send s' (ch, response)))"

section \<open>Sessions\<close>

definition session_Register :: "int \<Rightarrow> Session \<Rightarrow> gateway_state \<Rightarrow> gateway_state" where
  "session_Register now session s =
     (let session = (if ses_LastSeen session = 0 then session\<lparr>ses_LastSeen := now\<rparr> else session)
      in s\<lparr>gs_manager := (gs_manager s)\<lparr>
             sm_sessions := map_put (ses_ID session) session (gs_sessions s),
             sm_connectionsTotal := sm_connectionsTotal (gs_manager s) + 1\<rparr>\<rparr>)"

definition session_Touch :: "int \<Rightarrow> string \<Rightarrow> gateway_state \<Rightarrow> bool \<times> gateway_state" where
  "session_Touch now i s =
     (case map_of (gs_sessions s) i of
        None \<Rightarrow> (False, s)
      | Some session \<Rightarrow>
          (True, s\<lparr>gs_manager := (gs_manager s)\<lparr>
             sm_sessions := map_put i (session\<lparr>ses_LastSeen := now\<rparr>) (gs_sessions s)\<rparr>\<rparr>))"

definition disconnected :: Response where
  "disconnected = \<lparr>res_StatusCode = 0, res_Headers = [], res_Body = [],
     res_Error = ''tunnel agent disconnected''\<rparr>"

text \<open>The critical section of \<open>Remove\<close>, returning the channels collected in \<open>cancelled\<close>.\<close>

definition remove_lock :: "string \<Rightarrow> gateway_state \<Rightarrow> nat list \<times> gateway_state" where
  "remove_lock i s =
     (let m = gs_manager s;
          m = (case map_of (sm_sessions m) i of
                 None \<Rightarrow> m
               | Some _ \<Rightarrow> m\<lparr>sm_sessions := map_del i (sm_sessions m),
                             sm_disconnectionsTotal := sm_disconnectionsTotal m + 1\<rparr>);
          cancelled = map (pr_response \<circ> snd) (filter (\<lambda>(_, p). pr_sessionID p = i) (sm_pending m));
          m = m\<lparr>sm_pending := map_purge (\<lambda>_ p. pr_sessionID p = i) (sm_pending m)\<rparr>
      in (cancelled, s\<lparr>gs_manager := m,
            gs_sends := map (\<lambda>ch. (ch, disconnected)) cancelled @ gs_sends s\<rparr>))"

definition session_Remove :: "string \<Rightarrow> gateway_state \<Rightarrow> gateway_state option" where
  "session_Remove i s =
     (let (cancelled, s') = remove_lock i s
      in run_opt response_send s' (map (\<lambda>ch. (ch, disconnected)) cancelled))"

record MetricsSnapshot =
  ms_ActiveSessions :: u64
  ms_PendingRequests :: u64
  ms_ConnectionsTotal :: u64
  ms_DisconnectionsTotal :: u64

definition session_MetricsSnapshot :: "gateway_state \<Rightarrow> MetricsSnapshot" where
  "session_MetricsSnapshot s = \<lparr>ms_ActiveSessions = of_nat (length (gs_sessions s)),
     ms_PendingRequests = of_nat (length (gs_pending s)),
     ms_ConnectionsTotal = sm_connectionsTotal (gs_manager s),
     ms_DisconnectionsTotal = sm_disconnectionsTotal (gs_manager s)\<rparr>"

text \<open>Calling a cancel function; cancelling a context again changes nothing.\<close>

definition call_cancel :: "nat \<Rightarrow> gateway_state \<Rightarrow> gateway_state" where
  "call_cancel c s = s\<lparr>gs_cancelled := List.insert c (gs_cancelled s)\<rparr>"

definition CloseAll :: "gateway_state \<Rightarrow> gateway_state" where
  "CloseAll s = fold call_cancel (List.map_filter (ses_Cancel \<circ> snd) (gs_sessions s)) s"

definition DisconnectTokenHash :: "string \<Rightarrow> gateway_state \<Rightarrow> gateway_state" where
  "DisconnectTokenHash tokenHash s =
     fold call_cancel
       (List.map_filter (\<lambda>(_, session).
          if ses_AgentTokenHash session = tokenHash then ses_Cancel session else None)
        (gs_sessions s)) s"

definition session_Count :: "gateway_state \<Rightarrow> nat" where
  "session_Count s = length (gs_sessions s)"

definition session_AgentID :: "string \<Rightarrow> gateway_state \<Rightarrow> string \<times> bool" where
  "session_AgentID i s =
     (case map_of (gs_sessions s) i of Some session \<Rightarrow> (ses_AgentID session, True) | None \<Rightarrow> ([], False))"

section \<open>Interleaved calls\<close>

text \<open>
  The atomic steps of the goroutines that share the manager. \<open>Ev_Write\<close> is the session's
  own loop taking a message from its queue, \<open>Ev_Cancel\<close> its handler cancelling its own
  context at the end, \<open>Ev_ReceiveResponse\<close> a public request taking
  its response, \<open>Ev_SendContext\<close> a sender whose lookup found that queue, possibly before
  the session was removed.
\<close>

datatype sm_event =
    Ev_MakeOutbound
  | Ev_Register int Session
  | Ev_Touch int string
  | Ev_Remove string
  | Ev_RegisterRequest string string
  | Ev_CancelRequest string
  | Ev_Deliver string Response
  | Ev_SendResponse nat Response
  | Ev_ReceiveResponse nat
  | Ev_Send string "byte list"
  | Ev_SendBinary string "byte list"
  | Ev_SendContext nat OutboundMessage
  | Ev_Write nat
  | Ev_CloseAll
  | Ev_Disconnect string
  | Ev_Cancel nat

fun sm_step :: "gateway_state \<Rightarrow> sm_event \<Rightarrow> gateway_state option" where
  "sm_step s Ev_MakeOutbound = Some (snd (make_outbound s))"
| "sm_step s (Ev_Register now session) =
     (if pred_option (\<lambda>c. c < length (gs_outbound s)) (ses_Outbound session)
      then Some (session_Register now session s) else None)"
| "sm_step s (Ev_Touch now i) = Some (snd (session_Touch now i s))"
| "sm_step s (Ev_Remove i) = Some (snd (remove_lock i s))"
| "sm_step s (Ev_RegisterRequest sid i) = Some (snd (RegisterRequest sid i s))"
| "sm_step s (Ev_CancelRequest i) = Some (session_CancelRequest i s)"
| "sm_step s (Ev_Deliver i response) = Some (snd (deliver_lock i response s))"
| "sm_step s (Ev_SendResponse ch response) =
     (if (ch, response) \<in> set (gs_sends s) then response_send s (ch, response) else None)"
| "sm_step s (Ev_ReceiveResponse ch) =
     (if ch < length (gs_responses s)
      then map_option (\<lambda>(_, q). s\<lparr>gs_responses := (gs_responses s)[ch := q]\<rparr>)
             (chan_recv (gs_responses s ! ch))
      else None)"
| "sm_step s (Ev_Send i message) = Some (snd (session_Send i message s))"
| "sm_step s (Ev_SendBinary i message) = Some (snd (session_SendBinary i message s))"
| "sm_step s (Ev_SendContext c message) =
     (if c < length (gs_outbound s) then queue_message c message s else None)"
| "sm_step s (Ev_Write c) =
     (if c < length (gs_outbound s)
      then map_option (\<lambda>(_, q). s\<lparr>gs_outbound := (gs_outbound s)[c := q]\<rparr>)
             (chan_recv (gs_outbound s ! c))
      else None)"
| "sm_step s Ev_CloseAll = Some (CloseAll s)"
| "sm_step s (Ev_Disconnect h) = Some (DisconnectTokenHash h s)"
| "sm_step s (Ev_Cancel c) = Some (call_cancel c s)"

section \<open>Mailboxes\<close>

text \<open>
  A system of one-shot mailboxes: \<open>owed\<close> lists the mailboxes that somebody may still put a
  message into, once for every such somebody, and \<open>made\<close> counts the mailboxes so far.
\<close>

locale mailboxes =
  fixes step :: "'s \<Rightarrow> 'e \<Rightarrow> 's option"
    and owed :: "'s \<Rightarrow> nat multiset"
    and made :: "'s \<Rightarrow> nat"
    and puts :: "'e \<Rightarrow> nat option"
  assumes step_put: "step s e = Some s' \<Longrightarrow> puts e = Some c \<Longrightarrow>
      c \<in># owed s \<and> owed s' \<subseteq># owed s - {#c#} \<and> made s' = made s"
    and step_other: "step s e = Some s' \<Longrightarrow> puts e = None \<Longrightarrow>
      owed s' \<subseteq># owed s \<and> made s' = made s
      \<or> owed s' \<subseteq># add_mset (made s) (owed s) \<and> made s' = Suc (made s)"
begin

definition one_shot :: "'s \<Rightarrow> bool" where
  "one_shot s \<longleftrightarrow> (\<forall>c. count (owed s) c \<le> 1) \<and> (\<forall>c \<in># owed s. c < made s)"

lemma one_shot_subset:
  "owed s' \<subseteq># owed s \<Longrightarrow> made s' = made s \<Longrightarrow> one_shot s \<Longrightarrow> one_shot s'"
  unfolding one_shot_def by (metis le_trans mset_subset_eqD subseteq_mset_def)

lemma one_shot_step:
  assumes "step s e = Some s'" "one_shot s"
  shows "one_shot s'"
proof (cases "puts e")
  case (Some c)
  with step_put [OF assms(1)] have "owed s' \<subseteq># owed s" "made s' = made s"
    by (auto intro: subset_mset.order_trans)
  with assms(2) show ?thesis using one_shot_subset by blast
next
  case None
  consider "owed s' \<subseteq># owed s" "made s' = made s"
    | "owed s' \<subseteq># add_mset (made s) (owed s)" "made s' = Suc (made s)"
    using step_other [OF assms(1) None] by blast
  then show ?thesis
  proof cases
    case 1
    with assms(2) show ?thesis using one_shot_subset by blast
  next
    case 2
    have "count (owed s) (made s) = 0"
      using assms(2) by (auto simp: one_shot_def count_eq_zero_iff)
    then have "count (add_mset (made s) (owed s)) c \<le> 1" for c
      using assms(2) by (auto simp: one_shot_def)
    moreover have "\<forall>c \<in># owed s'. c < Suc (made s)"
      using 2(1) assms(2) by (fastforce simp: one_shot_def dest: mset_subset_eqD)
    ultimately show ?thesis
      using 2 by (auto simp: one_shot_def intro: order_trans simp: subseteq_mset_def)
  qed
qed

lemma step_spent:
  assumes "step s e = Some s'" "c < made s" "c \<notin># owed s"
  shows "c < made s' \<and> c \<notin># owed s' \<and> puts e \<noteq> Some c"
proof (cases "puts e")
  case (Some d)
  with step_put [OF assms(1)] assms(2,3) show ?thesis
    by (auto dest: mset_subset_eqD in_diffD)
next
  case None
  with step_other [OF assms(1)] assms(2,3) show ?thesis
    by (auto dest: mset_subset_eqD)
qed

lemma run_spent:
  "run_opt step s es = Some s' \<Longrightarrow> c < made s \<Longrightarrow> c \<notin># owed s \<Longrightarrow> Some c \<notin> puts ` set es"
proof (induction es arbitrary: s)
  case (Cons e es)
  then obtain s1 where "step s e = Some s1" "run_opt step s1 es = Some s'"
    by (auto split: option.splits)
  with Cons.IH [of s1] step_spent [of s e s1 c] Cons.prems show ?case
    by auto
qed simp

text \<open>No mailbox is filled twice.\<close>

lemma put_once:
  "run_opt step s es = Some s' \<Longrightarrow> one_shot s \<Longrightarrow> distinct (List.map_filter puts es)"
proof (induction es arbitrary: s)
  case (Cons e es)
  then obtain s1 where s1: "step s e = Some s1" "run_opt step s1 es = Some s'"
    by (auto split: option.splits)
  have rest: "distinct (List.map_filter puts es)"
    using Cons.IH [OF s1(2)] one_shot_step [OF s1(1) Cons.prems(2)] .
  show ?case
  proof (cases "puts e")
    case None
    with rest show ?thesis by (simp add: List.map_filter_simps)
  next
    case (Some c)
    note put = step_put [OF s1(1) Some]
    have "count (owed s - {#c#}) c = 0"
      using Cons.prems(2) put by (simp add: one_shot_def)
    then have "c \<notin># owed s1"
      using put by (metis count_eq_zero_iff mset_subset_eqD)
    moreover have "c < made s1"
      using Cons.prems(2) put by (simp add: one_shot_def)
    ultimately have "Some c \<notin> puts ` set es"
      using run_spent [OF s1(2)] by blast
    then have "c \<notin> set (List.map_filter puts es)"
      by (simp add: set_map_filter_iff)
    with rest Some show ?thesis by (simp add: List.map_filter_simps)
  qed
qed (simp add: List.map_filter_simps)

end

section \<open>The invariant\<close>

definition owed :: "gateway_state \<Rightarrow> nat multiset" where
  "owed s = mset (map (pr_response \<circ> snd) (gs_pending s)) + mset (map fst (gs_sends s))"

abbreviation made :: "gateway_state \<Rightarrow> nat" where
  "made s \<equiv> length (gs_responses s)"

fun puts :: "sm_event \<Rightarrow> nat option" where
  "puts (Ev_SendResponse ch response) = Some ch"
| "puts _ = None"

lemma mset_map_put_le:
  "mset (map (f \<circ> snd) (map_put k v m)) \<subseteq># add_mset (f v) (mset (map (f \<circ> snd) m))"
proof (induction m)
  case (Cons e m)
  obtain k' w where "e = (k', w)" by (cases e)
  with Cons show ?case
    by (auto simp: add_mset_commute [of _ "f w"])
qed simp

lemma mset_map_del_le: "mset (map f (map_del k m)) \<subseteq># mset (map f m)"
  by (simp add: AList.delete_eq image_mset_subseteq_mono)

lemma mset_map_del_present:
  assumes "map_of m k = Some v"
  shows "add_mset (f v) (mset (map (f \<circ> snd) (map_del k m))) \<subseteq># mset (map (f \<circ> snd) m)"
  using assms
proof (induction m)
  case (Cons e m)
  obtain k' w where e: "e = (k', w)" by (cases e)
  with Cons show ?case
    using mset_map_del_le [of "f \<circ> snd" k m]
    by (auto simp: add_mset_commute [of _ "f w"] comp_def)
qed simp

lemma owed_remove:
  "owed (snd (remove_lock i s)) = owed s"
proof -
  have "mset (map f (filter P m)) + mset (map f (filter (\<lambda>x. \<not> P x) m)) = mset (map f m)"
    for f :: "string \<times> pendingRequest \<Rightarrow> nat" and P m
    by (induction m) auto
  from this [of "pr_response \<circ> snd" "\<lambda>(_, p). pr_sessionID p = i" "gs_pending s"]
  show ?thesis
    by (auto simp: owed_def remove_lock_def Let_def map_purge_def comp_def case_prod_unfold
        add_ac split: option.splits)
qed

lemma response_send_fields:
  assumes "response_send s (ch, r) = Some s'"
  shows "gs_manager s' = gs_manager s" "gs_outbound s' = gs_outbound s"
    "gs_sends s' = remove1 (ch, r) (gs_sends s)" "made s' = made s" "gs_cancelled s' = gs_cancelled s"
  using assms by (auto simp: response_send_def)

lemma queue_message_fields:
  assumes "queue_message c m s = Some s'"
  shows "gs_manager s' = gs_manager s" "gs_sends s' = gs_sends s" "gs_responses s' = gs_responses s"
    "length (gs_outbound s') = length (gs_outbound s)" "gs_cancelled s' = gs_cancelled s"
  using assms by (auto simp: queue_message_def)

lemma fold_call_cancel:
  "gs_manager (fold call_cancel cs s) = gs_manager s"
  "gs_sends (fold call_cancel cs s) = gs_sends s"
  "gs_responses (fold call_cancel cs s) = gs_responses s"
  "gs_outbound (fold call_cancel cs s) = gs_outbound s"
  "set (gs_cancelled (fold call_cancel cs s)) = set cs \<union> set (gs_cancelled s)"
  by (induction cs arbitrary: s) (auto simp: call_cancel_def)

lemma send_fields:
  "gs_manager (snd (session_Send i m s)) = gs_manager s"
  "gs_sends (snd (session_Send i m s)) = gs_sends s"
  "gs_responses (snd (session_Send i m s)) = gs_responses s"
  "gs_manager (snd (session_SendBinary i m s)) = gs_manager s"
  "gs_sends (snd (session_SendBinary i m s)) = gs_sends s"
  "gs_responses (snd (session_SendBinary i m s)) = gs_responses s"
  by (auto simp: session_Send_def session_SendBinary_def queue_message_fields split: option.splits)

lemmas sm_step_defs = make_outbound_def session_Register_def session_Touch_def remove_lock_def
  RegisterRequest_def session_CancelRequest_def deliver_lock_def CloseAll_def DisconnectTokenHash_def
  call_cancel_def

lemma made_remove [simp]: "made (snd (remove_lock i s)) = made s"
  by (simp add: remove_lock_def Let_def)

interpretation manager: mailboxes sm_step owed made puts
proof
  fix s e s' c
  assume st: "sm_step s e = Some s'" and "puts e = Some c"
  then obtain r where e: "e = Ev_SendResponse c r"
    by (cases e) auto
  with st have r: "(c, r) \<in> set (gs_sends s)" "response_send s (c, r) = Some s'"
    by (auto split: if_splits)
  have c: "c \<in># mset (map fst (gs_sends s))"
    using r(1) by force
  have "mset (map fst (remove1 (c, r) (gs_sends s))) = mset (map fst (gs_sends s)) - {#c#}"
    using r(1) by (simp add: image_mset_Diff)
  then have "owed s' = owed s - {#c#}"
    unfolding owed_def response_send_fields [OF r(2)] diff_union_single_conv [OF c] by simp
  with c show "c \<in># owed s \<and> owed s' \<subseteq># owed s - {#c#} \<and> made s' = made s"
    by (simp add: owed_def response_send_fields(4) [OF r(2)])
next
  fix s e s'
  assume st: "sm_step s e = Some s'" and none: "puts e = None"
  show "owed s' \<subseteq># owed s \<and> made s' = made s
      \<or> owed s' \<subseteq># add_mset (made s) (owed s) \<and> made s' = Suc (made s)"
  proof (cases e)
    case (Ev_RegisterRequest sid i)
    then show ?thesis
      using st mset_map_put_le [of pr_response i "\<lparr>pr_sessionID = sid, pr_response = made s\<rparr>" "gs_pending s"]
      by (auto simp: owed_def RegisterRequest_def Let_def subset_mset.add_right_mono)
  next
    case (Ev_Deliver i r)
    then show ?thesis
      using st mset_map_del_present [of "gs_pending s" i _ pr_response]
      by (auto simp: owed_def deliver_lock_def split: option.splits)
  next
    case (Ev_CancelRequest i)
    then show ?thesis
      using st mset_map_del_le [of "pr_response \<circ> snd" i "gs_pending s"]
      by (auto simp: owed_def session_CancelRequest_def)
  next
    case (Ev_Remove i)
    then show ?thesis using st by (auto simp: owed_remove)
  next
    case (Ev_SendContext c m)
    then show ?thesis using st by (auto simp: owed_def queue_message_fields split: if_splits)
  qed (use st none in \<open>auto simp: owed_def sm_step_defs send_fields fold_call_cancel
      Let_def chan_recv_def split: option.splits list.splits if_splits\<close>)
qed

text \<open>
  Channels have the capacity they are made with, sessions refer to queues that exist, and
  a mailbox somebody may still fill is empty.
\<close>

definition sm_inv :: "gateway_state \<Rightarrow> bool" where
  "sm_inv s \<longleftrightarrow> wf_map (gs_sessions s) \<and> wf_map (gs_pending s) \<and> manager.one_shot s
     \<and> (\<forall>q \<in> set (gs_responses s). ch_cap q = 1)
     \<and> (\<forall>c \<in># owed s. ch_buf (gs_responses s ! c) = [])
     \<and> (\<forall>q \<in> set (gs_outbound s). ch_cap q = sessionOutboundQueueCapacity
          \<and> length (ch_buf q) \<le> sessionOutboundQueueCapacity)
     \<and> (\<forall>i session. map_of (gs_sessions s) i = Some session \<longrightarrow>
          pred_option (\<lambda>c. c < length (gs_outbound s)) (ses_Outbound session))"

lemma sm_inv_new: "sm_inv new_gateway"
  by (simp add: sm_inv_def new_gateway_def NewSessionManager_def manager.one_shot_def owed_def)

lemma owed_step_subset:
  assumes "sm_step s e = Some s'"
  shows "\<forall>c \<in># owed s'. c \<in># owed s \<or> c = made s \<and> made s' = Suc (made s)"
proof (cases "puts e")
  case (Some c)
  with manager.step_put [OF assms] show ?thesis by (auto dest: mset_subset_eqD in_diffD)
next
  case None
  with manager.step_other [OF assms] show ?thesis by (auto dest: mset_subset_eqD)
qed

lemma sm_inv_wf_maps:
  assumes "sm_step s e = Some s'" "wf_map (gs_sessions s)" "wf_map (gs_pending s)"
  shows "wf_map (gs_sessions s') \<and> wf_map (gs_pending s')"
  using assms
  by (cases e) (auto simp: sm_step_defs send_fields fold_call_cancel Let_def chan_recv_def
      response_send_fields queue_message_fields split: option.splits list.splits if_splits)

text \<open>Every step leaves the response channels alone, makes one, fills one or empties one.\<close>

lemma sm_step_responses:
  assumes "sm_step s e = Some s'"
  shows "gs_responses s' = gs_responses s
    \<or> gs_responses s' = gs_responses s @ [make_chan 1]
    \<or> (\<exists>ch r. e = Ev_SendResponse ch r \<and> gs_responses s' =
         (gs_responses s)[ch := (gs_responses s ! ch)\<lparr>ch_buf := ch_buf (gs_responses s ! ch) @ [r]\<rparr>])
    \<or> (\<exists>ch. ch < made s \<and> ch_buf (gs_responses s ! ch) \<noteq> [] \<and> gs_responses s' =
         (gs_responses s)[ch := (gs_responses s ! ch)\<lparr>ch_buf := tl (ch_buf (gs_responses s ! ch))\<rparr>])"
proof (cases e)
  case (Ev_SendResponse ch r)
  with assms show ?thesis
    by (auto simp: response_send_def chan_send_def split: if_splits)
next
  case (Ev_ReceiveResponse ch)
  with assms show ?thesis
    by (auto simp: chan_recv_def split: list.splits if_splits)
qed (use assms in \<open>auto simp: sm_step_defs send_fields fold_call_cancel queue_message_fields Let_def
    chan_recv_def split: option.splits list.splits if_splits\<close>)

lemma sm_inv_responses:
  assumes st: "sm_step s e = Some s'" and inv: "sm_inv s"
  shows "(\<forall>q \<in> set (gs_responses s'). ch_cap q = 1)
    \<and> (\<forall>c \<in># owed s'. ch_buf (gs_responses s' ! c) = [])"
proof -
  have cap: "\<forall>q \<in> set (gs_responses s). ch_cap q = 1"
    and empty: "\<And>c. c \<in># owed s \<Longrightarrow> ch_buf (gs_responses s ! c) = []"
    and bound: "\<And>c. c \<in># owed s \<Longrightarrow> c < made s" and once: "\<And>c. count (owed s) c \<le> 1"
    using inv by (auto simp: sm_inv_def manager.one_shot_def)
  note sub = owed_step_subset [OF st]
  consider "gs_responses s' = gs_responses s" | "gs_responses s' = gs_responses s @ [make_chan 1]"
    | ch r where "e = Ev_SendResponse ch r" "gs_responses s' =
         (gs_responses s)[ch := (gs_responses s ! ch)\<lparr>ch_buf := ch_buf (gs_responses s ! ch) @ [r]\<rparr>]"
    | ch where "ch < made s" "ch_buf (gs_responses s ! ch) \<noteq> []" "gs_responses s' =
         (gs_responses s)[ch := (gs_responses s ! ch)\<lparr>ch_buf := tl (ch_buf (gs_responses s ! ch))\<rparr>]"
    using sm_step_responses [OF st] by blast
  then show ?thesis
  proof cases
    case 1
    with cap empty sub show ?thesis by auto
  next
    case 2
    with cap empty sub bound show ?thesis
      by (auto simp: nth_append make_chan_def)
  next
    case (3 ch r)
    have "ch \<in># owed s" "owed s' \<subseteq># owed s - {#ch#}"
      using manager.step_put [OF st, of ch] 3(1) by auto
    moreover from this(1) once [of ch] have "ch \<notin># owed s - {#ch#}"
      by (simp add: not_in_iff)
    ultimately have "ch < made s" "\<And>c. c \<in># owed s' \<Longrightarrow> c \<in># owed s \<and> c \<noteq> ch"
      using bound by (auto dest: mset_subset_eqD in_diffD)
    then have "ch < made s" "\<And>c. c \<in># owed s' \<Longrightarrow> ch_buf (gs_responses s' ! c) = []"
      using empty by (metis 3(2) nth_list_update_neq)+
    with 3(2) cap show ?thesis
      by (auto dest!: subsetD [OF set_update_subset_insert])
  next
    case (4 ch)
    have "c \<in># owed s" "c \<noteq> ch" if "c \<in># owed s'" for c
      using that sub empty 4 by fastforce+
    then have "\<And>c. c \<in># owed s' \<Longrightarrow> ch_buf (gs_responses s' ! c) = []"
      using empty by (metis 4(3) nth_list_update_neq)
    with 4 cap show ?thesis
      by (auto dest!: subsetD [OF set_update_subset_insert])
  qed
qed

section \<open>The outbound queues\<close>

text \<open>The message a step puts into a queue, and the one the session's loop takes to write.\<close>

definition accepted_by :: "string \<Rightarrow> OutboundMessage \<Rightarrow> gateway_state \<Rightarrow> (nat \<times> OutboundMessage) option" where
  "accepted_by i m s =
     (case lookup_outbound i s of None \<Rightarrow> None
      | Some c \<Rightarrow> if queue_message c m s = None then None else Some (c, m))"

fun accepts :: "gateway_state \<Rightarrow> sm_event \<Rightarrow> (nat \<times> OutboundMessage) option" where
  "accepts s (Ev_Send i m) = accepted_by i \<lparr>om_Type = MessageText, om_Data = m\<rparr> s"
| "accepts s (Ev_SendBinary i m) = accepted_by i \<lparr>om_Type = MessageBinary, om_Data = m\<rparr> s"
| "accepts s (Ev_SendContext c m) = Some (c, m)"
| "accepts s _ = None"

fun writes :: "gateway_state \<Rightarrow> sm_event \<Rightarrow> (nat \<times> OutboundMessage) option" where
  "writes s (Ev_Write c) = Some (c, hd (ch_buf (gs_outbound s ! c)))"
| "writes s _ = None"

definition messages_of :: "nat \<Rightarrow> (nat \<times> 'm) option \<Rightarrow> 'm list" where
  "messages_of c x = (case x of Some (c', m) \<Rightarrow> if c' = c then [m] else [] | None \<Rightarrow> [])"

fun queue_log ::
    "(gateway_state \<Rightarrow> sm_event \<Rightarrow> (nat \<times> OutboundMessage) option) \<Rightarrow> nat \<Rightarrow> gateway_state
      \<Rightarrow> sm_event list \<Rightarrow> OutboundMessage list" where
  "queue_log f c s [] = []"
| "queue_log f c s (e # es) = messages_of c (f s e)
     @ (case sm_step s e of None \<Rightarrow> [] | Some s' \<Rightarrow> queue_log f c s' es)"

definition queued :: "gateway_state \<Rightarrow> nat \<Rightarrow> OutboundMessage list" where
  "queued s c = (if c < length (gs_outbound s) then ch_buf (gs_outbound s ! c) else [])"

lemma lookup_outbound_bound: "sm_inv s \<Longrightarrow> lookup_outbound i s = Some c \<Longrightarrow> c < length (gs_outbound s)"
  by (fastforce simp: sm_inv_def lookup_outbound_def split: option.splits)

lemma sm_step_outbound:
  assumes "sm_step s e = Some s'" "sm_inv s"
  shows "gs_outbound s' =
    (case e of
       Ev_MakeOutbound \<Rightarrow> gs_outbound s @ [make_chan sessionOutboundQueueCapacity]
     | Ev_Write c \<Rightarrow> (gs_outbound s)[c := (gs_outbound s ! c)\<lparr>ch_buf := tl (ch_buf (gs_outbound s ! c))\<rparr>]
     | _ \<Rightarrow> (case accepts s e of None \<Rightarrow> gs_outbound s
         | Some (c, m) \<Rightarrow> (gs_outbound s)[c := (gs_outbound s ! c)\<lparr>ch_buf := ch_buf (gs_outbound s ! c) @ [m]\<rparr>]))
    \<and> (case accepts s e of None \<Rightarrow> True
       | Some (c, m) \<Rightarrow> c < length (gs_outbound s)
           \<and> length (ch_buf (gs_outbound s ! c)) < ch_cap (gs_outbound s ! c))
    \<and> (case writes s e of None \<Rightarrow> True
       | Some (c, m) \<Rightarrow> c < length (gs_outbound s) \<and> ch_buf (gs_outbound s ! c) = m # tl (ch_buf (gs_outbound s ! c)))"
  using assms
  by (cases e)
    (auto simp: sm_step_defs fold_call_cancel Let_def accepted_by_def session_Send_def session_SendBinary_def
      queue_message_def chan_send_def chan_recv_def response_send_def
      dest: lookup_outbound_bound split: option.splits list.splits if_splits)

lemma queued_step:
  assumes "sm_step s e = Some s'" "sm_inv s"
  shows "queued s c @ messages_of c (accepts s e) = messages_of c (writes s e) @ queued s' c"
proof (cases "writes s e")
  case (Some p)
  then obtain d where e: "e = Ev_Write d" by (cases e) auto
  with sm_step_outbound [OF assms] show ?thesis
    by (auto simp: queued_def messages_of_def nth_list_update)
next
  case None
  show ?thesis
  proof (cases "accepts s e")
    case (Some p)
    obtain d m where p: "accepts s e = Some (d, m)" using Some by (cases p) auto
    with sm_step_outbound [OF assms] None show ?thesis
      by (cases e) (auto simp: queued_def messages_of_def nth_list_update)
  next
    case no: None
    with sm_step_outbound [OF assms] None show ?thesis
      by (cases e) (auto simp: queued_def messages_of_def nth_append make_chan_def)
  qed
qed

lemma sm_inv_outbound:
  assumes "sm_step s e = Some s'" "sm_inv s"
  shows "(\<forall>q \<in> set (gs_outbound s'). ch_cap q = sessionOutboundQueueCapacity
      \<and> length (ch_buf q) \<le> sessionOutboundQueueCapacity)
    \<and> length (gs_outbound s) \<le> length (gs_outbound s')"
proof -
  have old: "\<forall>q \<in> set (gs_outbound s). ch_cap q = sessionOutboundQueueCapacity
      \<and> length (ch_buf q) \<le> sessionOutboundQueueCapacity"
    using assms(2) by (simp add: sm_inv_def)
  consider "gs_outbound s' = gs_outbound s @ [make_chan sessionOutboundQueueCapacity]"
    | "gs_outbound s' = gs_outbound s"
    | c where "c < length (gs_outbound s)"
      "gs_outbound s' = (gs_outbound s)[c := (gs_outbound s ! c)\<lparr>ch_buf := tl (ch_buf (gs_outbound s ! c))\<rparr>]"
    | c m where "c < length (gs_outbound s)" "length (ch_buf (gs_outbound s ! c)) < ch_cap (gs_outbound s ! c)"
      "gs_outbound s' = (gs_outbound s)[c := (gs_outbound s ! c)\<lparr>ch_buf := ch_buf (gs_outbound s ! c) @ [m]\<rparr>]"
    using sm_step_outbound [OF assms] by (cases e) (auto split: option.splits)
  then show ?thesis
  proof cases
    case 1
    with old show ?thesis by (auto simp: make_chan_def)
  next
    case 2
    with old show ?thesis by simp
  next
    case (3 c)
    have "ch_cap (gs_outbound s ! c) = sessionOutboundQueueCapacity
        \<and> length (ch_buf (gs_outbound s ! c)) - Suc 0 \<le> sessionOutboundQueueCapacity"
      using old nth_mem [OF 3(1)] by (metis diff_le_self le_trans)
    with old 3 show ?thesis
      by (auto dest!: subsetD [OF set_update_subset_insert])
  next
    case (4 c m)
    have "ch_cap (gs_outbound s ! c) = sessionOutboundQueueCapacity"
      using old nth_mem [OF 4(1)] by blast
    with old 4 show ?thesis
      by (auto dest!: subsetD [OF set_update_subset_insert])
  qed
qed

lemma sm_inv_sessions:
  assumes "sm_step s e = Some s'" "sm_inv s" "map_of (gs_sessions s') i = Some session"
  shows "pred_option (\<lambda>c. c < length (gs_outbound s)) (ses_Outbound session)"
proof -
  have old: "map_of (gs_sessions s) j = Some x \<Longrightarrow>
      pred_option (\<lambda>c. c < length (gs_outbound s)) (ses_Outbound x)" for j x
    using assms(2) by (simp add: sm_inv_def)
  show ?thesis
    using assms(1,3) old
    by (cases e) (fastforce simp: sm_step_defs send_fields fold_call_cancel Let_def chan_recv_def
        response_send_fields queue_message_fields split: option.splits list.splits if_splits)+
qed

lemma sm_inv_step:
  assumes "sm_step s e = Some s'" "sm_inv s"
  shows "sm_inv s'"
proof -
  have "pred_option (\<lambda>c. c < length (gs_outbound s')) (ses_Outbound session)"
    if "map_of (gs_sessions s') i = Some session" for i session
    using sm_inv_sessions [OF assms that] sm_inv_outbound [OF assms]
    by (auto simp: option.pred_set)
  moreover have "wf_map (gs_sessions s') \<and> wf_map (gs_pending s')"
    using sm_inv_wf_maps [OF assms(1)] assms(2) by (simp add: sm_inv_def)
  moreover have "manager.one_shot s'"
    using manager.one_shot_step [OF assms(1)] assms(2) by (simp add: sm_inv_def)
  ultimately show ?thesis
    using sm_inv_responses [OF assms] sm_inv_outbound [OF assms] by (simp add: sm_inv_def)
qed

lemma sm_inv_run: "run_opt sm_step s es = Some s' \<Longrightarrow> sm_inv s \<Longrightarrow> sm_inv s'"
  by (rule run_opt_invariant [where P = sm_inv]) (auto intro: sm_inv_step)

lemma queued_run:
  "run_opt sm_step s es = Some s' \<Longrightarrow> sm_inv s \<Longrightarrow>
     queued s c @ queue_log accepts c s es = queue_log writes c s es @ queued s' c"
proof (induction es arbitrary: s)
  case (Cons e es)
  then obtain s1 where s1: "sm_step s e = Some s1" "run_opt sm_step s1 es = Some s'"
    by (auto split: option.splits)
  with Cons.IH [OF s1(2) sm_inv_step [OF s1(1) Cons.prems(2)]] queued_step [OF s1(1) Cons.prems(2), of c]
  show ?case
    by simp (metis append.assoc)
qed simp

section \<open>Who answers a request\<close>

fun request_of :: "sm_event \<Rightarrow> (string \<times> string) option" where
  "request_of (Ev_RegisterRequest sid i) = Some (sid, i)"
| "request_of _ = None"

definition owners :: "sm_event list \<Rightarrow> (string \<times> string) list" where
  "owners es = List.map_filter request_of es"

definition answers :: "sm_event list \<Rightarrow> nat \<Rightarrow> Response \<Rightarrow> bool" where
  "answers es ch r \<longleftrightarrow> ch < length (owners es)
     \<and> (Ev_Deliver (snd (owners es ! ch)) r \<in> set es
        \<or> r = disconnected \<and> Ev_Remove (fst (owners es ! ch)) \<in> set es)"

lemma owners_snoc: "owners (es @ [e]) = owners es @ (case request_of e of None \<Rightarrow> [] | Some x \<Rightarrow> [x])"
  by (auto simp: owners_def List.map_filter_def split: option.splits)

lemma answers_snoc: "answers es ch r \<Longrightarrow> answers (es @ [e]) ch r"
  by (auto simp: answers_def owners_snoc nth_append)

definition routed :: "sm_event list \<Rightarrow> gateway_state \<Rightarrow> bool" where
  "routed es s \<longleftrightarrow> made s = length (owners es)
     \<and> (\<forall>i p. (i, p) \<in> set (gs_pending s) \<longrightarrow>
          pr_response p < made s \<and> owners es ! pr_response p = (pr_sessionID p, i))
     \<and> (\<forall>ch r. (ch, r) \<in> set (gs_sends s) \<longrightarrow> answers es ch r)
     \<and> (\<forall>ch r. Ev_SendResponse ch r \<in> set es \<longrightarrow> answers es ch r)"

lemma routed_pending:
  assumes "routed es s" "(i, p) \<in> set (gs_pending s)"
  shows "pr_response p < length (owners es)" "owners es ! pr_response p = (pr_sessionID p, i)"
  using assms by (auto simp: routed_def)

lemma set_put_subset: "set (map_put k v m) \<subseteq> insert (k, v) (set m)"
  by (induction m) auto

lemma set_del_subset: "set (map_del k m) \<subseteq> set m"
  by (auto simp: AList.delete_eq)

text \<open>The steps that neither register nor answer requests.\<close>

lemma sm_step_requests_same:
  assumes "sm_step s e = Some s'" "request_of e = None" "puts e = None"
    and "\<And>i. e \<noteq> Ev_CancelRequest i" "\<And>i. e \<noteq> Ev_Remove i" "\<And>i r. e \<noteq> Ev_Deliver i r"
  shows "gs_pending s' = gs_pending s \<and> gs_sends s' = gs_sends s \<and> made s' = made s"
  using assms
  by (cases e) (auto simp: sm_step_defs send_fields fold_call_cancel Let_def chan_recv_def
      queue_message_fields split: option.splits list.splits if_splits)

lemma routed_step:
  assumes st: "sm_step s e = Some s'" and ro: "routed es s"
  shows "routed (es @ [e]) s'"
proof -
  have old: "made s = length (owners es)"
      "\<And>ch r. (ch, r) \<in> set (gs_sends s) \<Longrightarrow> answers (es @ [e]) ch r"
      "\<And>ch r. Ev_SendResponse ch r \<in> set es \<Longrightarrow> answers (es @ [e]) ch r"
    using ro by (auto simp: routed_def intro: answers_snoc)
  note pend = routed_pending [OF ro]
  show ?thesis
  proof (cases e)
    case (Ev_RegisterRequest sid i)
    then show ?thesis
      using st old pend set_put_subset [of i "\<lparr>pr_sessionID = sid, pr_response = made s\<rparr>" "gs_pending s"]
      by (auto simp: routed_def owners_snoc nth_append RegisterRequest_def Let_def less_Suc_eq)
  next
    case (Ev_CancelRequest i)
    then show ?thesis
      using st old pend set_del_subset [of i "gs_pending s"]
      by (auto simp: routed_def owners_snoc session_CancelRequest_def)
  next
    case (Ev_Deliver i r)
    show ?thesis
    proof (cases "map_of (gs_pending s) i")
      case None
      then show ?thesis
        using st old pend Ev_Deliver by (auto simp: routed_def owners_snoc deliver_lock_def)
    next
      case (Some p)
      then have "answers (es @ [Ev_Deliver i r]) (pr_response p) r"
        using pend [OF map_of_SomeD [OF Some]] by (simp add: answers_def owners_snoc)
      then show ?thesis
        using st old pend Ev_Deliver Some set_del_subset [of i "gs_pending s"]
        by (auto simp: routed_def owners_snoc deliver_lock_def)
    qed
  next
    case (Ev_Remove i)
    have "answers (es @ [Ev_Remove i]) (pr_response p) disconnected"
      if "(j, p) \<in> set (gs_pending s)" "pr_sessionID p = i" for j p
      using pend [OF that(1)] that(2) by (simp add: answers_def owners_snoc)
    then show ?thesis
      using st old pend Ev_Remove
      by (auto simp: routed_def owners_snoc remove_lock_def Let_def map_purge_def split: option.splits)
  next
    case (Ev_SendResponse ch r)
    then have "(ch, r) \<in> set (gs_sends s)" "response_send s (ch, r) = Some s'"
      using st by (auto split: if_splits)
    then show ?thesis
      using old pend Ev_SendResponse set_remove1_subset [of "(ch, r)" "gs_sends s"]
      by (auto simp: routed_def owners_snoc response_send_fields)
  qed (use sm_step_requests_same [OF st] old pend in \<open>auto simp: routed_def owners_snoc\<close>)
qed

lemma routed_run: "run_opt sm_step new_gateway es = Some s \<Longrightarrow> routed es s"
proof (induction es arbitrary: s rule: rev_induct)
  case Nil
  then show ?case
    by (auto simp: routed_def owners_def List.map_filter_simps new_gateway_def NewSessionManager_def)
next
  case (snoc e es)
  then obtain s1 where "run_opt sm_step new_gateway es = Some s1" "sm_step s1 e = Some s"
    by (auto simp: run_opt_append split: option.splits)
  with snoc.IH show ?case by (blast intro: routed_step)
qed

section \<open>Sends that cannot block\<close>

lemma response_send_ready:
  assumes "sm_inv s" "ch \<in># owed s"
  shows "\<exists>s'. response_send s (ch, r) = Some s' \<and> ch < made s \<and>
    gs_responses s' = (gs_responses s)[ch := \<lparr>ch_cap = 1, ch_buf = [r]\<rparr>]"
proof -
  have ch: "ch < made s" "ch_buf (gs_responses s ! ch) = []"
    using assms by (auto simp: sm_inv_def manager.one_shot_def)
  then have "ch_cap (gs_responses s ! ch) = 1"
    using assms(1) nth_mem [OF ch(1)] by (simp add: sm_inv_def)
  with ch show ?thesis
    by (cases "gs_responses s ! ch") (auto simp: response_send_def chan_send_def)
qed

lemma send_all_ready:
  assumes "distinct chs" "\<forall>ch \<in> set chs. ch < made s \<and> gs_responses s ! ch = \<lparr>ch_cap = 1, ch_buf = []\<rparr>"
  shows "\<exists>s'. run_opt response_send s (map (\<lambda>ch. (ch, r)) chs) = Some s'
    \<and> gs_manager s' = gs_manager s \<and> made s' = made s
    \<and> (\<forall>ch. ch < made s \<longrightarrow> gs_responses s' ! ch =
         (if ch \<in> set chs then \<lparr>ch_cap = 1, ch_buf = [r]\<rparr> else gs_responses s ! ch))"
  using assms
proof (induction chs arbitrary: s)
  case (Cons c chs)
  let ?s = "s\<lparr>gs_responses := (gs_responses s)[c := \<lparr>ch_cap = 1, ch_buf = [r]\<rparr>],
    gs_sends := remove1 (c, r) (gs_sends s)\<rparr>"
  have st: "response_send s (c, r) = Some ?s"
    using Cons.prems(2) by (simp add: response_send_def chan_send_def)
  have d: "distinct chs" and rest: "\<forall>ch \<in> set chs. ch < made ?s \<and>
      gs_responses ?s ! ch = \<lparr>ch_cap = 1, ch_buf = []\<rparr>"
    using Cons.prems by (auto simp: nth_list_update)
  obtain s' where "run_opt response_send ?s (map (\<lambda>ch. (ch, r)) chs) = Some s'"
    "gs_manager s' = gs_manager s" "made s' = made s"
    "\<forall>ch. ch < made s \<longrightarrow> gs_responses s' ! ch =
       (if ch \<in> set chs then \<lparr>ch_cap = 1, ch_buf = [r]\<rparr> else gs_responses ?s ! ch)"
    using Cons.IH [OF d rest] by auto
  with st Cons.prems show ?case
    by (auto simp: nth_list_update intro!: exI [of _ s'])
qed simp

lemma one_shot_pending:
  assumes "sm_inv s"
  shows "distinct (map (pr_response \<circ> snd) (gs_pending s))"
    and "(i, p) \<in> set (gs_pending s) \<Longrightarrow>
      pr_response p < made s \<and> gs_responses s ! pr_response p = \<lparr>ch_cap = 1, ch_buf = []\<rparr>"
proof -
  have "count (mset (map (pr_response \<circ> snd) (gs_pending s))) c \<le> 1" for c
  proof -
    have "count (owed s) c \<le> 1"
      using assms by (simp add: sm_inv_def manager.one_shot_def)
    then show ?thesis
      unfolding owed_def count_union by linarith
  qed
  then show "distinct (map (pr_response \<circ> snd) (gs_pending s))"
    by (metis One_nat_def distinct_count_atmost_1 count_mset_0_iff le_SucE le_zero_eq)
  assume "(i, p) \<in> set (gs_pending s)"
  then have "pr_response p \<in># owed s"
    by (force simp: owed_def)
  then have "pr_response p < made s" "ch_buf (gs_responses s ! pr_response p) = []"
    and cap: "pr_response p < made s \<Longrightarrow> ch_cap (gs_responses s ! pr_response p) = 1"
    using assms by (auto simp: sm_inv_def manager.one_shot_def)
  then show "pr_response p < made s \<and> gs_responses s ! pr_response p = \<lparr>ch_cap = 1, ch_buf = []\<rparr>"
    by (cases "gs_responses s ! pr_response p") simp
qed

lemma DeliverResponse_returns:
  assumes inv: "sm_inv s"
  shows "\<exists>s'. DeliverResponse i response s = Some (map_of (gs_pending s) i \<noteq> None, s')
      \<and> map_of (gs_pending s') i = None
      \<and> (\<forall>p. map_of (gs_pending s) i = Some p \<longrightarrow> ch_buf (gs_responses s' ! pr_response p) = [response])"
proof (cases "map_of (gs_pending s) i")
  case None
  then show ?thesis by (simp add: DeliverResponse_def deliver_lock_def)
next
  case (Some p)
  let ?s = "snd (deliver_lock i response s)"
  have "sm_inv ?s"
    using sm_inv_step [OF _ inv, of "Ev_Deliver i response"] by simp
  moreover have "pr_response p \<in># owed ?s"
    using Some by (simp add: deliver_lock_def owed_def)
  ultimately obtain s' where s': "response_send ?s (pr_response p, response) = Some s'"
    "pr_response p < made ?s" "gs_responses s' = (gs_responses ?s)[pr_response p := \<lparr>ch_cap = 1, ch_buf = [response]\<rparr>]"
    using response_send_ready by blast
  then have "gs_pending s' = map_del i (gs_pending s)"
    using response_send_fields(1) [OF s'(1)] Some by (simp add: deliver_lock_def)
  then show ?thesis
    using s' Some by (auto simp: DeliverResponse_def deliver_lock_def)
qed

lemma session_Remove_returns:
  assumes inv: "sm_inv s"
  shows "\<exists>s'. session_Remove i s = Some s' \<and> map_of (gs_sessions s') i = None
    \<and> (\<forall>r p. map_of (gs_pending s) r = Some p \<longrightarrow>
         (if pr_sessionID p = i
          then map_of (gs_pending s') r = None \<and> ch_buf (gs_responses s' ! pr_response p) = [disconnected]
          else map_of (gs_pending s') r = Some p \<and> ch_buf (gs_responses s' ! pr_response p) = []))"
proof -
  let ?gone = "filter (\<lambda>(_, p). pr_sessionID p = i) (gs_pending s)"
  let ?chs = "map (pr_response \<circ> snd) ?gone"
  let ?s = "snd (remove_lock i s)"
  have chs: "fst (remove_lock i s) = ?chs" "gs_responses ?s = gs_responses s"
    by (auto simp: remove_lock_def Let_def split: option.splits)
  have pend: "gs_pending ?s = map_purge (\<lambda>_ p. pr_sessionID p = i) (gs_pending s)"
    and gone: "map_of (gs_sessions ?s) i = None"
    by (auto simp: remove_lock_def Let_def split: option.splits)
  have d: "distinct ?chs"
    by (rule distinct_map_filter [OF one_shot_pending(1) [OF inv]])
  have ready: "\<forall>ch \<in> set ?chs. ch < made ?s \<and> gs_responses ?s ! ch = \<lparr>ch_cap = 1, ch_buf = []\<rparr>"
    using one_shot_pending(2) [OF inv] chs by auto
  obtain s' where s': "run_opt response_send ?s (map (\<lambda>ch. (ch, disconnected)) ?chs) = Some s'"
    "gs_manager s' = gs_manager ?s" and buf: "\<And>ch. ch < made s \<Longrightarrow> gs_responses s' ! ch =
       (if ch \<in> set ?chs then \<lparr>ch_cap = 1, ch_buf = [disconnected]\<rparr> else gs_responses s ! ch)"
    using send_all_ready [OF d ready, of disconnected] chs by auto
  have wf: "wf_map (gs_pending s)"
    using inv by (simp add: sm_inv_def)
  have mine: "pr_response p \<in> set ?chs \<longleftrightarrow> pr_sessionID p = i" if "map_of (gs_pending s) r = Some p" for r p
  proof -
    have rp: "(r, p) \<in> set (gs_pending s)" using that by (rule map_of_SomeD)
    have "inj_on (pr_response \<circ> snd) (set (gs_pending s))"
      using one_shot_pending(1) [OF inv] by (simp only: distinct_map)
    then have "q = p" if "(r', q) \<in> set (gs_pending s)" "pr_response q = pr_response p" for r' q
      using inj_onD [of "pr_response \<circ> snd" _ "(r', q)" "(r, p)"] that rp by simp
    moreover have "pr_response p \<in> set ?chs \<longleftrightarrow>
        (\<exists>r' q. (r', q) \<in> set (gs_pending s) \<and> pr_sessionID q = i \<and> pr_response q = pr_response p)"
      by (simp add: image_iff case_prod_unfold) metis
    ultimately show ?thesis using rp by blast
  qed
  have "session_Remove i s = Some s'"
    using s'(1) chs(1) by (simp add: session_Remove_def case_prod_unfold)
  moreover have "gs_pending s' = gs_pending ?s" "gs_sessions s' = gs_sessions ?s"
    using s'(2) by simp_all
  ultimately show ?thesis
    using gone buf one_shot_pending(2) [OF inv map_of_SomeD] mine
    by (auto simp: pend map_of_purge [OF wf] intro!: exI [of _ s'])
qed

section \<open>Session counters\<close>

fun registered_id :: "sm_event \<Rightarrow> string option" where
  "registered_id (Ev_Register now session) = Some (ses_ID session)"
| "registered_id _ = None"

definition sessions_counted :: "gateway_state \<Rightarrow> bool" where
  "sessions_counted s \<longleftrightarrow>
     sm_connectionsTotal (gs_manager s)
       = sm_disconnectionsTotal (gs_manager s) + of_nat (length (gs_sessions s))"

lemma length_map_del: "wf_map m \<Longrightarrow> map_of m k = Some v \<Longrightarrow> length m = Suc (length (map_del k m))"
  using length_del_present by metis

lemma sessions_counted_step:
  assumes "sm_step s e = Some s'" "sessions_counted s" "wf_map (gs_sessions s)"
    and "\<And>i. registered_id e = Some i \<Longrightarrow> map_of (gs_sessions s) i = None"
  shows "sessions_counted s'"
    and "map_of (gs_sessions s') i \<noteq> None \<Longrightarrow> map_of (gs_sessions s) i \<noteq> None \<or> registered_id e = Some i"
proof -
  show "sessions_counted s'"
    using assms unfolding sessions_counted_def
    by (cases e) (auto simp: sm_step_defs send_fields fold_call_cancel Let_def chan_recv_def
        response_send_fields queue_message_fields length_map_del
        split: option.splits list.splits if_splits)
  show "map_of (gs_sessions s') i \<noteq> None \<Longrightarrow> map_of (gs_sessions s) i \<noteq> None \<or> registered_id e = Some i"
    using assms
    by (cases e) (auto simp: sm_step_defs send_fields fold_call_cancel Let_def chan_recv_def
        response_send_fields queue_message_fields split: option.splits list.splits if_splits)
qed

lemma sessions_counted_run:
  assumes "run_opt sm_step new_gateway es = Some s" "distinct (List.map_filter registered_id es)"
  shows "sessions_counted s \<and> (\<forall>i. map_of (gs_sessions s) i \<noteq> None \<longrightarrow> Some i \<in> registered_id ` set es)"
  using assms
proof (induction es arbitrary: s rule: rev_induct)
  case Nil
  then show ?case
    by (auto simp: sessions_counted_def new_gateway_def NewSessionManager_def)
next
  case (snoc e es)
  then obtain s1 where s1: "run_opt sm_step new_gateway es = Some s1" "sm_step s1 e = Some s"
    by (auto simp: run_opt_append split: option.splits)
  have split: "List.map_filter registered_id (es @ [e])
      = List.map_filter registered_id es @ List.map_filter registered_id [e]"
    by (simp add: List.map_filter_def)
  then have ih: "sessions_counted s1" "\<And>i. map_of (gs_sessions s1) i \<noteq> None \<Longrightarrow> Some i \<in> registered_id ` set es"
    using snoc.IH [OF s1(1)] snoc.prems(2) by auto
  have "map_of (gs_sessions s1) i = None" if "registered_id e = Some i" for i
  proof (rule ccontr)
    assume "map_of (gs_sessions s1) i \<noteq> None"
    then have "Some i \<in> registered_id ` set es" by (rule ih)
    then have "i \<in> set (List.map_filter registered_id es)"
      by (simp add: set_map_filter_iff)
    with snoc.prems(2) that show False
      unfolding split by (simp add: List.map_filter_simps)
  qed
  moreover have "wf_map (gs_sessions s1)"
    using sm_inv_run [OF s1(1) sm_inv_new] by (simp add: sm_inv_def)
  ultimately show ?case
    using sessions_counted_step [OF s1(2) ih(1)] ih(2) by fastforce
qed

section \<open>Properties\<close>

text \<open>
  C6: a public request is answered at most once and only with an answer of its own. In
  every interleaving of the gateway's goroutines no response channel is sent to twice, and
  what is sent on the channel of a request is a response delivered for that request id or
  the disconnect error after the session the request was sent to was removed.
\<close>

theorem each_request_answered_once:
  assumes "run_opt sm_step new_gateway es = Some s"
  shows "distinct (List.map_filter puts es)
    \<and> (\<forall>ch r. Ev_SendResponse ch r \<in> set es \<longrightarrow> answers es ch r)"
proof -
  have "manager.one_shot new_gateway"
    using sm_inv_new by (simp add: sm_inv_def)
  with manager.put_once [OF assms] routed_run [OF assms] show ?thesis
    by (simp add: routed_def)
qed

definition example_response :: Response where
  "example_response = \<lparr>res_StatusCode = 200, res_Headers = [], res_Body = [], res_Error = []\<rparr>"

theorem each_request_answered_once_witness:
  "answers [Ev_RegisterRequest ''s'' ''r1'', Ev_RegisterRequest ''s'' ''r2'', Ev_Deliver ''r2'' example_response,
      Ev_Remove ''s'', Ev_SendResponse 1 example_response, Ev_SendResponse 0 disconnected]
     1 example_response"
proof -
  let ?es = "[Ev_RegisterRequest ''s'' ''r1'', Ev_RegisterRequest ''s'' ''r2'', Ev_Deliver ''r2'' example_response,
      Ev_Remove ''s'', Ev_SendResponse 1 example_response, Ev_SendResponse 0 disconnected]"
  have "run_opt sm_step new_gateway ?es \<noteq> None"
    by (simp add: new_gateway_def NewSessionManager_def RegisterRequest_def deliver_lock_def remove_lock_def
        response_send_def chan_send_def make_chan_def example_response_def disconnected_def map_purge_def Let_def)
  then show ?thesis
    using each_request_answered_once [of ?es] by auto
qed

text \<open>
  C8: answering never blocks. In every reachable state a goroutine that has left the
  critical section of \<open>DeliverResponse\<close> or \<open>Remove\<close> can send at once, the request's channel
  then holds exactly that response, and \<open>DeliverResponse\<close> as a whole returns, reporting
  whether the request was still waiting, and makes it wait no longer.
\<close>

theorem answering_never_blocks:
  assumes "run_opt sm_step new_gateway es = Some s"
  shows "(\<forall>ch r. (ch, r) \<in> set (gs_sends s) \<longrightarrow>
      (\<exists>s'. sm_step s (Ev_SendResponse ch r) = Some s' \<and> ch_buf (gs_responses s' ! ch) = [r]))
    \<and> (\<exists>s'. DeliverResponse i response s = Some (map_of (gs_pending s) i \<noteq> None, s')
         \<and> map_of (gs_pending s') i = None
         \<and> (\<forall>p. map_of (gs_pending s) i = Some p \<longrightarrow> ch_buf (gs_responses s' ! pr_response p) = [response]))"
proof (intro conjI allI impI)
  note inv = sm_inv_run [OF assms sm_inv_new]
  fix ch r assume "(ch, r) \<in> set (gs_sends s)"
  moreover from this have "ch \<in># owed s"
    by (force simp: owed_def)
  ultimately show "\<exists>s'. sm_step s (Ev_SendResponse ch r) = Some s' \<and> ch_buf (gs_responses s' ! ch) = [r]"
    using response_send_ready [OF inv, of ch r] by auto
next
  note inv = sm_inv_run [OF assms sm_inv_new]
  show "\<exists>s'. DeliverResponse i response s = Some (map_of (gs_pending s) i \<noteq> None, s')
      \<and> map_of (gs_pending s') i = None
      \<and> (\<forall>p. map_of (gs_pending s) i = Some p \<longrightarrow> ch_buf (gs_responses s' ! pr_response p) = [response])"
    by (rule DeliverResponse_returns [OF inv])
qed

theorem answering_never_blocks_witness:
  "\<exists>s'. sm_step (snd (deliver_lock ''r'' example_response (snd (RegisterRequest ''s'' ''r'' new_gateway))))
      (Ev_SendResponse 0 example_response) = Some s'
    \<and> ch_buf (gs_responses s' ! 0) = [example_response]"
proof -
  let ?es = "[Ev_RegisterRequest ''s'' ''r'', Ev_Deliver ''r'' example_response]"
  let ?s = "snd (deliver_lock ''r'' example_response (snd (RegisterRequest ''s'' ''r'' new_gateway)))"
  have "run_opt sm_step new_gateway ?es = Some ?s"
    by simp
  moreover have "(0, example_response) \<in> set (gs_sends ?s)"
    by (simp add: new_gateway_def NewSessionManager_def RegisterRequest_def deliver_lock_def Let_def)
  ultimately show ?thesis
    using answering_never_blocks [of ?es ?s] by blast
qed

text \<open>
  C12: losing an agent fails its waiting requests at once and no others. \<open>Remove\<close> always
  returns; afterwards the session is gone, no request of the session waits, each one that
  did has the disconnect error in its channel, and the requests of other sessions wait as
  before with their channels untouched.
\<close>

theorem removed_session_fails_waiting_requests:
  assumes "run_opt sm_step new_gateway es = Some s"
  shows "\<exists>s'. session_Remove i s = Some s' \<and> map_of (gs_sessions s') i = None
    \<and> (\<forall>r p. map_of (gs_pending s) r = Some p \<longrightarrow>
         (if pr_sessionID p = i
          then map_of (gs_pending s') r = None \<and> ch_buf (gs_responses s' ! pr_response p) = [disconnected]
          else map_of (gs_pending s') r = Some p \<and> ch_buf (gs_responses s' ! pr_response p) = []))"
  by (rule session_Remove_returns [OF sm_inv_run [OF assms sm_inv_new]])

theorem removed_session_fails_waiting_requests_witness:
  "\<exists>s'. session_Remove ''s'' (snd (RegisterRequest ''s'' ''r'' new_gateway)) = Some s'
     \<and> ch_buf (gs_responses s' ! 0) = [disconnected]"
proof -
  let ?s = "snd (RegisterRequest ''s'' ''r'' new_gateway)"
  have "run_opt sm_step new_gateway [Ev_RegisterRequest ''s'' ''r''] = Some ?s"
    by simp
  moreover have "map_of (gs_pending ?s) ''r'' = Some \<lparr>pr_sessionID = ''s'', pr_response = 0\<rparr>"
    by (simp add: new_gateway_def NewSessionManager_def RegisterRequest_def Let_def)
  ultimately show ?thesis
    using removed_session_fails_waiting_requests [of _ ?s "''s''"] by fastforce
qed


definition example_session :: Session where
  "example_session = \<lparr>ses_ID = ''s'', ses_AgentID = ''a'', ses_AgentTokenHash = ''h'', ses_LastSeen = 0,
     ses_Outbound = Some 0, ses_Cancel = Some 0\<rparr>"


text \<open>
  the session gauges agree. If no session id is registered twice, the number of active
  sessions is the number of connections less the number of disconnections, modulo \<open>2 ^ 64\<close>,
  in every reachable state.
\<close>

theorem session_metrics_balance:
  assumes "run_opt sm_step new_gateway es = Some s" and "distinct (List.map_filter registered_id es)"
  shows "ms_ActiveSessions (session_MetricsSnapshot s)
    = ms_ConnectionsTotal (session_MetricsSnapshot s) - ms_DisconnectionsTotal (session_MetricsSnapshot s)"
  using sessions_counted_run [OF assms]
  by (simp add: session_MetricsSnapshot_def sessions_counted_def)

theorem session_metrics_balance_witness:
  "\<exists>s. run_opt sm_step new_gateway [Ev_MakeOutbound, Ev_Register 5 example_session, Ev_Remove ''s''] = Some s
    \<and> ms_ActiveSessions (session_MetricsSnapshot s)
      = ms_ConnectionsTotal (session_MetricsSnapshot s) - ms_DisconnectionsTotal (session_MetricsSnapshot s)"
proof -
  let ?es = "[Ev_MakeOutbound, Ev_Register 5 example_session, Ev_Remove ''s'']"
  have "run_opt sm_step new_gateway ?es \<noteq> None"
    by (simp add: new_gateway_def make_outbound_def example_session_def)
  then obtain s where s: "run_opt sm_step new_gateway ?es = Some s" by blast
  have "distinct (List.map_filter registered_id ?es)"
    by (simp add: List.map_filter_simps)
  with session_metrics_balance [OF s] s show ?thesis by blast
qed

text \<open>
  revoking a token cancels exactly the sessions that authenticated with it: the contexts
  cancelled afterwards are those cancelled before and those of the sessions with that token
  hash.
\<close>

theorem token_revocation_cancels_its_sessions:
  "set (gs_cancelled (DisconnectTokenHash h s)) = set (gs_cancelled s)
     \<union> {c. \<exists>i session. (i, session) \<in> set (gs_sessions s) \<and> ses_AgentTokenHash session = h
           \<and> ses_Cancel session = Some c}
   \<and> gs_manager (DisconnectTokenHash h s) = gs_manager s"
proof -
  let ?f = "\<lambda>(i :: string, session). if ses_AgentTokenHash session = h then ses_Cancel session else None"
  have "Some c \<in> ?f ` set (gs_sessions s) \<longleftrightarrow> (\<exists>i session. (i, session) \<in> set (gs_sessions s)
      \<and> ses_AgentTokenHash session = h \<and> ses_Cancel session = Some c)" for c
    by (force simp: image_iff split: if_splits)
  note iff = this
  show ?thesis
    unfolding DisconnectTokenHash_def fold_call_cancel set_eq_iff Un_iff mem_Collect_eq
      set_map_filter_iff iff by blast
qed

end
