(* ===== verification/Proxy_Headers.thy ===== *)
theory Proxy_Headers
  imports Go_Strings
begin

text \<open>
  HTTP headers as both proxies treat them. An \<open>http.Header\<close> is a Go map from names to lists
  of values; \<open>Get\<close>, \<open>Set\<close>, \<open>Add\<close>, \<open>Del\<close> and \<open>Values\<close> canonicalise the name they are given.
  The code modelled is \<open>withoutHopByHopHeaders\<close> in \<^verbatim>\<open>public_handler.go\<close> and in
  \<^verbatim>\<open>local_http.go\<close>, and \<open>publicRequestHeaders\<close> and \<open>requestClientIP\<close> of the former. The
  locale \<open>header_filter\<close> is what forwarding relies on; both filters are interpretations.
\<close>

section \<open>Header maps\<close>

type_synonym Header = "(string, string list) gomap"

definition token_char :: "char \<Rightarrow> bool" where
  "token_char c \<longleftrightarrow> is_upper c \<or> is_lower c \<or> is_digit c
     \<or> c \<in> set ''!#$%&*+-.^_|~'' \<or> code c = 39 \<or> code c = 96"

fun canonical_case :: "bool \<Rightarrow> string \<Rightarrow> string" where
  "canonical_case upper [] = []"
| "canonical_case upper (c # s) =
     (if upper then upper_char c else lower_char c) # canonical_case (c = CHR ''-'') s"

text \<open>A name with a byte that no header name may contain is left as it is.\<close>

definition CanonicalMIMEHeaderKey :: "string \<Rightarrow> string" where
  "CanonicalMIMEHeaderKey s = (if list_all token_char s then canonical_case True s else s)"

definition header_Values :: "Header \<Rightarrow> string \<Rightarrow> string list" where
  "header_Values h name = (case map_of h (CanonicalMIMEHeaderKey name) of Some vs \<Rightarrow> vs | None \<Rightarrow> [])"

definition header_Get :: "Header \<Rightarrow> string \<Rightarrow> string" where
  "header_Get h name = (case header_Values h name of v # _ \<Rightarrow> v | [] \<Rightarrow> [])"

definition header_Set :: "string \<Rightarrow> string \<Rightarrow> Header \<Rightarrow> Header" where
  "header_Set name value h = map_put (CanonicalMIMEHeaderKey name) [value] h"

definition header_Add :: "string \<Rightarrow> string \<Rightarrow> Header \<Rightarrow> Header" where
  "header_Add name value h =
     map_put (CanonicalMIMEHeaderKey name) (header_Values h name @ [value]) h"

definition header_Del :: "string \<Rightarrow> Header \<Rightarrow> Header" where
  "header_Del name h = map_del (CanonicalMIMEHeaderKey name) h"

text \<open>
  \<open>strings.EqualFold\<close> against an ASCII name: besides the two cases of a letter, Unicode folds
  the Kelvin sign to \<open>k\<close> and the long s to \<open>s\<close>.
\<close>

fun EqualFold :: "string \<Rightarrow> string \<Rightarrow> bool" where
  "EqualFold s [] \<longleftrightarrow> s = []"
| "EqualFold s (c # t) \<longleftrightarrow>
     (case s of
        [] \<Rightarrow> False
      | x # s' \<Rightarrow>
          lower_char x = lower_char c \<and> EqualFold s' t
          \<or> lower_char c = CHR ''s'' \<and> map code (take 2 s) = [197, 191] \<and> EqualFold (drop 2 s) t
          \<or> lower_char c = CHR ''k'' \<and> map code (take 3 s) = [226, 132, 170] \<and> EqualFold (drop 3 s) t)"

section \<open>Hop-by-hop headers\<close>

definition hop_by_hop :: "string list" where
  "hop_by_hop = [''Connection'', ''Proxy-Connection'', ''Keep-Alive'', ''Proxy-Authenticate'',
     ''Proxy-Authorization'', ''TE'', ''Trailer'', ''Transfer-Encoding'', ''Upgrade'']"

text \<open>The filter of the gateway.\<close>

definition withoutHopByHopHeaders :: "Header \<Rightarrow> Header" where
  "withoutHopByHopHeaders headers =
     (let filtered = headers;
          filtered = fold (\<lambda>value filtered.
              fold (\<lambda>name filtered. header_Del (TrimSpace name) filtered) (SplitByte CHR '','' value) filtered)
            (header_Values filtered ''Connection'') filtered
      in fold header_Del hop_by_hop filtered)"

text \<open>The filter of the agent, a copy in its own module.\<close>

definition agent_hop_by_hop :: "string list" where
  "agent_hop_by_hop = [''Connection'', ''Proxy-Connection'', ''Keep-Alive'', ''Proxy-Authenticate'',
     ''Proxy-Authorization'', ''TE'', ''Trailer'', ''Transfer-Encoding'', ''Upgrade'']"

definition agent_withoutHopByHopHeaders :: "Header \<Rightarrow> Header" where
  "agent_withoutHopByHopHeaders headers =
     (let filtered = headers;
          filtered = fold (\<lambda>value filtered.
              fold (\<lambda>name filtered. header_Del (TrimSpace name) filtered) (SplitByte CHR '','' value) filtered)
            (header_Values filtered ''Connection'') filtered
      in fold header_Del agent_hop_by_hop filtered)"

section \<open>Headers of a public request\<close>

record HTTPRequest =
  req_Method :: string
  req_Host :: string
  req_RemoteAddr :: string
  req_RequestURI :: string
  req_Path :: string
  req_Header :: Header
  req_TLS :: bool
  req_ContentLength :: int

definition requestClientIP :: "HTTPRequest \<Rightarrow> string" where
  "requestClientIP r =
     (let clientIP = (case SplitHostPort (req_RemoteAddr r) of
                        None \<Rightarrow> req_RemoteAddr r | Some (host, _) \<Rightarrow> host)
      in if clientIP = [] then ''unknown'' else clientIP)"

definition forwarded_name :: "(string \<Rightarrow> string) \<Rightarrow> string \<Rightarrow> bool" where
  "forwarded_name uni name \<longleftrightarrow>
     HasPrefix (ToLower uni name) ''x-forwarded-'' \<or> EqualFold name ''Forwarded''"

definition publicRequestHeaders :: "(string \<Rightarrow> string) \<Rightarrow> HTTPRequest \<Rightarrow> string \<Rightarrow> Header" where
  "publicRequestHeaders uni r requestID =
     (let headers = withoutHopByHopHeaders (req_Header r);
          headers = map_purge (\<lambda>name _. forwarded_name uni name) headers;
          clientIP = requestClientIP r;
          headers = (if clientIP \<noteq> [] then header_Set ''X-Forwarded-For'' clientIP headers else headers);
          headers = header_Set ''X-Forwarded-Host'' (req_Host r) headers;
          headers = (if \<not> req_TLS r then header_Set ''X-Forwarded-Proto'' ''http'' headers
                     else header_Set ''X-Forwarded-Proto'' ''https'' headers)
      in header_Set ''X-Tunnel-Request-ID'' requestID headers)"

section \<open>What forwarding relies on\<close>

text \<open>The names a message declares to be for one connection only, and the fixed ones.\<close>

definition connection_names :: "Header \<Rightarrow> string set" where
  "connection_names h = CanonicalMIMEHeaderKey `
     (TrimSpace ` (\<Union>v \<in> set (header_Values h ''Connection''). set (SplitByte CHR '','' v))
      \<union> set hop_by_hop)"

locale header_filter =
  fixes strip :: "Header \<Rightarrow> Header"
  assumes map_of_strip: "map_of (strip h) = (map_of h) |` (- connection_names h)"
    and wf_strip: "wf_map h \<Longrightarrow> wf_map (strip h)"
begin

lemma strip_kept: "k \<notin> connection_names h \<Longrightarrow> map_of (strip h) k = map_of h k"
  by (simp add: map_of_strip)

lemma strip_fixed_names:
  assumes "n \<in> set hop_by_hop"
  shows "header_Values (strip h) n = []"
proof -
  have "CanonicalMIMEHeaderKey n \<in> connection_names h"
    using assms by (auto simp: connection_names_def)
  then show ?thesis by (simp add: header_Values_def map_of_strip)
qed

lemma strip_connection_names: "connection_names (strip h) = CanonicalMIMEHeaderKey ` set hop_by_hop"
proof -
  have "header_Values (strip h) ''Connection'' = []"
    by (rule strip_fixed_names) (simp add: hop_by_hop_def)
  then show ?thesis by (simp add: connection_names_def)
qed

text \<open>A second filter down the path, by either program, changes nothing more.\<close>

lemma strip_again:
  assumes "header_filter strip'"
  shows "map_of (strip' (strip h)) = map_of (strip h)"
proof -
  have "CanonicalMIMEHeaderKey ` set hop_by_hop \<subseteq> connection_names h"
    by (auto simp: connection_names_def)
  then show ?thesis
    by (auto simp: fun_eq_iff header_filter.map_of_strip [OF assms] strip_connection_names
        map_of_strip restrict_map_def)
qed

end

lemma map_of_fold_del:
  "map_of (fold (\<lambda>name h. header_Del (f name) h) names h)
    = (map_of h) |` (- (\<lambda>n. CanonicalMIMEHeaderKey (f n)) ` set names)"
  by (induction names arbitrary: h) (auto simp: fun_eq_iff restrict_map_def header_Del_def)

lemma wf_map_fold_del: "wf_map h \<Longrightarrow> wf_map (fold (\<lambda>name h. header_Del (f name) h) names h)"
  by (induction names arbitrary: h) (auto simp: header_Del_def)

lemma restrict_map_UNIV [simp]: "m |` UNIV = m"
  by (simp add: restrict_map_def)

lemma map_of_fold_values:
  "map_of (fold (\<lambda>value h. fold (\<lambda>name h. header_Del (TrimSpace name) h) (SplitByte CHR '','' value) h) vs h)
    = (map_of h) |` (- CanonicalMIMEHeaderKey ` TrimSpace ` (\<Union>v \<in> set vs. set (SplitByte CHR '','' v)))"
  by (induction vs arbitrary: h) (simp_all add: map_of_fold_del image_Un image_image)

lemma wf_map_fold_values:
  "wf_map h \<Longrightarrow>
     wf_map (fold (\<lambda>value h. fold (\<lambda>name h. header_Del (TrimSpace name) h) (SplitByte CHR '','' value) h) vs h)"
  by (induction vs arbitrary: h) (auto simp: wf_map_fold_del)

lemma agent_filter_eq: "agent_withoutHopByHopHeaders = withoutHopByHopHeaders"
  by (simp add: fun_eq_iff agent_withoutHopByHopHeaders_def withoutHopByHopHeaders_def
      agent_hop_by_hop_def hop_by_hop_def)

lemma gateway_filter_contract: "header_filter withoutHopByHopHeaders"
proof
  show "map_of (withoutHopByHopHeaders h) = (map_of h) |` (- connection_names h)" for h
    using map_of_fold_del [of "\<lambda>n. n" hop_by_hop]
    by (simp add: withoutHopByHopHeaders_def Let_def map_of_fold_values connection_names_def image_Un)
  show "wf_map h \<Longrightarrow> wf_map (withoutHopByHopHeaders h)" for h
    using wf_map_fold_del [of _ "\<lambda>n. n" hop_by_hop]
    by (simp add: withoutHopByHopHeaders_def Let_def wf_map_fold_values)
qed

interpretation gateway_filter: header_filter withoutHopByHopHeaders
  by (rule gateway_filter_contract)

interpretation agent_filter: header_filter agent_withoutHopByHopHeaders
  unfolding agent_filter_eq by (rule gateway_filter_contract)

section \<open>Properties\<close>

text \<open>
  both programs drop exactly the hop-by-hop headers of a message, that is the fixed list
  and every name its \<open>Connection\<close> header lists, and pass every other header with all its
  values; a message filtered by the gateway passes the agent's filter unchanged and the other
  way round.
\<close>

theorem hop_by_hop_headers_dropped:
  "map_of (withoutHopByHopHeaders h) k = (if k \<in> connection_names h then None else map_of h k)
   \<and> map_of (agent_withoutHopByHopHeaders h) k = (if k \<in> connection_names h then None else map_of h k)
   \<and> map_of (agent_withoutHopByHopHeaders (withoutHopByHopHeaders h)) k = map_of (withoutHopByHopHeaders h) k
   \<and> map_of (withoutHopByHopHeaders (agent_withoutHopByHopHeaders h)) k = map_of (agent_withoutHopByHopHeaders h) k"
  using gateway_filter.strip_again [OF agent_filter.header_filter_axioms, of h]
    agent_filter.strip_again [OF gateway_filter.header_filter_axioms, of h]
  by (simp add: gateway_filter.map_of_strip agent_filter.map_of_strip)

lemma requestClientIP_nonempty: "requestClientIP r \<noteq> []"
  by (simp add: requestClientIP_def Let_def)

lemma forwarding_names:
  "CanonicalMIMEHeaderKey ''X-Forwarded-For'' = ''X-Forwarded-For''"
  "CanonicalMIMEHeaderKey ''X-Forwarded-Host'' = ''X-Forwarded-Host''"
  "CanonicalMIMEHeaderKey ''X-Forwarded-Proto'' = ''X-Forwarded-Proto''"
  "CanonicalMIMEHeaderKey ''X-Tunnel-Request-ID'' = ''X-Tunnel-Request-Id''"
  by (code_simp, code_simp, code_simp, code_simp)

lemma map_of_publicRequestHeaders:
  assumes "wf_map (req_Header r)"
  shows "map_of (publicRequestHeaders uni r requestID) = (\<lambda>k.
    if k = ''X-Tunnel-Request-Id'' then Some [requestID]
    else if k = ''X-Forwarded-Proto'' then Some [if req_TLS r then ''https'' else ''http'']
    else if k = ''X-Forwarded-Host'' then Some [req_Host r]
    else if k = ''X-Forwarded-For'' then Some [requestClientIP r]
    else if k \<in> connection_names (req_Header r) \<or> forwarded_name uni k then None
    else map_of (req_Header r) k)"
proof -
  have "map_of (map_purge (\<lambda>name _. forwarded_name uni name) (withoutHopByHopHeaders (req_Header r))) k =
      (if k \<in> connection_names (req_Header r) \<or> forwarded_name uni k then None else map_of (req_Header r) k)" for k
    using gateway_filter.wf_strip [OF assms]
    by (simp add: map_of_purge gateway_filter.map_of_strip restrict_map_def split: option.splits)
  then show ?thesis
    by (simp add: publicRequestHeaders_def Let_def header_Set_def forwarding_names requestClientIP_nonempty
        fun_eq_iff)
qed

text \<open>
  C29: a public client cannot forge where its request came from. In what is forwarded, the
  \<open>X-Forwarded-\<close> headers and the request id are those the gateway sets from the connection,
  one value each; no other header with that prefix and no \<open>Forwarded\<close> header gets through,
  and every header that is neither of these nor hop-by-hop is forwarded unchanged.
\<close>

theorem forwarding_headers_not_forgeable:
  assumes "wf_map (req_Header r)" and "h = publicRequestHeaders uni r requestID"
  shows "header_Values h ''X-Forwarded-For'' = [requestClientIP r]
    \<and> header_Values h ''X-Forwarded-Host'' = [req_Host r]
    \<and> header_Values h ''X-Forwarded-Proto'' = [if req_TLS r then ''https'' else ''http'']
    \<and> header_Values h ''X-Tunnel-Request-ID'' = [requestID]
    \<and> (\<forall>k. forwarded_name uni k \<longrightarrow> k \<notin> {''X-Forwarded-For'', ''X-Forwarded-Host'', ''X-Forwarded-Proto''} \<longrightarrow>
         k \<noteq> ''X-Tunnel-Request-Id'' \<longrightarrow> map_of h k = None)
    \<and> (\<forall>k. \<not> forwarded_name uni k \<longrightarrow> k \<notin> connection_names (req_Header r) \<longrightarrow>
         k \<notin> {''X-Tunnel-Request-Id'', ''X-Forwarded-For'', ''X-Forwarded-Host'', ''X-Forwarded-Proto''} \<longrightarrow>
         map_of h k = map_of (req_Header r) k)"
  by (simp add: assms(2) header_Values_def forwarding_names map_of_publicRequestHeaders [OF assms(1)])

definition example_request :: HTTPRequest where
  "example_request = \<lparr>req_Method = ''GET'', req_Host = ''a.example.com'', req_RemoteAddr = ''192.0.2.1:5000'',
     req_RequestURI = ''/'', req_Path = ''/'', req_Header = [(''X-Forwarded-For'', [''10.0.0.1'']), (''Accept'', [''text/html''])],
     req_TLS = True, req_ContentLength = 0\<rparr>"

theorem forwarding_headers_not_forgeable_witness:
  "header_Values (publicRequestHeaders (\<lambda>s. s) example_request ''req_1'') ''X-Forwarded-For'' = [''192.0.2.1'']"
proof -
  have "wf_map (req_Header example_request)"
    by (simp add: example_request_def wf_map_def)
  moreover have "requestClientIP example_request = ''192.0.2.1''"
    by code_simp
  ultimately show ?thesis
    using forwarding_headers_not_forgeable [of example_request] by simp
qed

end
