(* ===== verification/Go_Json.thy ===== *)
theory Go_Json
  imports Proxy_Headers "HOL-Library.Char_ord" "HOL-Library.List_Lexorder" "HOL-Library.Multiset"
begin

text \<open>
  The part of \<^verbatim>\<open>encoding/json\<close> the control messages use, on bytes. \<open>json_print\<close> writes a
  value as \<open>json.Marshal\<close> does (HTML-safe escapes, the replacement character for bytes that are not UTF-8);
  \<open>json_parse\<close> reads a whole text as \<open>json.Unmarshal\<close> does (white space, every escape,
  surrogate pairs, the nesting limit). Decoding into Go structs works on the parsed value:
  names match exactly or else up to case, \<open>null\<close> leaves a field alone, unknown names are
  skipped, a value of the wrong type is an error.
\<close>

section \<open>Decimal numbers\<close>

definition digit :: "nat \<Rightarrow> char" where
  "digit n = char_of (48 + n)"

definition digit_value :: "char \<Rightarrow> nat" where
  "digit_value c = code c - 48"

fun show_nat :: "nat \<Rightarrow> string" where
  "show_nat n = (if n < 10 then [digit n] else show_nat (n div 10) @ [digit (n mod 10)])"

declare show_nat.simps [simp del]

definition show_int :: "int \<Rightarrow> string" where
  "show_int i = (if i < 0 then CHR ''-'' # show_nat (nat (- i)) else show_nat (nat i))"

definition digits_value :: "string \<Rightarrow> nat" where
  "digits_value s = foldl (\<lambda>n c. 10 * n + digit_value c) 0 s"

definition maxInt64 :: int where "maxInt64 = 9223372036854775807"

text \<open>\<open>strconv.ParseInt(s, 10, 64)\<close>\<close>

definition ParseInt64 :: "string \<Rightarrow> int option" where
  "ParseInt64 s =
     (let neg = (s \<noteq> [] \<and> hd s = CHR ''-'');
          ds = (if s \<noteq> [] \<and> hd s \<in> set ''+-'' then tl s else s);
          n = int (digits_value ds);
          i = (if neg then - n else n)
      in if ds \<noteq> [] \<and> list_all is_digit ds \<and> - maxInt64 - 1 \<le> i \<and> i \<le> maxInt64 then Some i else None)"

section \<open>Values and their text\<close>

datatype json = JNull | JBool bool | JNum string | JStr string
  | JArr "json list" | JObj "(string \<times> json) list"

definition hex_digit :: "nat \<Rightarrow> char" where
  "hex_digit n = (if n < 10 then char_of (48 + n) else char_of (87 + n))"

definition quote :: char where "quote = char_of (34 :: nat)"
definition backslash :: char where "backslash = char_of (92 :: nat)"

definition escape_ascii :: "char \<Rightarrow> string" where
  "escape_ascii c =
     (if c = quote \<or> c = backslash then [backslash, c]
      else if code c = 8 then [backslash, CHR ''b'']
      else if code c = 12 then [backslash, CHR ''f'']
      else if code c = 10 then [backslash, CHR ''n'']
      else if code c = 13 then [backslash, CHR ''r'']
      else if code c = 9 then [backslash, CHR ''t'']
      else if code c < 32 \<or> c \<in> set ''<>&''
      then [backslash, CHR ''u'', CHR ''0'', CHR ''0'', hex_digit (code c div 16), hex_digit (code c mod 16)]
      else [c])"

definition escape_rune :: "string \<Rightarrow> string" where
  "escape_rune r =
     (if map code r = [226, 128, 168] then backslash # ''u2028''
      else if map code r = [226, 128, 169] then backslash # ''u2029''
      else r)"

fun escape :: "string \<Rightarrow> string" where
  "escape [] = []"
| "escape (a # s) =
     (case rune_width (a # s) of
        0 \<Rightarrow> backslash # ''ufffd'' @ escape s
      | Suc 0 \<Rightarrow> escape_ascii a @ escape s
      | Suc n \<Rightarrow> escape_rune (a # take n s) @ escape (drop n s))"

definition print_string :: "string \<Rightarrow> string" where
  "print_string s = quote # escape s @ [quote]"

fun json_print :: "json \<Rightarrow> string"
  and print_elements :: "json list \<Rightarrow> string"
  and print_members :: "(string \<times> json) list \<Rightarrow> string" where
  "json_print JNull = ''null''"
| "json_print (JBool b) = (if b then ''true'' else ''false'')"
| "json_print (JNum s) = s"
| "json_print (JStr s) = print_string s"
| "json_print (JArr vs) = (case vs of [] \<Rightarrow> ''[]'' | _ \<Rightarrow> CHR ''['' # print_elements vs)"
| "json_print (JObj fs) = (case fs of [] \<Rightarrow> ''{}'' | _ \<Rightarrow> CHR ''{'' # print_members fs)"
| "print_elements [] = []"
| "print_elements (v # vs) = json_print v @ (case vs of [] \<Rightarrow> '']'' | _ \<Rightarrow> CHR '','' # print_elements vs)"
| "print_members [] = []"
| "print_members ((k, v) # fs) = print_string k @ CHR '':'' # json_print v
     @ (case fs of [] \<Rightarrow> ''}'' | _ \<Rightarrow> CHR '','' # print_members fs)"

section \<open>Reading a text\<close>

fun skip_ws :: "string \<Rightarrow> string" where
  "skip_ws [] = []"
| "skip_ws (c # s) = (if code c \<in> {32, 9, 13, 10} then skip_ws s else c # s)"

definition hex_value :: "char \<Rightarrow> nat option" where
  "hex_value c =
     (let n = code c in
      if 48 \<le> n \<and> n \<le> 57 then Some (n - 48)
      else if 97 \<le> n \<and> n \<le> 102 then Some (n - 87)
      else if 65 \<le> n \<and> n \<le> 70 then Some (n - 55)
      else None)"

fun hex4 :: "string \<Rightarrow> (nat \<times> string) option" where
  "hex4 (a # b # c # d # s) =
     (case (hex_value a, hex_value b, hex_value c, hex_value d) of
        (Some w, Some x, Some y, Some z) \<Rightarrow> Some (((w * 16 + x) * 16 + y) * 16 + z, s)
      | _ \<Rightarrow> None)"
| "hex4 _ = None"

definition utf8_encode :: "nat \<Rightarrow> string" where
  "utf8_encode r =
     (if r < 128 then [char_of r]
      else if r < 2048 then [char_of (192 + r div 64), char_of (128 + r mod 64)]
      else if r < 65536 then [char_of (224 + r div 4096), char_of (128 + r div 64 mod 64), char_of (128 + r mod 64)]
      else [char_of (240 + r div 262144), char_of (128 + r div 4096 mod 64),
            char_of (128 + r div 64 mod 64), char_of (128 + r mod 64)])"

definition simple_escape :: "char \<Rightarrow> char option" where
  "simple_escape c =
     (if c = quote \<or> c = backslash \<or> c = CHR ''/'' then Some c
      else if c = CHR ''b'' then Some (char_of (8 :: nat))
      else if c = CHR ''f'' then Some (char_of (12 :: nat))
      else if c = CHR ''n'' then Some (char_of (10 :: nat))
      else if c = CHR ''r'' then Some (char_of (13 :: nat))
      else if c = CHR ''t'' then Some (char_of (9 :: nat))
      else None)"

text \<open>The low half of a surrogate pair, if the text goes on with one.\<close>

definition low_surrogate :: "string \<Rightarrow> (nat \<times> string) option" where
  "low_surrogate s =
     (case s of
        a # b # t \<Rightarrow>
          if a = backslash \<and> b = CHR ''u'' then
            (case hex4 t of
               Some (r, t') \<Rightarrow> if 56320 \<le> r \<and> r < 57344 then Some (r, t') else None
             | None \<Rightarrow> None)
          else None
      | _ \<Rightarrow> None)"

datatype str_tok = StrEnd string | StrPart string string | StrBad

definition unicode_escape :: "string \<Rightarrow> str_tok" where
  "unicode_escape s =
     (case hex4 s of
        None \<Rightarrow> StrBad
      | Some (r, t) \<Rightarrow>
          if 55296 \<le> r \<and> r < 57344 then
            (if r < 56320 then
               (case low_surrogate t of
                  Some (r', t') \<Rightarrow> StrPart (utf8_encode (65536 + (r - 55296) * 1024 + (r' - 56320))) t'
                | None \<Rightarrow> StrPart replacement_char t)
             else StrPart replacement_char t)
          else StrPart (utf8_encode r) t)"

definition next_tok :: "string \<Rightarrow> str_tok" where
  "next_tok s =
     (case s of
        [] \<Rightarrow> StrBad
      | c # t \<Rightarrow>
          if c = quote then StrEnd t
          else if c = backslash then
            (case t of
               [] \<Rightarrow> StrBad
             | e # u \<Rightarrow>
                 if e = CHR ''u'' then unicode_escape u
                 else (case simple_escape e of Some x \<Rightarrow> StrPart [x] u | None \<Rightarrow> StrBad))
          else if code c < 32 then StrBad
          else (case rune_width (c # t) of
                  0 \<Rightarrow> StrPart replacement_char t
                | Suc n \<Rightarrow> StrPart (c # take n t) (drop n t)))"

lemma hex4_length: "hex4 s = Some (r, t) \<Longrightarrow> length t < length s"
  by (cases s rule: hex4.cases) (auto split: option.splits)

lemma low_surrogate_length: "low_surrogate s = Some (r, t) \<Longrightarrow> length t < length s"
  by (auto simp: low_surrogate_def dest: hex4_length split: list.splits if_splits option.splits)

lemma unicode_escape_length: "unicode_escape s = StrPart p t \<Longrightarrow> length t < length s"
  by (auto simp: unicode_escape_def dest!: hex4_length low_surrogate_length split: if_splits option.splits)

lemma next_tok_length: "next_tok s = StrPart p t \<Longrightarrow> length t < length s"
  by (auto simp: next_tok_def dest!: unicode_escape_length split: list.splits if_splits option.splits nat.splits)

text \<open>The rest of a string literal, after the opening quote: its value and what follows.\<close>

function parse_string :: "string \<Rightarrow> (string \<times> string) option" where
  "parse_string s =
     (case next_tok s of
        StrBad \<Rightarrow> None
      | StrEnd t \<Rightarrow> Some ([], t)
      | StrPart p t \<Rightarrow> (case parse_string t of Some (q, u) \<Rightarrow> Some (p @ q, u) | None \<Rightarrow> None))"
  by pat_completeness auto
termination
  by (relation "measure length") (auto intro: next_tok_length)

declare parse_string.simps [simp del]

fun span_digits :: "string \<Rightarrow> string \<times> string" where
  "span_digits [] = ([], [])"
| "span_digits (c # s) =
     (if is_digit c then (let (ds, t) = span_digits s in (c # ds, t)) else ([], c # s))"

text \<open>A number literal: sign, integer part without leading zeros, fraction, exponent.\<close>

definition number_int :: "string \<Rightarrow> (string \<times> string) option" where
  "number_int s =
     (case s of
        [] \<Rightarrow> None
      | c # t \<Rightarrow> if c = CHR ''0'' then Some ([c], t)
                else if is_digit c then Some (span_digits s) else None)"

definition number_frac :: "string \<Rightarrow> (string \<times> string) option" where
  "number_frac s =
     (case s of
        [] \<Rightarrow> Some ([], s)
      | c # t \<Rightarrow> if c = CHR ''.'' then
                  (case span_digits t of ([], _) \<Rightarrow> None | (ds, u) \<Rightarrow> Some (c # ds, u))
                else Some ([], s))"

definition number_exp :: "string \<Rightarrow> (string \<times> string) option" where
  "number_exp s =
     (case s of
        [] \<Rightarrow> Some ([], s)
      | c # t \<Rightarrow> if c \<in> set ''eE'' then
                  (let (sign, t') = (case t of x # u \<Rightarrow> if x \<in> set ''+-'' then ([x], u) else ([], t) | [] \<Rightarrow> ([], t))
                   in (case span_digits t' of ([], _) \<Rightarrow> None | (ds, u) \<Rightarrow> Some (c # sign @ ds, u)))
                else Some ([], s))"

definition parse_number :: "string \<Rightarrow> (json \<times> string) option" where
  "parse_number s =
     (let (sign, t) = (case s of c # u \<Rightarrow> if c = CHR ''-'' then ([c], u) else ([], s) | [] \<Rightarrow> ([], s))
      in (case number_int t of None \<Rightarrow> None | Some (i, u) \<Rightarrow>
           (case number_frac u of None \<Rightarrow> None | Some (f, v) \<Rightarrow>
             (case number_exp v of None \<Rightarrow> None | Some (e, w) \<Rightarrow> Some (JNum (sign @ i @ f @ e), w)))))"

definition parse_literal :: "string \<Rightarrow> (json \<times> string) option" where
  "parse_literal s =
     (if HasPrefix s ''null'' then Some (JNull, drop 4 s)
      else if HasPrefix s ''true'' then Some (JBool True, drop 4 s)
      else if HasPrefix s ''false'' then Some (JBool False, drop 5 s)
      else parse_number s)"

text \<open>
  The first argument is fuel, the second how many more levels of nesting are allowed. Two
  calls at most consume one character, so twice the length of the text and two is enough.
\<close>

fun json_value :: "nat \<Rightarrow> nat \<Rightarrow> string \<Rightarrow> (json \<times> string) option"
  and json_elements :: "nat \<Rightarrow> nat \<Rightarrow> string \<Rightarrow> (json list \<times> string) option"
  and json_members :: "nat \<Rightarrow> nat \<Rightarrow> string \<Rightarrow> ((string \<times> json) list \<times> string) option" where
  "json_value 0 d s = None"
| "json_value (Suc n) d s =
     (case skip_ws s of
        [] \<Rightarrow> None
      | c # t \<Rightarrow>
          if c = CHR ''['' then
            (if d = 0 then None
             else if skip_ws t \<noteq> [] \<and> hd (skip_ws t) = CHR '']'' then Some (JArr [], tl (skip_ws t))
             else map_option (apfst JArr) (json_elements n (d - 1) t))
          else if c = CHR ''{'' then
            (if d = 0 then None
             else if skip_ws t \<noteq> [] \<and> hd (skip_ws t) = CHR ''}'' then Some (JObj [], tl (skip_ws t))
             else map_option (apfst JObj) (json_members n (d - 1) t))
          else if c = quote then map_option (apfst JStr) (parse_string t)
          else parse_literal (c # t))"
| "json_elements 0 d s = None"
| "json_elements (Suc n) d s =
     (case json_value n d s of
        None \<Rightarrow> None
      | Some (v, t) \<Rightarrow>
          (case skip_ws t of
             [] \<Rightarrow> None
           | c # u \<Rightarrow> if c = CHR '','' then map_option (apfst (\<lambda>vs. v # vs)) (json_elements n d u)
                     else if c = CHR '']'' then Some ([v], u) else None))"
| "json_members 0 d s = None"
| "json_members (Suc n) d s =
     (case skip_ws s of
        [] \<Rightarrow> None
      | q # t \<Rightarrow>
          if q = quote then
            (case parse_string t of
               None \<Rightarrow> None
             | Some (k, u) \<Rightarrow>
                 (case skip_ws u of
                    [] \<Rightarrow> None
                  | p # w \<Rightarrow>
                      if p = CHR '':'' then
                        (case json_value n d w of
                           None \<Rightarrow> None
                         | Some (v, x) \<Rightarrow>
                             (case skip_ws x of
                                [] \<Rightarrow> None
                              | c # y \<Rightarrow>
                                  if c = CHR '','' then map_option (apfst (\<lambda>fs. (k, v) # fs)) (json_members n d y)
                                  else if c = CHR ''}'' then Some ([(k, v)], y) else None))
                      else None))
          else None)"

definition maxNestingDepth :: nat where "maxNestingDepth = 10000"

definition json_parse :: "string \<Rightarrow> json option" where
  "json_parse s =
     (case json_value (2 * length s + 2) maxNestingDepth s of
        Some (v, t) \<Rightarrow> if skip_ws t = [] then Some v else None
      | None \<Rightarrow> None)"

section \<open>Numbers round trip\<close>

lemma code_digit [simp]: "n < 10 \<Longrightarrow> code (digit n) = 48 + n"
  by (simp add: digit_def)

lemma is_digit_digit [simp]: "n < 10 \<Longrightarrow> is_digit (digit n)"
  by (simp add: is_digit_def)

lemma digits_value_snoc: "digits_value (s @ [c]) = 10 * digits_value s + digit_value c"
  by (simp add: digits_value_def)

lemma show_nat_digits: "list_all is_digit (show_nat n)"
  by (induction n rule: show_nat.induct) (subst show_nat.simps, auto)

lemma show_nat_nonempty [simp]: "show_nat n \<noteq> []"
  by (subst show_nat.simps) auto

lemma digits_value_show_nat [simp]: "digits_value (show_nat n) = n"
proof (induction n rule: show_nat.induct)
  case (1 n)
  show ?case
  proof (cases "n < 10")
    case True
    then show ?thesis
      by (subst show_nat.simps) (simp add: digits_value_def digit_value_def)
  next
    case False
    with 1 show ?thesis
      by (subst show_nat.simps) (simp add: digits_value_snoc digit_value_def)
  qed
qed

lemma show_nat_leading: "0 < n \<Longrightarrow> hd (show_nat n) \<noteq> CHR ''0''"
proof (induction n rule: show_nat.induct)
  case (1 n)
  show ?case
  proof (cases "n < 10")
    case True
    have "digit n \<noteq> CHR ''0''"
    proof
      assume "digit n = CHR ''0''"
      then have "code (digit n) = code CHR ''0''" by (rule arg_cong)
      with True 1(2) show False by simp
    qed
    with True show ?thesis by (subst show_nat.simps) simp
  next
    case False
    with 1 show ?thesis by (subst show_nat.simps) simp
  qed
qed

lemma show_nat_zero: "show_nat 0 = ''0''"
  by code_simp

lemma ParseInt64_show_int:
  assumes "- maxInt64 - 1 \<le> i" "i \<le> maxInt64"
  shows "ParseInt64 (show_int i) = Some i"
proof -
  have "c \<in> set ''+-'' \<Longrightarrow> \<not> is_digit c" for c
    by (auto simp: is_digit_def)
  moreover have "is_digit (hd (show_nat n))" for n
    using show_nat_digits [of n] by (cases "show_nat n") auto
  ultimately have "hd (show_nat n) \<notin> set ''+-''" for n
    by metis
  then have "hd (show_nat n) \<noteq> CHR ''-''" "hd (show_nat n) \<noteq> CHR ''+''" for n
    by simp_all
  with assms show ?thesis
    by (auto simp: ParseInt64_def show_int_def show_nat_digits Let_def)
qed

definition ends_number :: "string \<Rightarrow> bool" where
  "ends_number s \<longleftrightarrow> s = [] \<or> \<not> is_digit (hd s) \<and> hd s \<notin> set ''.eE''"

lemma span_digits_append:
  "list_all is_digit ds \<Longrightarrow> s = [] \<or> \<not> is_digit (hd s) \<Longrightarrow> span_digits (ds @ s) = (ds, s)"
proof (induction ds)
  case Nil
  then show ?case by (cases s) auto
qed auto

lemma number_int_show_nat:
  assumes "ends_number s"
  shows "number_int (show_nat n @ s) = Some (show_nat n, s)"
proof (cases n)
  case 0
  then show ?thesis by (simp add: number_int_def show_nat_zero)
next
  case (Suc m)
  obtain c ds where n: "show_nat n = c # ds"
    by (cases "show_nat n") auto
  have "c \<noteq> CHR ''0''" "is_digit c"
    using show_nat_leading [of n] show_nat_digits [of n] unfolding n by (auto simp: Suc)
  moreover have "span_digits (show_nat n @ s) = (show_nat n, s)"
    using assms by (intro span_digits_append show_nat_digits) (auto simp: ends_number_def)
  ultimately show ?thesis
    by (simp add: number_int_def n)
qed

lemma number_tail:
  "ends_number s \<Longrightarrow> number_frac s = Some ([], s)" "ends_number s \<Longrightarrow> number_exp s = Some ([], s)"
  by (auto simp: number_frac_def number_exp_def ends_number_def split: list.splits)

lemma show_nat_hd: "is_digit (hd (show_nat n))"
  using show_nat_digits [of n] by (cases "show_nat n") auto

lemma parse_number_show_int:
  assumes "ends_number s"
  shows "parse_number (show_int i @ s) = Some (JNum (show_int i), s)"
proof (cases "i < 0")
  case True
  then show ?thesis
    using number_int_show_nat [OF assms] number_tail [OF assms]
    by (simp add: parse_number_def show_int_def)
next
  case False
  obtain c ds where n: "show_nat (nat i) = c # ds"
    by (cases "show_nat (nat i)") auto
  have "c \<noteq> CHR ''-''"
    using show_nat_hd [of "nat i"] by (auto simp: n is_digit_def)
  with False show ?thesis
    using number_int_show_nat [OF assms, of "nat i"] number_tail [OF assms]
    by (simp add: parse_number_def show_int_def n)
qed

section \<open>Strings round trip\<close>

lemma code_quote [simp]: "code quote = 34" "code backslash = 92"
  by (simp_all add: quote_def backslash_def)

lemma code_neq: "code a \<noteq> code b \<Longrightarrow> a \<noteq> b"
  by auto

lemma hex_value_hex_digit: "n < 16 \<Longrightarrow> hex_value (hex_digit n) = Some n"
  by (auto simp: hex_value_def hex_digit_def Let_def)

lemma next_tok_unicode: "next_tok (backslash # CHR ''u'' # s) = unicode_escape s"
  by (simp add: next_tok_def code_neq)

lemma backslash_neq_quote [simp]: "backslash \<noteq> quote" "quote \<noteq> backslash"
  by (simp_all add: code_neq)

lemma next_tok_simple:
  "simple_escape e = Some x \<Longrightarrow> e \<noteq> CHR ''u'' \<Longrightarrow> next_tok (backslash # e # s) = StrPart [x] s"
  by (simp add: next_tok_def)

lemma quote_neq_letters [simp]:
  "quote \<noteq> CHR ''u''" "backslash \<noteq> CHR ''u''" "quote \<noteq> CHR ''b''" "backslash \<noteq> CHR ''b''"
  "quote \<noteq> CHR ''f''" "backslash \<noteq> CHR ''f''" "quote \<noteq> CHR ''n''" "backslash \<noteq> CHR ''n''"
  "quote \<noteq> CHR '']''" "quote \<noteq> CHR ''}''" "quote \<noteq> CHR ''[''" "quote \<noteq> CHR ''{''" "quote \<noteq> CHR ''-''"
  "quote \<noteq> CHR ''r''" "backslash \<noteq> CHR ''r''" "quote \<noteq> CHR ''t''" "backslash \<noteq> CHR ''t''"
  by (rule code_neq, simp)+

lemmas letters_neq_quote [simp] = quote_neq_letters [symmetric]

lemma char_of_code: "code c = n \<Longrightarrow> c = char_of n"
  by (metis char_of_char)

lemma next_tok_escape_ascii:
  assumes "code a < 128"
  shows "next_tok (escape_ascii a @ s) = StrPart [a] s"
proof -
  consider (self) "a = quote \<or> a = backslash"
    | (named) "a \<noteq> quote" "a \<noteq> backslash" "code a \<in> {8, 12, 10, 13, 9}"
    | (hex) "a \<noteq> quote" "a \<noteq> backslash" "code a \<notin> {8, 12, 10, 13, 9}" "code a < 32 \<or> a \<in> set ''<>&''"
    | (plain) "a \<noteq> quote" "a \<noteq> backslash" "32 \<le> code a" "a \<notin> set ''<>&''"
    by fastforce
  then show ?thesis
  proof cases
    case self
    then have "simple_escape a = Some a" "a \<noteq> CHR ''u''"
      by (auto simp: simple_escape_def)
    with self show ?thesis
      by (simp add: escape_ascii_def next_tok_simple)
  next
    case named
    then show ?thesis
      by (auto simp: escape_ascii_def next_tok_simple simple_escape_def dest: char_of_code)
  next
    case hex
    have "(code a div 16) * 16 + code a mod 16 = code a" by simp
    moreover have "hex_value CHR ''0'' = Some 0" by (simp add: hex_value_def)
    ultimately show ?thesis
      using hex assms
      by (simp add: escape_ascii_def next_tok_unicode unicode_escape_def hex_value_hex_digit utf8_encode_def)
  next
    case plain
    with assms rune_width_ascii [of a s] show ?thesis
      by (simp add: escape_ascii_def next_tok_def)
  qed
qed

lemma next_tok_replacement: "next_tok (backslash # ''ufffd'' @ s) = StrPart replacement_char s"
proof -
  have "hex4 (''fffd'' @ s) = Some (65533, s)"
    by (simp add: hex_value_def)
  moreover have "utf8_encode 65533 = replacement_char"
    using char_of_code [of "CHR 0xEF" 239] char_of_code [of "CHR 0xBF" 191] char_of_code [of "CHR 0xBD" 189]
    by (simp add: utf8_encode_def replacement_char_def)
  ultimately show ?thesis
    by (simp add: next_tok_unicode unicode_escape_def del: hex4.simps)
qed

lemma next_tok_escape_rune:
  assumes "rune_width (a # s) = Suc (Suc n)"
  shows "next_tok (escape_rune (a # take (Suc n) s) @ t) = StrPart (a # take (Suc n) s) t"
proof (cases "escape_rune (a # take (Suc n) s) = a # take (Suc n) s")
  case True
  have a: "194 \<le> code a"
    using assms by (rule rune_width_multi)
  then have "a \<noteq> quote" "a \<noteq> backslash" "\<not> code a < 32"
    by (auto intro: code_neq)
  moreover have "rune_width (a # take (Suc n) s @ t) = Suc (Suc n)"
    using rune_width_take [OF assms, of t] by simp
  moreover have "length (take (Suc n) s) = Suc n"
    using rune_width_le [of "a # s"] assms by simp
  ultimately show ?thesis
    by (simp add: True next_tok_def del: take_Suc)
next
  case False
  have sep: "unicode_escape (''2028'' @ t) = StrPart (map char_of [226 :: nat, 128, 168]) t"
    "unicode_escape (''2029'' @ t) = StrPart (map char_of [226 :: nat, 128, 169]) t"
    by (simp_all add: unicode_escape_def hex_value_def utf8_encode_def)
  show ?thesis
    using False sep
    by (auto simp: escape_rune_def next_tok_unicode dest!: char_of_code simp del: take_Suc split: if_splits)
qed

lemma parse_string_step:
  "next_tok s = StrPart p t \<Longrightarrow> parse_string s = map_option (apfst (\<lambda>q. p @ q)) (parse_string t)"
  by (subst parse_string.simps) (auto split: option.splits)

lemma parse_string_escape: "parse_string (escape s @ quote # t) = Some (utf8_coerce s, t)"
proof (induction s rule: escape.induct)
  case 1
  show ?case
    by (subst parse_string.simps) (simp add: next_tok_def)
next
  case (2 a s)
  show ?case
  proof (cases "rune_width (a # s)")
    case 0
    with 2(1) show ?thesis
      using parse_string_step [OF next_tok_replacement, of "escape s @ quote # t"] by simp
  next
    case (Suc n)
    show ?thesis
    proof (cases n)
      case 0
      with Suc have "code a < 128"
        using rune_width_ascii by simp
      with 2(2) Suc 0 show ?thesis
        using parse_string_step [OF next_tok_escape_ascii, of a "escape s @ quote # t"] by simp
    next
      case (Suc m)
      with \<open>rune_width (a # s) = Suc n\<close> have w: "rune_width (a # s) = Suc (Suc m)" by simp
      show ?thesis
        using parse_string_step [OF next_tok_escape_rune [OF w], of "escape (drop (Suc m) s) @ quote # t"]
          2(3) [OF w refl] by (simp add: w del: rune_width.simps take_Suc drop_Suc)
    qed
  qed
qed

section \<open>Values round trip\<close>

text \<open>A value as it comes out of a text: every string made valid UTF-8.\<close>

fun json_coerce :: "json \<Rightarrow> json" where
  "json_coerce (JStr s) = JStr (utf8_coerce s)"
| "json_coerce (JArr vs) = JArr (map json_coerce vs)"
| "json_coerce (JObj fs) = JObj (map (\<lambda>(k, v). (utf8_coerce k, json_coerce v)) fs)"
| "json_coerce v = v"

text \<open>Numbers are integers; nesting is at most \<open>d\<close> deep.\<close>

fun json_ok :: "nat \<Rightarrow> json \<Rightarrow> bool" where
  "json_ok d (JNum s) \<longleftrightarrow> (\<exists>i. s = show_int i)"
| "json_ok d (JArr vs) \<longleftrightarrow> 0 < d \<and> (\<forall>v \<in> set vs. json_ok (d - 1) v)"
| "json_ok d (JObj fs) \<longleftrightarrow> 0 < d \<and> (\<forall>f \<in> set fs. json_ok (d - 1) (snd f))"
| "json_ok d _ \<longleftrightarrow> True"

fun need :: "json \<Rightarrow> nat"
  and need_elements :: "json list \<Rightarrow> nat"
  and need_members :: "(string \<times> json) list \<Rightarrow> nat" where
  "need (JArr vs) = Suc (need_elements vs)"
| "need (JObj fs) = Suc (need_members fs)"
| "need _ = 1"
| "need_elements [] = 0"
| "need_elements (v # vs) = Suc (need v + need_elements vs)"
| "need_members [] = 0"
| "need_members ((k, v) # fs) = Suc (need v + need_members fs)"

lemma show_int_start: "\<exists>c t. show_int i = c # t \<and> (is_digit c \<or> c = CHR ''-'')"
  using show_nat_hd [of "nat i"] by (cases "show_nat (nat i)") (auto simp: show_int_def)

definition value_start :: "char \<Rightarrow> bool" where
  "value_start c \<longleftrightarrow> is_digit c \<or> c \<in> set ''-ntf[{'' \<or> c = quote"

lemma json_print_start:
  assumes "json_ok d j"
  shows "\<exists>c t. json_print j = c # t \<and> value_start c"
proof (cases j)
  case (JNum s)
  with assms show ?thesis
    using show_int_start by (fastforce simp: value_start_def)
qed (auto simp: value_start_def print_string_def split: list.splits)

lemma value_startD:
  "value_start c \<Longrightarrow> code c \<notin> {32, 9, 13, 10} \<and> c \<noteq> CHR '']'' \<and> c \<noteq> CHR ''}''"
  by (auto simp: value_start_def is_digit_def)

lemma skip_ws_start: "value_start c \<Longrightarrow> skip_ws (c # s) = c # s"
  using value_startD [of c] by auto

lemma skip_ws_punct [simp]:
  "skip_ws (CHR '','' # s) = CHR '','' # s" "skip_ws (CHR '']'' # s) = CHR '']'' # s"
  "skip_ws (CHR ''}'' # s) = CHR ''}'' # s" "skip_ws (CHR '':'' # s) = CHR '':'' # s"
  "skip_ws (quote # s) = quote # s"
  by auto

lemma ends_number_punct [simp]: "ends_number (CHR '','' # s)" "ends_number (CHR '']'' # s)" "ends_number (CHR ''}'' # s)"
  by (auto simp: ends_number_def is_digit_def)

lemma need_le:
  "json_ok d j \<Longrightarrow> need j \<le> length (json_print j)"
  "(\<forall>v \<in> set vs. json_ok d v) \<Longrightarrow> need_elements vs \<le> length (print_elements vs)"
  "(\<forall>f \<in> set fs. json_ok d (snd f)) \<Longrightarrow> need_members fs \<le> length (print_members fs)"
proof (induction j and vs and fs arbitrary: d and d and d rule: json_print_print_elements_print_members.induct)
  case (3 s)
  then obtain i where "s = show_int i" by auto
  then show ?case using show_int_start [of i] by auto
next
  case (5 vs)
  then show ?case by (cases vs) fastforce+
next
  case (6 fs)
  then show ?case by (cases fs) fastforce+
next
  case (8 v vs)
  then show ?case by (cases vs) fastforce+
next
  case (10 k v fs)
  then show ?case by (cases fs) (fastforce simp: print_string_def)+
qed (auto simp: print_string_def)

lemma parse_literal_show_int:
  assumes "ends_number s"
  shows "parse_literal (show_int i @ s) = Some (JNum (show_int i), s)"
proof -
  obtain c t where c: "show_int i = c # t" "is_digit c \<or> c = CHR ''-''"
    using show_int_start by blast
  then have "\<not> HasPrefix (show_int i @ s) ''null''" "\<not> HasPrefix (show_int i @ s) ''true''"
    "\<not> HasPrefix (show_int i @ s) ''false''"
    by (auto simp: HasPrefix_def is_digit_def)
  then show ?thesis
    using parse_number_show_int [OF assms] by (simp add: parse_literal_def)
qed

lemma parse_literal_words:
  "parse_literal (''null'' @ s) = Some (JNull, s)" "parse_literal (''true'' @ s) = Some (JBool True, s)"
  "parse_literal (''false'' @ s) = Some (JBool False, s)"
  by (auto simp: parse_literal_def HasPrefix_def)

lemma json_value_start:
  "value_start c \<Longrightarrow> c \<notin> set ''[{'' \<Longrightarrow> c \<noteq> quote \<Longrightarrow>
     json_value (Suc n) d (c # s) = parse_literal (c # s)"
  by (simp add: skip_ws_start del: skip_ws.simps)

lemma json_value_string:
  "json_value (Suc n) d (print_string s @ t) = Some (JStr (utf8_coerce s), t)"
  by (simp add: print_string_def parse_string_escape)

lemma json_roundtrip:
  "json_ok d j \<Longrightarrow> need j \<le> n \<Longrightarrow> ends_number t \<Longrightarrow>
     json_value n d (json_print j @ t) = Some (json_coerce j, t)"
  "(\<forall>v \<in> set vs. json_ok d v) \<Longrightarrow> vs \<noteq> [] \<Longrightarrow> need_elements vs \<le> n \<Longrightarrow>
     json_elements n d (print_elements vs @ t) = Some (map json_coerce vs, t)"
  "(\<forall>f \<in> set fs. json_ok d (snd f)) \<Longrightarrow> fs \<noteq> [] \<Longrightarrow> need_members fs \<le> n \<Longrightarrow>
     json_members n d (print_members fs @ t) =
       Some (map (\<lambda>(k, v). (utf8_coerce k, json_coerce v)) fs, t)"
proof (induction j and vs and fs arbitrary: n d t and n d t and n d t
    rule: json_print_print_elements_print_members.induct)
  case 1
  then show ?case
    using parse_literal_words(1) [of t] json_value_start [of "CHR ''n''" "n - 1" d]
    by (cases n) (simp_all add: value_start_def)
next
  case (2 b)
  then show ?case
    using parse_literal_words(2,3) [of t] json_value_start [of "CHR ''t''" "n - 1" d] json_value_start [of "CHR ''f''" "n - 1" d]
    by (cases n) (simp_all add: value_start_def)
next
  case (3 s)
  then obtain i where i: "s = show_int i" by auto
  obtain c u where c: "show_int i = c # u" "is_digit c \<or> c = CHR ''-''"
    using show_int_start by blast
  then have "value_start c" "c \<notin> set ''[{''" "c \<noteq> quote"
    by (auto simp: value_start_def is_digit_def)
  then show ?case
    using 3(2,3) parse_literal_show_int [of t i] json_value_start [of c "n - 1" d "u @ t"]
    by (cases n) (simp_all add: i c)
next
  case (4 s)
  then show ?case using json_value_string [of "n - 1" d s t] by (cases n) simp_all
next
  case (5 vs)
  then obtain m where n: "n = Suc m" by (cases n) auto
  show ?case
  proof (cases vs)
    case Nil
    with 5(2) n show ?thesis by simp
  next
    case (Cons v ws)
    obtain c u where c: "json_print v = c # u" "value_start c"
      using json_print_start 5(2) Cons by fastforce
    then have "skip_ws (print_elements vs @ t) \<noteq> []" "hd (skip_ws (print_elements vs @ t)) \<noteq> CHR '']''"
      using skip_ws_start value_startD by (auto simp: Cons)
    with 5 Cons n show ?thesis by (simp del: print_elements.simps)
  qed
next
  case (6 fs)
  then obtain m where n: "n = Suc m" by (cases n) auto
  show ?case
  proof (cases fs)
    case Nil
    with 6(2) n show ?thesis by simp
  next
    case (Cons f gs)
    have "skip_ws (print_members fs @ t) \<noteq> []" "hd (skip_ws (print_members fs @ t)) \<noteq> CHR ''}''"
      by (cases f; simp add: Cons print_string_def)+
    with 6 Cons n show ?thesis by (simp del: print_members.simps)
  qed
next
  case 7
  then show ?case by simp
next
  case (8 v vs)
  then obtain m where n: "n = Suc m" by (cases n) auto
  have v: "json_value m d (json_print v @ u) = Some (json_coerce v, u)" if "ends_number u" for u
    using 8(1) [of d m u] 8(3,5) n that by simp
  show ?case
  proof (cases vs)
    case Nil
    with v n show ?thesis by simp
  next
    case (Cons w ws)
    have "json_elements m d (print_elements vs @ t) = Some (map json_coerce vs, t)"
      using 8 Cons n by simp
    with v n Cons show ?thesis by (simp del: print_elements.simps(2) add: print_elements.simps(2) [of v])
  qed
next
  case 9
  then show ?case by simp
next
  case (10 k v fs)
  then obtain m where n: "n = Suc m" by (cases n) auto
  have v: "json_value m d (json_print v @ u) = Some (json_coerce v, u)" if "ends_number u" for u
    using 10(1) [of d m u] 10(3,5) n that by simp
  show ?case
  proof (cases fs)
    case Nil
    with v n show ?thesis by (simp add: print_string_def parse_string_escape)
  next
    case (Cons f gs)
    have "json_members m d (print_members fs @ t) = Some (map (\<lambda>(k, v). (utf8_coerce k, json_coerce v)) fs, t)"
      using 10 Cons n by simp
    with v n Cons show ?thesis
      by (simp del: print_members.simps(2) add: print_members.simps(2) [of k v] print_string_def parse_string_escape)
  qed
qed

text \<open>The fuel of \<^const>\<open>json_parse\<close> is enough: with more of it the result is the same.\<close>

lemma skip_ws_length: "length (skip_ws s) \<le> length s"
  by (induction s) auto

lemma skip_ws_Cons: "skip_ws s = c # t \<Longrightarrow> length t < length s"
  using skip_ws_length [of s] by simp

lemma parse_string_length: "parse_string s = Some (q, t) \<Longrightarrow> length t < length s"
proof (induction s arbitrary: q t rule: parse_string.induct)
  case (1 s)
  show ?case
  proof (cases "next_tok s")
    case (StrEnd u)
    then have "length u < length s"
      by (auto simp: next_tok_def unicode_escape_def split: list.splits if_splits option.splits nat.splits)
    with 1(2) StrEnd show ?thesis by (subst (asm) parse_string.simps) simp
  next
    case (StrPart p u)
    then obtain q' where "parse_string u = Some (q', t)"
      using 1(2) by (subst (asm) parse_string.simps) (auto split: option.splits)
    then show ?thesis
      using 1(1) [OF StrPart] next_tok_length [OF StrPart] by fastforce
  next
    case StrBad
    with 1(2) show ?thesis by (subst (asm) parse_string.simps) simp
  qed
qed

lemma span_digits_length: "length (snd (span_digits s)) \<le> length s"
  by (induction s) (auto simp: case_prod_unfold Let_def)

lemma parse_number_length:
  assumes "parse_number s = Some (v, t)"
  shows "length t < length s"
proof -
  have span: "span_digits x = (y, z) \<Longrightarrow> length z \<le> length x" for x y z
    using span_digits_length [of x] by simp
  have int: "number_int x = Some (y, z) \<Longrightarrow> length z < length x" for x y z
    by (auto simp: number_int_def case_prod_unfold Let_def dest: span
        intro: le_imp_less_Suc span_digits_length split: list.splits if_splits)
  have frac: "number_frac x = Some (y, z) \<Longrightarrow> length z \<le> length x" for x y z
    by (auto simp: number_frac_def dest!: span split: list.splits if_splits prod.splits)
  have exp: "number_exp x = Some (y, z) \<Longrightarrow> length z \<le> length x" for x y z
    by (auto simp: number_exp_def Let_def dest!: span split: list.splits if_splits prod.splits)
  show ?thesis
    using assms
    by (fastforce simp: parse_number_def dest!: int frac exp split: list.splits if_splits option.splits prod.splits)
qed

lemma parse_literal_length:
  assumes "parse_literal s = Some (v, t)"
  shows "length t < length s"
proof -
  consider "HasPrefix s ''null''" "t = drop 4 s" | "HasPrefix s ''true''" "t = drop 4 s"
    | "HasPrefix s ''false''" "t = drop 5 s" | "parse_number s = Some (v, t)"
    using assms by (auto simp: parse_literal_def split: if_splits)
  then show ?thesis
    by cases (auto simp: HasPrefix_def dest: parse_number_length)
qed

lemma json_value_length:
  "json_value n d s = Some (v, t) \<Longrightarrow> length t < length s"
  "json_elements n d s = Some (vs, t) \<Longrightarrow> length t < length s"
  "json_members n d s = Some (fs, t) \<Longrightarrow> length t < length s"
proof (induction n d s and n d s and n d s arbitrary: v t and vs t and fs t
    rule: json_value_json_elements_json_members.induct)
  case (2 n d s)
  then obtain c u where c: "skip_ws s = c # u"
    by (auto split: list.splits)
  note u = skip_ws_Cons [OF c]
  have "length (tl (skip_ws u)) \<le> length u"
    using skip_ws_length [of u] by simp
  then show ?case
    using 2 c u
    by (fastforce dest: parse_string_length parse_literal_length split: if_splits)
next
  case (4 n d s)
  then obtain w u where w: "json_value n d s = Some (w, u)"
    by (auto split: option.splits)
  then obtain c x where c: "skip_ws u = c # x"
    using 4(3) by (auto split: list.splits)
  show ?case
    using 4 w c skip_ws_Cons [OF c] by (fastforce split: if_splits)
next
  case (6 n d s)
  obtain k u w x v y where 1: "skip_ws s = quote # u" "parse_string u = Some (k, w)"
      "skip_ws w = CHR '':'' # x" "json_value n d x = Some (v, y)"
    using 6(3) by (auto split: list.splits option.splits if_splits)
  obtain c z where c: "skip_ws y = c # z"
    using 6(3) 1 by (auto split: list.splits)
  have "length y < length s"
    using 6(1) [OF 1(1) refl 1(2) refl 1(3) refl 1(4)] skip_ws_Cons [OF 1(1)]
      parse_string_length [OF 1(2)] skip_ws_Cons [OF 1(3)] by simp
  then show ?case
    using 6(2,3) 1 c skip_ws_Cons [OF c] by (fastforce split: if_splits)
qed auto

lemma json_fuel:
  "2 * length s + 1 \<le> n \<Longrightarrow> 2 * length s + 1 \<le> m \<Longrightarrow> json_value n d s = json_value m d s"
  "2 * length s + 2 \<le> n \<Longrightarrow> 2 * length s + 2 \<le> m \<Longrightarrow> json_elements n d s = json_elements m d s"
  "2 * length s + 2 \<le> n \<Longrightarrow> 2 * length s + 2 \<le> m \<Longrightarrow> json_members n d s = json_members m d s"
proof (induction n d s and n d s and n d s arbitrary: m and m and m
    rule: json_value_json_elements_json_members.induct)
  case (2 n d s)
  obtain k where m: "m = Suc k" using 2(4) by (cases m) auto
  show ?case
  proof (cases "skip_ws s")
    case (Cons c u)
    note u = skip_ws_Cons [OF Cons]
    have "json_elements n (d - 1) u = json_elements k (d - 1) u" if "c = CHR ''[''" "d \<noteq> 0"
        "\<not> (skip_ws u \<noteq> [] \<and> hd (skip_ws u) = CHR '']'')"
      using 2(1) [OF Cons that] 2(3,4) u m by simp
    moreover have "json_members n (d - 1) u = json_members k (d - 1) u" if "c = CHR ''{''" "d \<noteq> 0"
        "\<not> (skip_ws u \<noteq> [] \<and> hd (skip_ws u) = CHR ''}'')"
      using 2(2) [OF Cons _ that] that 2(3,4) u m by simp
    ultimately show ?thesis by (simp add: m Cons)
  qed (simp add: m)
next
  case (4 n d s)
  obtain k where m: "m = Suc k" using 4(4) by (cases m) auto
  have eq: "json_value n d s = json_value k d s"
    using 4(1) [of k] 4(3,4) m by simp
  show ?case
  proof (cases "json_value n d s")
    case None
    with eq show ?thesis by (simp add: m)
  next
    case (Some r)
    obtain v t where r: "r = (v, t)" by (cases r)
    have t: "length t < length s" using json_value_length(1) Some r by blast
    have more: "json_elements n d u = json_elements k d u" if "skip_ws t = CHR '','' # u" for u
      using 4(2) [OF Some r [symmetric] that refl, of k] 4(3,4) t skip_ws_Cons [OF that] m by simp
    have "json_value k d s = Some (v, t)"
      using eq Some r by simp
    then show ?thesis
      using Some r more by (cases "skip_ws t") (simp_all add: m)
  qed
next
  case (6 n d s)
  obtain k where m: "m = Suc k" using 6(4) by (cases m) auto
  have *: "json_value n d x = json_value k d x"
    "\<And>v y z. json_value n d x = Some (v, y) \<Longrightarrow> skip_ws y = CHR '','' # z \<Longrightarrow> json_members n d z = json_members k d z"
    if 1: "skip_ws s = quote # u" "parse_string u = Some (key, w)" "skip_ws w = CHR '':'' # x" for u key w x
  proof -
    have x: "length x < length s"
      using skip_ws_Cons [OF 1(1)] parse_string_length [OF 1(2)] skip_ws_Cons [OF 1(3)] by simp
    show "json_value n d x = json_value k d x"
      using 6(1) [OF 1(1) refl 1(2) refl 1(3) refl] 6(3,4) x m by simp
    show "json_members n d z = json_members k d z" if 2: "json_value n d x = Some (v, y)" "skip_ws y = CHR '','' # z" for v y z
      using 6(2) [OF 1(1) refl 1(2) refl 1(3) refl 2(1) refl 2(2) refl] 6(3,4) x m
        json_value_length(1) [OF 2(1)] skip_ws_Cons [OF 2(2)] by simp
  qed
  show ?case
  proof (cases "\<exists>u key w x. skip_ws s = quote # u \<and> parse_string u = Some (key, w) \<and> skip_ws w = CHR '':'' # x")
    case True
    then obtain u key w x where 1: "skip_ws s = quote # u" "parse_string u = Some (key, w)" "skip_ws w = CHR '':'' # x"
      by blast
    show ?thesis
      using *(1) [OF 1] *(2) [OF 1] 1 by (auto simp: m split: option.splits list.splits)
  next
    case False
    then show ?thesis by (auto simp: m split: list.splits option.splits)
  qed
qed auto

lemma json_parse_fuel:
  "2 * length s + 2 \<le> n \<Longrightarrow>
     json_parse s = (case json_value n maxNestingDepth s of
        Some (v, t) \<Rightarrow> if skip_ws t = [] then Some v else None | None \<Rightarrow> None)"
  unfolding json_parse_def using json_fuel(1) [of s "2 * length s + 2" n] by simp

lemma json_parse_print:
  assumes "json_ok maxNestingDepth j"
  shows "json_parse (json_print j) = Some (json_coerce j)"
proof -
  have "need j \<le> 2 * length (json_print j) + 2"
    using need_le(1) [OF assms] by simp
  from json_roundtrip(1) [OF assms this, of "[]"] show ?thesis
    by (simp add: json_parse_def ends_number_def)
qed

section \<open>Structs\<close>

text \<open>
  A struct type is the list of its JSON names with what storing a value into the field does.
  A name is looked up exactly and then up to case.
\<close>

type_synonym 's struct = "(string \<times> (json \<Rightarrow> 's \<Rightarrow> 's option)) list"

definition find_field :: "'s struct \<Rightarrow> string \<Rightarrow> (json \<Rightarrow> 's \<Rightarrow> 's option) option" where
  "find_field flds key =
     (case map_of flds key of
        Some f \<Rightarrow> Some f
      | None \<Rightarrow> map_option snd (find (\<lambda>(name, _). EqualFold key name) flds))"

fun decode_members :: "'s struct \<Rightarrow> (string \<times> json) list \<Rightarrow> 's \<Rightarrow> 's option" where
  "decode_members flds [] s = Some s"
| "decode_members flds ((k, v) # ms) s =
     (case find_field flds k of
        None \<Rightarrow> decode_members flds ms s
      | Some f \<Rightarrow> (case f v s of None \<Rightarrow> None | Some s' \<Rightarrow> decode_members flds ms s'))"

definition decode_struct :: "'s struct \<Rightarrow> json \<Rightarrow> 's \<Rightarrow> 's option" where
  "decode_struct flds v s =
     (case v of JNull \<Rightarrow> Some s | JObj ms \<Rightarrow> decode_members flds ms s | _ \<Rightarrow> None)"

text \<open>Storing into flds of the types the messages have.\<close>

definition set_string :: "(string \<Rightarrow> 's \<Rightarrow> 's) \<Rightarrow> json \<Rightarrow> 's \<Rightarrow> 's option" where
  "set_string upd v s = (case v of JStr x \<Rightarrow> Some (upd x s) | JNull \<Rightarrow> Some s | _ \<Rightarrow> None)"

definition set_int :: "(int \<Rightarrow> 's \<Rightarrow> 's) \<Rightarrow> json \<Rightarrow> 's \<Rightarrow> 's option" where
  "set_int upd v s =
     (case v of
        JNum x \<Rightarrow> map_option (\<lambda>i. upd i s) (ParseInt64 x)
      | JNull \<Rightarrow> Some s
      | _ \<Rightarrow> None)"

fun decode_strings :: "json list \<Rightarrow> string list option" where
  "decode_strings [] = Some []"
| "decode_strings (v # vs) =
     (case v of
        JStr x \<Rightarrow> map_option (\<lambda>xs. x # xs) (decode_strings vs)
      | JNull \<Rightarrow> map_option (\<lambda>xs. [] # xs) (decode_strings vs)
      | _ \<Rightarrow> None)"

definition decode_values :: "json \<Rightarrow> string list option" where
  "decode_values v = (case v of JNull \<Rightarrow> Some [] | JArr vs \<Rightarrow> decode_strings vs | _ \<Rightarrow> None)"

fun decode_header :: "(string \<times> json) list \<Rightarrow> Header \<Rightarrow> Header option" where
  "decode_header [] h = Some h"
| "decode_header ((k, v) # ms) h =
     (case decode_values v of None \<Rightarrow> None | Some vs \<Rightarrow> decode_header ms (map_put k vs h))"

text \<open>A header field of a message is \<^const>\<open>None\<close> for the nil map, which reads as an empty one.\<close>

definition nil_header :: "Header option \<Rightarrow> Header" where
  "nil_header h = (case h of None \<Rightarrow> [] | Some h \<Rightarrow> h)"

definition set_header ::
    "('s \<Rightarrow> Header option) \<Rightarrow> (Header option \<Rightarrow> 's \<Rightarrow> 's) \<Rightarrow> json \<Rightarrow> 's \<Rightarrow> 's option" where
  "set_header get upd v s =
     (case v of
        JNull \<Rightarrow> Some (upd None s)
      | JObj ms \<Rightarrow> map_option (\<lambda>h. upd (Some h) s) (decode_header ms (nil_header (get s)))
      | _ \<Rightarrow> None)"

definition set_raw :: "(json option \<Rightarrow> 's \<Rightarrow> 's) \<Rightarrow> json \<Rightarrow> 's \<Rightarrow> 's option" where
  "set_raw upd v s = Some (upd (Some v) s)"

definition header_json :: "Header option \<Rightarrow> json" where
  "header_json h =
     (case h of None \<Rightarrow> JNull
      | Some h \<Rightarrow> JObj (map (\<lambda>(k, vs). (k, JArr (map JStr vs))) (sort_key fst h)))"

definition Marshal :: "json \<Rightarrow> byte list" where
  "Marshal v = bytes_of (json_print v)"

definition Unmarshal :: "'s struct \<Rightarrow> byte list \<Rightarrow> 's \<Rightarrow> 's option" where
  "Unmarshal flds data s =
     (case json_parse (string_of data) of None \<Rightarrow> None | Some v \<Rightarrow> decode_struct flds v s)"

text \<open>\<open>json.Unmarshal\<close> of a \<open>json.RawMessage\<close>: nothing when the field was absent.\<close>

definition Unmarshal_raw :: "'s struct \<Rightarrow> json option \<Rightarrow> 's \<Rightarrow> 's option" where
  "Unmarshal_raw flds v s = (case v of None \<Rightarrow> None | Some v \<Rightarrow> decode_struct flds v s)"

lemma Unmarshal_Marshal:
  "json_ok maxNestingDepth v \<Longrightarrow> Unmarshal flds (Marshal v) s = decode_struct flds (json_coerce v) s"
  by (simp add: Unmarshal_def Marshal_def json_parse_print)

text \<open>Headers survive up to their order, if they are valid UTF-8.\<close>

definition utf8_header :: "Header \<Rightarrow> bool" where
  "utf8_header h \<longleftrightarrow> wf_map h \<and> (\<forall>(k, vs) \<in> set h. utf8_valid k \<and> list_all utf8_valid vs)"

lemma json_ok_header: "2 < d \<Longrightarrow> json_ok d (header_json h)"
  by (auto simp: header_json_def split: option.splits)

lemma decode_strings_JStr: "decode_strings (map JStr vs) = Some vs"
  by (induction vs) auto

lemma map_put_fresh: "map_of m k = None \<Longrightarrow> map_put k v m = m @ [(k, v)]"
  by (induction m) (auto split: if_splits)

lemma decode_header_values:
  "wf_map (h @ hs) \<Longrightarrow>
     decode_header (map (\<lambda>(k, vs). (k, JArr (map JStr vs))) hs) h = Some (h @ hs)"
proof (induction hs arbitrary: h)
  case (Cons e hs)
  obtain k vs where e: "e = (k, vs)" by (cases e)
  have "map_of h k = None"
    using Cons.prems by (auto simp: e wf_map_def map_of_eq_None_iff)
  with Cons show ?case
    by (simp add: e decode_values_def decode_strings_JStr map_put_fresh)
qed simp

lemma wf_map_sort [simp]: "wf_map (sort_key f h) \<longleftrightarrow> wf_map h"
  by (metis mset_eq_imp_distinct_iff mset_map mset_sort wf_map_def)

lemma map_of_sort:
  assumes "wf_map h" shows "map_of (sort_key f h) = map_of h"
proof
  fix k
  show "map_of (sort_key f h) k = map_of h k"
  proof (cases "map_of h k")
    case None
    then have "map_of (sort_key f h) k = None" by (simp add: map_of_eq_None_iff)
    with None show ?thesis by simp
  next
    case (Some v)
    then have "(k, v) \<in> set (sort_key f h)" by (simp add: map_of_SomeD)
    with assms Some show ?thesis by (simp add: map_of_SomeI)
  qed
qed

lemma json_coerce_header:
  assumes "utf8_header h"
  shows "json_coerce (header_json (Some h)) = header_json (Some h)"
proof -
  have "x \<in> set vs \<Longrightarrow> utf8_coerce x = x" "utf8_coerce k = k" if "(k, vs) \<in> set (sort_key fst h)" for k vs x
    using assms that by (auto simp: utf8_header_def utf8_valid_def list_all_iff)
  then show ?thesis
    by (auto simp: header_json_def comp_def intro!: map_idI)
qed

lemma set_header_json:
  assumes "utf8_header h" "get s = None"
  shows "set_header get upd (json_coerce (header_json (Some h))) s = Some (upd (Some (sort_key fst h)) s)"
proof -
  have "wf_map ([] @ sort_key fst h)"
    using assms by (simp add: utf8_header_def)
  from decode_header_values [OF this] assms(2) show ?thesis
    by (simp add: json_coerce_header [OF assms(1)]) (simp add: set_header_def header_json_def nil_header_def)
qed

lemma set_header_null: "set_header get upd (json_coerce (header_json None)) s = Some (upd None s)"
  by (simp add: set_header_def header_json_def)

lemma set_int_show:
  "- maxInt64 - 1 \<le> i \<Longrightarrow> i \<le> maxInt64 \<Longrightarrow> set_int upd (JNum (show_int i)) s = Some (upd i s)"
  by (simp add: set_int_def ParseInt64_show_int)

lemma set_string_JStr [simp]: "set_string upd (JStr x) s = Some (upd x s)"
  by (simp add: set_string_def)

end
