(* ===== verification/Messages.thy ===== *)
theory Messages
  imports Go_Json
begin

text \<open>
  The control messages of the tunnel protocol as the two programs declare them, each in its
  own module: \<^verbatim>\<open>backend/internal/protocol/messages.go\<close> for the gateway and
  \<^verbatim>\<open>agent/internal/gatewayclient/protocol.go\<close> with the unexported types of
  \<^verbatim>\<open>client.go\<close> for the agent. Every payload is a record with the struct's fields, the JSON
  it is written as and the struct it is read into. The lemmas say what each program reads when
  the other one writes.
\<close>

section \<open>The gateway's declarations\<close>

definition protocol_Version :: int where "protocol_Version = 1"

definition ClientHello :: string where "ClientHello = ''client_hello''"
definition ServerHello :: string where "ServerHello = ''server_hello''"
definition Ping :: string where "Ping = ''ping''"
definition Pong :: string where "Pong = ''pong''"
definition OpenTunnel :: string where "OpenTunnel = ''open_tunnel''"
definition TunnelOpened :: string where "TunnelOpened = ''tunnel_opened''"
definition HTTPRequestStart :: string where "HTTPRequestStart = ''http_request_start''"
definition HTTPRequestEnd :: string where "HTTPRequestEnd = ''http_request_end''"
definition HTTPResponseStart :: string where "HTTPResponseStart = ''http_response_start''"
definition HTTPResponseEnd :: string where "HTTPResponseEnd = ''http_response_end''"
definition CancelRequest :: string where "CancelRequest = ''cancel_request''"

lemmas type_names = ClientHello_def ServerHello_def Ping_def Pong_def OpenTunnel_def TunnelOpened_def
  HTTPRequestStart_def HTTPRequestEnd_def HTTPResponseStart_def HTTPResponseEnd_def CancelRequest_def

text \<open>\<open>Payload any\<close> with \<open>omitempty\<close>: a nil payload is left out.\<close>

definition Envelope_json :: "string \<Rightarrow> json option \<Rightarrow> json" where
  "Envelope_json t payload =
     JObj ((''type'', JStr t) # (case payload of None \<Rightarrow> [] | Some p \<Rightarrow> [(''payload'', p)]))"

record ClientHelloPayload =
  chp_ProtocolVersion :: int
  chp_AgentVersion :: string
  chp_InstanceID :: string
  chp_Hostname :: string
  chp_OS :: string
  chp_Arch :: string

definition ClientHelloPayload_struct :: "ClientHelloPayload struct" where
  "ClientHelloPayload_struct =
     [(''protocolVersion'', set_int (\<lambda>x p. p\<lparr>chp_ProtocolVersion := x\<rparr>)),
      (''agentVersion'', set_string (\<lambda>x p. p\<lparr>chp_AgentVersion := x\<rparr>)),
      (''instanceId'', set_string (\<lambda>x p. p\<lparr>chp_InstanceID := x\<rparr>)),
      (''hostname'', set_string (\<lambda>x p. p\<lparr>chp_Hostname := x\<rparr>)),
      (''os'', set_string (\<lambda>x p. p\<lparr>chp_OS := x\<rparr>)),
      (''arch'', set_string (\<lambda>x p. p\<lparr>chp_Arch := x\<rparr>))]"

definition zero_ClientHello :: ClientHelloPayload where
  "zero_ClientHello = \<lparr>chp_ProtocolVersion = 0, chp_AgentVersion = [], chp_InstanceID = [],
     chp_Hostname = [], chp_OS = [], chp_Arch = []\<rparr>"

record ServerHelloPayload =
  shp_ProtocolVersion :: int
  shp_SessionID :: string
  shp_HeartbeatIntervalSeconds :: int

definition ServerHelloPayload_json :: "ServerHelloPayload \<Rightarrow> json" where
  "ServerHelloPayload_json p = JObj
     [(''protocolVersion'', JNum (show_int (shp_ProtocolVersion p))),
      (''sessionId'', JStr (shp_SessionID p)),
      (''heartbeatIntervalSeconds'', JNum (show_int (shp_HeartbeatIntervalSeconds p)))]"

record OpenTunnelPayload =
  otp_RequestID :: string
  otp_LocalAddress :: string

definition OpenTunnelPayload_struct :: "OpenTunnelPayload struct" where
  "OpenTunnelPayload_struct =
     [(''requestId'', set_string (\<lambda>x p. p\<lparr>otp_RequestID := x\<rparr>)),
      (''localAddress'', set_string (\<lambda>x p. p\<lparr>otp_LocalAddress := x\<rparr>))]"

definition zero_OpenTunnel :: OpenTunnelPayload where
  "zero_OpenTunnel = \<lparr>otp_RequestID = [], otp_LocalAddress = []\<rparr>"

record TunnelOpenedPayload =
  top_RequestID :: string
  top_TunnelID :: string
  top_Subdomain :: string
  top_PublicURL :: string

definition TunnelOpenedPayload_json :: "TunnelOpenedPayload \<Rightarrow> json" where
  "TunnelOpenedPayload_json p = JObj
     [(''requestId'', JStr (top_RequestID p)), (''tunnelId'', JStr (top_TunnelID p)),
      (''subdomain'', JStr (top_Subdomain p)), (''publicUrl'', JStr (top_PublicURL p))]"

record HTTPRequestPayload =
  hrq_RequestID :: string
  hrq_Method :: string
  hrq_Path :: string
  hrq_Headers :: "Header option"
  hrq_ContentLength :: int

definition HTTPRequestPayload_json :: "HTTPRequestPayload \<Rightarrow> json" where
  "HTTPRequestPayload_json p = JObj
     [(''requestId'', JStr (hrq_RequestID p)), (''method'', JStr (hrq_Method p)),
      (''path'', JStr (hrq_Path p)), (''headers'', header_json (hrq_Headers p)),
      (''contentLength'', JNum (show_int (hrq_ContentLength p)))]"

text \<open>The payloads that only name a request.\<close>

definition CancelRequestPayload_json :: "string \<Rightarrow> json" where
  "CancelRequestPayload_json requestID = JObj [(''requestId'', JStr requestID)]"

definition HTTPRequestEndPayload_json :: "string \<Rightarrow> json" where
  "HTTPRequestEndPayload_json requestID = JObj [(''requestId'', JStr requestID)]"

definition HTTPResponseEndPayload_struct :: "string struct" where
  "HTTPResponseEndPayload_struct = [(''requestId'', set_string (\<lambda>x p. x))]"

record HTTPResponsePayload =
  hrs_RequestID :: string
  hrs_StatusCode :: int
  hrs_Headers :: "Header option"
  hrs_ContentLength :: int
  hrs_Error :: string

definition HTTPResponsePayload_struct :: "HTTPResponsePayload struct" where
  "HTTPResponsePayload_struct =
     [(''requestId'', set_string (\<lambda>x p. p\<lparr>hrs_RequestID := x\<rparr>)),
      (''statusCode'', set_int (\<lambda>x p. p\<lparr>hrs_StatusCode := x\<rparr>)),
      (''headers'', set_header hrs_Headers (\<lambda>x p. p\<lparr>hrs_Headers := x\<rparr>)),
      (''contentLength'', set_int (\<lambda>x p. p\<lparr>hrs_ContentLength := x\<rparr>)),
      (''error'', set_string (\<lambda>x p. p\<lparr>hrs_Error := x\<rparr>))]"

definition zero_HTTPResponse :: HTTPResponsePayload where
  "zero_HTTPResponse = \<lparr>hrs_RequestID = [], hrs_StatusCode = 0, hrs_Headers = None,
     hrs_ContentLength = 0, hrs_Error = []\<rparr>"

text \<open>
  The anonymous structs the programs read into: a type and a payload, a type and the raw
  payload, or the payload alone.
\<close>

definition typed_struct :: "'p struct \<Rightarrow> (string \<times> 'p) struct" where
  "typed_struct payload =
     [(''type'', set_string (\<lambda>x (t, p). (x, p))),
      (''payload'', \<lambda>v (t, p). map_option (Pair t) (decode_struct payload v p))]"

definition raw_struct :: "(string \<times> json option) struct" where
  "raw_struct =
     [(''type'', set_string (\<lambda>x (t, p). (x, p))), (''payload'', set_raw (\<lambda>x (t, p). (t, x)))]"

definition payload_struct :: "'p struct \<Rightarrow> 'p struct" where
  "payload_struct payload = [(''payload'', decode_struct payload)]"

section \<open>The agent's declarations\<close>

definition protocolVersion :: int where "protocolVersion = 1"

definition openTunnelType :: string where "openTunnelType = ''open_tunnel''"
definition cancelRequestType :: string where "cancelRequestType = ''cancel_request''"
definition httpRequestStartType :: string where "httpRequestStartType = ''http_request_start''"
definition httpRequestEndType :: string where "httpRequestEndType = ''http_request_end''"
definition httpResponseStartType :: string where "httpResponseStartType = ''http_response_start''"
definition httpResponseEndType :: string where "httpResponseEndType = ''http_response_end''"

lemmas agent_type_names = openTunnelType_def cancelRequestType_def httpRequestStartType_def
  httpRequestEndType_def httpResponseStartType_def httpResponseEndType_def

definition envelope_json :: "string \<Rightarrow> json option \<Rightarrow> json" where
  "envelope_json t payload =
     JObj ((''type'', JStr t) # (case payload of None \<Rightarrow> [] | Some p \<Rightarrow> [(''payload'', p)]))"

record clientHello =
  ach_ProtocolVersion :: int
  ach_AgentVersion :: string
  ach_InstanceID :: string
  ach_Hostname :: string
  ach_OS :: string
  ach_Arch :: string

definition clientHello_json :: "clientHello \<Rightarrow> json" where
  "clientHello_json p = JObj
     [(''protocolVersion'', JNum (show_int (ach_ProtocolVersion p))),
      (''agentVersion'', JStr (ach_AgentVersion p)), (''instanceId'', JStr (ach_InstanceID p)),
      (''hostname'', JStr (ach_Hostname p)), (''os'', JStr (ach_OS p)), (''arch'', JStr (ach_Arch p))]"

record serverHello =
  ash_ProtocolVersion :: int
  ash_SessionID :: string

definition serverHello_struct :: "serverHello struct" where
  "serverHello_struct =
     [(''protocolVersion'', set_int (\<lambda>x p. p\<lparr>ash_ProtocolVersion := x\<rparr>)),
      (''sessionId'', set_string (\<lambda>x p. p\<lparr>ash_SessionID := x\<rparr>))]"

definition zero_serverHello :: serverHello where
  "zero_serverHello = \<lparr>ash_ProtocolVersion = 0, ash_SessionID = []\<rparr>"

record openTunnelPayload =
  aot_RequestID :: string
  aot_LocalAddress :: string

definition openTunnelPayload_json :: "openTunnelPayload \<Rightarrow> json" where
  "openTunnelPayload_json p = JObj
     [(''requestId'', JStr (aot_RequestID p)), (''localAddress'', JStr (aot_LocalAddress p))]"

record httpRequestPayload =
  arq_RequestID :: string
  arq_Method :: string
  arq_Path :: string
  arq_Headers :: "Header option"
  arq_ContentLength :: int

definition httpRequestPayload_struct :: "httpRequestPayload struct" where
  "httpRequestPayload_struct =
     [(''requestId'', set_string (\<lambda>x p. p\<lparr>arq_RequestID := x\<rparr>)),
      (''method'', set_string (\<lambda>x p. p\<lparr>arq_Method := x\<rparr>)),
      (''path'', set_string (\<lambda>x p. p\<lparr>arq_Path := x\<rparr>)),
      (''headers'', set_header arq_Headers (\<lambda>x p. p\<lparr>arq_Headers := x\<rparr>)),
      (''contentLength'', set_int (\<lambda>x p. p\<lparr>arq_ContentLength := x\<rparr>))]"

definition zero_httpRequest :: httpRequestPayload where
  "zero_httpRequest = \<lparr>arq_RequestID = [], arq_Method = [], arq_Path = [], arq_Headers = None,
     arq_ContentLength = 0\<rparr>"

definition httpRequestEndPayload_struct :: "string struct" where
  "httpRequestEndPayload_struct = [(''requestId'', set_string (\<lambda>x p. x))]"

record httpResponsePayload =
  ars_RequestID :: string
  ars_StatusCode :: int
  ars_Headers :: "Header option"
  ars_ContentLength :: int
  ars_Error :: string

definition httpResponsePayload_json :: "httpResponsePayload \<Rightarrow> json" where
  "httpResponsePayload_json p = JObj
     ([(''requestId'', JStr (ars_RequestID p)), (''statusCode'', JNum (show_int (ars_StatusCode p))),
       (''headers'', header_json (ars_Headers p)), (''contentLength'', JNum (show_int (ars_ContentLength p)))]
      @ (if ars_Error p = [] then [] else [(''error'', JStr (ars_Error p))]))"

definition httpResponseEndPayload_json :: "string \<Rightarrow> json" where
  "httpResponseEndPayload_json requestID = JObj [(''requestId'', JStr requestID)]"

section \<open>What one program reads of what the other writes\<close>

definition int64 :: "int \<Rightarrow> bool" where
  "int64 i \<longleftrightarrow> - maxInt64 - 1 \<le> i \<and> i \<le> maxInt64"

lemma set_int_int64 [simp]: "int64 i \<Longrightarrow> set_int upd (JNum (show_int i)) s = Some (upd i s)"
  by (simp add: int64_def set_int_show)

lemma find_field_exact: "map_of flds k = Some f \<Longrightarrow> find_field flds k = Some f"
  by (simp add: find_field_def)

lemma decode_exact:
  "map_of flds k = Some f \<Longrightarrow> f v s = Some s' \<Longrightarrow>
     decode_members flds ((k, v) # ms) s = decode_members flds ms s'"
  by (simp add: find_field_exact)

lemma Unmarshal_typed:
  assumes "json_ok (maxNestingDepth - 1) p" "utf8_valid t"
  shows "Unmarshal (typed_struct flds) (Marshal (Envelope_json t (Some p))) (t0, p0)
       = map_option (Pair t) (decode_struct flds (json_coerce p) p0)"
proof -
  have ok: "json_ok maxNestingDepth (Envelope_json t (Some p))"
    using assms by (simp add: Envelope_json_def maxNestingDepth_def)
  show ?thesis
    using assms(2) unfolding Unmarshal_Marshal [OF ok]
    by (simp add: Envelope_json_def decode_struct_def typed_struct_def find_field_def utf8_valid_def
        split: option.splits)
qed

lemma Unmarshal_typed_none:
  assumes "utf8_valid t"
  shows "Unmarshal (typed_struct flds) (Marshal (Envelope_json t None)) (t0, p0) = Some (t, p0)"
proof -
  have ok: "json_ok maxNestingDepth (Envelope_json t None)"
    by (simp add: Envelope_json_def maxNestingDepth_def)
  show ?thesis
    using assms unfolding Unmarshal_Marshal [OF ok]
    by (simp add: Envelope_json_def decode_struct_def typed_struct_def find_field_def utf8_valid_def)
qed

lemma Unmarshal_raw_message:
  assumes "json_ok (maxNestingDepth - 1) p" "utf8_valid t"
  shows "Unmarshal raw_struct (Marshal (envelope_json t (Some p))) (t0, p0) = Some (t, Some (json_coerce p))"
proof -
  have ok: "json_ok maxNestingDepth (envelope_json t (Some p))"
    using assms by (simp add: envelope_json_def maxNestingDepth_def)
  show ?thesis
    using assms(2) unfolding Unmarshal_Marshal [OF ok]
    by (simp add: envelope_json_def decode_struct_def raw_struct_def find_field_def utf8_valid_def set_raw_def)
qed

lemma payload_name_folds: "\<not> EqualFold ''type'' ''payload''"
  by simp

lemma Unmarshal_payload:
  assumes "json_ok (maxNestingDepth - 1) p"
  shows "Unmarshal (payload_struct flds) (Marshal (Envelope_json t (Some p))) p0 = decode_struct flds (json_coerce p) p0"
proof -
  have ok: "json_ok maxNestingDepth (Envelope_json t (Some p))"
    using assms by (simp add: Envelope_json_def maxNestingDepth_def)
  show ?thesis
    unfolding Unmarshal_Marshal [OF ok]
    by (simp add: Envelope_json_def decode_struct_def payload_struct_def find_field_def utf8_coerce_ascii
        list_all_iff is_ascii_def split: option.splits)
qed

lemma envelopes_agree: "envelope_json = Envelope_json"
  by (simp add: fun_eq_iff envelope_json_def Envelope_json_def)

lemma utf8_validD: "utf8_valid s \<Longrightarrow> utf8_coerce s = s"
  by (simp add: utf8_valid_def)

lemma json_ok_int [simp]: "json_ok d (JNum (show_int i))"
  by auto

declare json_ok.simps(1) [simp del]

text \<open>The requests the agent serves.\<close>

definition utf8_request :: "HTTPRequestPayload \<Rightarrow> bool" where
  "utf8_request p \<longleftrightarrow> utf8_valid (hrq_RequestID p) \<and> utf8_valid (hrq_Method p) \<and> utf8_valid (hrq_Path p)
     \<and> pred_option utf8_header (hrq_Headers p) \<and> int64 (hrq_ContentLength p)"

definition agent_request :: "HTTPRequestPayload \<Rightarrow> httpRequestPayload" where
  "agent_request p = \<lparr>arq_RequestID = hrq_RequestID p, arq_Method = hrq_Method p, arq_Path = hrq_Path p,
     arq_Headers = map_option (sort_key fst) (hrq_Headers p), arq_ContentLength = hrq_ContentLength p\<rparr>"

abbreviation agent_reads :: "byte list \<Rightarrow> (string \<times> httpRequestPayload) option" where
  "agent_reads data \<equiv> Unmarshal (typed_struct httpRequestPayload_struct) data ([], zero_httpRequest)"

abbreviation agent_reads_end :: "byte list \<Rightarrow> string option" where
  "agent_reads_end data \<equiv> Unmarshal (payload_struct httpRequestEndPayload_struct) data []"

lemma maxNestingDepth_pred [simp]: "maxNestingDepth - Suc 0 = 9999" "maxNestingDepth - 1 = 9999"
  by (simp_all add: maxNestingDepth_def)

lemma utf8_type_names [simp]:
  "utf8_valid ClientHello" "utf8_valid ServerHello" "utf8_valid Ping" "utf8_valid Pong"
  "utf8_valid OpenTunnel" "utf8_valid TunnelOpened" "utf8_valid HTTPRequestStart"
  "utf8_valid HTTPRequestEnd" "utf8_valid HTTPResponseStart" "utf8_valid HTTPResponseEnd"
  "utf8_valid CancelRequest"
  by (simp_all add: type_names utf8_valid_ascii is_ascii_def)

lemma set_header_option:
  assumes "pred_option utf8_header h" "get s = None"
  shows "set_header get upd (json_coerce (header_json h)) s = Some (upd (map_option (sort_key fst) h) s)"
  using assms set_header_json [of _ get s upd] set_header_null [of get upd s] by (cases h) auto

lemma decode_request:
  assumes "utf8_request p"
  shows "decode_struct httpRequestPayload_struct (json_coerce (HTTPRequestPayload_json p)) zero_httpRequest
    = Some (agent_request p)"
proof -
  have "set_header arq_Headers (\<lambda>x q. q\<lparr>arq_Headers := x\<rparr>) (json_coerce (header_json (hrq_Headers p))) s
      = Some (s\<lparr>arq_Headers := map_option (sort_key fst) (hrq_Headers p)\<rparr>)" if "arq_Headers s = None" for s :: httpRequestPayload
    using set_header_option [of "hrq_Headers p" arq_Headers s] that assms by (simp add: utf8_request_def)
  then show ?thesis
    using assms
    by (simp add: HTTPRequestPayload_json_def decode_struct_def httpRequestPayload_struct_def find_field_def
        utf8_request_def utf8_validD zero_httpRequest_def agent_request_def)
qed

lemma agent_reads_request_start:
  assumes "utf8_request p"
  shows "agent_reads (Marshal (Envelope_json HTTPRequestStart (Some (HTTPRequestPayload_json p))))
    = Some (HTTPRequestStart, agent_request p)"
proof -
  have "json_ok 9999 (HTTPRequestPayload_json p)"
    by (auto simp: HTTPRequestPayload_json_def json_ok_header)
  then show ?thesis
    by (simp add: Unmarshal_typed decode_request [OF assms])
qed

lemma agent_reads_request_end:
  assumes "utf8_valid i"
  shows "agent_reads (Marshal (Envelope_json HTTPRequestEnd (Some (HTTPRequestEndPayload_json i))))
      = Some (HTTPRequestEnd, zero_httpRequest\<lparr>arq_RequestID := i\<rparr>)"
    and "agent_reads_end (Marshal (Envelope_json HTTPRequestEnd (Some (HTTPRequestEndPayload_json i)))) = Some i"
  using assms
  by (simp_all add: Unmarshal_typed Unmarshal_payload HTTPRequestEndPayload_json_def decode_struct_def
      httpRequestPayload_struct_def httpRequestEndPayload_struct_def find_field_def utf8_validD)

lemma agent_reads_cancel:
  "utf8_valid i \<Longrightarrow> agent_reads (Marshal (Envelope_json CancelRequest (Some (CancelRequestPayload_json i))))
     = Some (CancelRequest, zero_httpRequest\<lparr>arq_RequestID := i\<rparr>)"
  by (simp add: Unmarshal_typed CancelRequestPayload_json_def decode_struct_def
      httpRequestPayload_struct_def find_field_def utf8_validD)

lemma agent_reads_ping: "agent_reads (Marshal (Envelope_json Ping None)) = Some (Ping, zero_httpRequest)"
  by (simp add: Unmarshal_typed_none)

lemma names_differ:
  "\<not> EqualFold ''tunnelId'' ''requestId''"
  "\<not> EqualFold ''tunnelId'' ''method''"
  "\<not> EqualFold ''tunnelId'' ''path''"
  "\<not> EqualFold ''tunnelId'' ''headers''"
  "\<not> EqualFold ''tunnelId'' ''contentLength''"
  "\<not> EqualFold ''subdomain'' ''requestId''"
  "\<not> EqualFold ''subdomain'' ''method''"
  "\<not> EqualFold ''subdomain'' ''path''"
  "\<not> EqualFold ''subdomain'' ''headers''"
  "\<not> EqualFold ''subdomain'' ''contentLength''"
  "\<not> EqualFold ''publicUrl'' ''requestId''"
  "\<not> EqualFold ''publicUrl'' ''method''"
  "\<not> EqualFold ''publicUrl'' ''path''"
  "\<not> EqualFold ''publicUrl'' ''headers''"
  "\<not> EqualFold ''publicUrl'' ''contentLength''"
  "\<not> EqualFold ''heartbeatIntervalSeconds'' ''protocolVersion''"
  "\<not> EqualFold ''heartbeatIntervalSeconds'' ''sessionId''"
  by code_simp+

lemma opened_names_unknown:
  "find_field httpRequestPayload_struct ''tunnelId'' = None"
  "find_field httpRequestPayload_struct ''subdomain'' = None"
  "find_field httpRequestPayload_struct ''publicUrl'' = None"
  "find_field serverHello_struct ''heartbeatIntervalSeconds'' = None"
  by (simp_all add: find_field_def httpRequestPayload_struct_def serverHello_struct_def names_differ
      del: EqualFold.simps)

lemma agent_reads_tunnel_opened:
  assumes "utf8_valid (top_RequestID p)"
  shows "agent_reads (Marshal (Envelope_json TunnelOpened (Some (TunnelOpenedPayload_json p))))
     = Some (TunnelOpened, zero_httpRequest\<lparr>arq_RequestID := top_RequestID p\<rparr>)"
proof -
  have "find_field httpRequestPayload_struct ''requestId'' = Some (set_string (\<lambda>x p. p\<lparr>arq_RequestID := x\<rparr>))"
    by (simp add: httpRequestPayload_struct_def find_field_def)
  with assms show ?thesis
    by (simp add: Unmarshal_typed TunnelOpenedPayload_json_def decode_struct_def opened_names_unknown utf8_validD)
qed

lemma agent_reads_server_hello:
  assumes "utf8_valid (shp_SessionID p)" "int64 (shp_ProtocolVersion p)"
  shows "Unmarshal (typed_struct serverHello_struct)
      (Marshal (Envelope_json ServerHello (Some (ServerHelloPayload_json p)))) ([], zero_serverHello)
     = Some (ServerHello, \<lparr>ash_ProtocolVersion = shp_ProtocolVersion p, ash_SessionID = shp_SessionID p\<rparr>)"
proof -
  have "find_field serverHello_struct ''protocolVersion'' = Some (set_int (\<lambda>x p. p\<lparr>ash_ProtocolVersion := x\<rparr>))"
    "find_field serverHello_struct ''sessionId'' = Some (set_string (\<lambda>x p. p\<lparr>ash_SessionID := x\<rparr>))"
    by (simp_all add: serverHello_struct_def find_field_def)
  with assms show ?thesis
    by (simp add: Unmarshal_typed ServerHelloPayload_json_def decode_struct_def opened_names_unknown
        utf8_validD zero_serverHello_def)
qed

text \<open>The responses the gateway takes back.\<close>

definition utf8_response :: "httpResponsePayload \<Rightarrow> bool" where
  "utf8_response p \<longleftrightarrow> utf8_valid (ars_RequestID p) \<and> utf8_valid (ars_Error p)
     \<and> pred_option utf8_header (ars_Headers p) \<and> int64 (ars_StatusCode p) \<and> int64 (ars_ContentLength p)"

definition gateway_response :: "httpResponsePayload \<Rightarrow> HTTPResponsePayload" where
  "gateway_response p = \<lparr>hrs_RequestID = ars_RequestID p, hrs_StatusCode = ars_StatusCode p,
     hrs_Headers = map_option (sort_key fst) (ars_Headers p), hrs_ContentLength = ars_ContentLength p,
     hrs_Error = ars_Error p\<rparr>"

abbreviation gateway_reads :: "byte list \<Rightarrow> (string \<times> json option) option" where
  "gateway_reads data \<equiv> Unmarshal raw_struct data ([], None)"

abbreviation gateway_reads_end :: "byte list \<Rightarrow> string option" where
  "gateway_reads_end data \<equiv> Unmarshal (payload_struct HTTPResponseEndPayload_struct) data []"

lemma decode_response:
  assumes "utf8_response p"
  shows "decode_struct HTTPResponsePayload_struct (json_coerce (httpResponsePayload_json p)) zero_HTTPResponse
    = Some (gateway_response p)"
proof -
  have "set_header hrs_Headers (\<lambda>x q. q\<lparr>hrs_Headers := x\<rparr>) (json_coerce (header_json (ars_Headers p))) s
      = Some (s\<lparr>hrs_Headers := map_option (sort_key fst) (ars_Headers p)\<rparr>)" if "hrs_Headers s = None" for s :: HTTPResponsePayload
    using set_header_option [of "ars_Headers p" hrs_Headers s] that assms by (simp add: utf8_response_def)
  then show ?thesis
    using assms
    by (simp add: httpResponsePayload_json_def decode_struct_def HTTPResponsePayload_struct_def find_field_def
        utf8_response_def utf8_validD zero_HTTPResponse_def gateway_response_def)
qed

lemma json_ok_response: "json_ok 9999 (httpResponsePayload_json p)"
  by (auto simp: httpResponsePayload_json_def json_ok_header)

lemma gateway_reads_response_start:
  "gateway_reads (Marshal (envelope_json httpResponseStartType (Some (httpResponsePayload_json p))))
     = Some (HTTPResponseStart, Some (json_coerce (httpResponsePayload_json p)))"
proof -
  have "httpResponseStartType = HTTPResponseStart"
    by (simp add: httpResponseStartType_def HTTPResponseStart_def)
  then show ?thesis
    by (simp add: Unmarshal_raw_message json_ok_response)
qed

lemma gateway_reads_response_end:
  assumes "utf8_valid i"
  shows "gateway_reads (Marshal (envelope_json httpResponseEndType (Some (httpResponseEndPayload_json i))))
      = Some (HTTPResponseEnd, Some (json_coerce (httpResponseEndPayload_json i)))"
    and "gateway_reads_end (Marshal (envelope_json httpResponseEndType (Some (httpResponseEndPayload_json i)))) = Some i"
proof -
  have t: "httpResponseEndType = HTTPResponseEnd"
    by (simp add: httpResponseEndType_def HTTPResponseEnd_def)
  show "gateway_reads (Marshal (envelope_json httpResponseEndType (Some (httpResponseEndPayload_json i))))
      = Some (HTTPResponseEnd, Some (json_coerce (httpResponseEndPayload_json i)))"
    by (simp add: t Unmarshal_raw_message httpResponseEndPayload_json_def)
  show "gateway_reads_end (Marshal (envelope_json httpResponseEndType (Some (httpResponseEndPayload_json i)))) = Some i"
    using assms
    by (simp add: envelopes_agree Unmarshal_payload httpResponseEndPayload_json_def decode_struct_def
        HTTPResponseEndPayload_struct_def find_field_def utf8_validD)
qed

lemma gateway_reads_open_tunnel:
  assumes "utf8_valid (aot_RequestID p)" "utf8_valid (aot_LocalAddress p)"
  shows "gateway_reads (Marshal (envelope_json openTunnelType (Some (openTunnelPayload_json p))))
      = Some (OpenTunnel, Some (json_coerce (openTunnelPayload_json p)))"
    and "decode_struct OpenTunnelPayload_struct (json_coerce (openTunnelPayload_json p)) zero_OpenTunnel
      = Some \<lparr>otp_RequestID = aot_RequestID p, otp_LocalAddress = aot_LocalAddress p\<rparr>"
proof -
  have t: "openTunnelType = OpenTunnel"
    by (simp add: openTunnelType_def OpenTunnel_def)
  show "gateway_reads (Marshal (envelope_json openTunnelType (Some (openTunnelPayload_json p))))
      = Some (OpenTunnel, Some (json_coerce (openTunnelPayload_json p)))"
    by (simp add: t Unmarshal_raw_message openTunnelPayload_json_def)
  show "decode_struct OpenTunnelPayload_struct (json_coerce (openTunnelPayload_json p)) zero_OpenTunnel
      = Some \<lparr>otp_RequestID = aot_RequestID p, otp_LocalAddress = aot_LocalAddress p\<rparr>"
    using assms
    by (simp add: openTunnelPayload_json_def decode_struct_def OpenTunnelPayload_struct_def find_field_def
        utf8_validD zero_OpenTunnel_def)
qed

lemma gateway_reads_client_hello:
  assumes "int64 (ach_ProtocolVersion p)"
    "list_all utf8_valid [ach_AgentVersion p, ach_InstanceID p, ach_Hostname p, ach_OS p, ach_Arch p]"
  shows "Unmarshal (typed_struct ClientHelloPayload_struct)
      (Marshal (envelope_json ''client_hello'' (Some (clientHello_json p)))) ([], zero_ClientHello)
     = Some (ClientHello, \<lparr>chp_ProtocolVersion = ach_ProtocolVersion p, chp_AgentVersion = ach_AgentVersion p,
         chp_InstanceID = ach_InstanceID p, chp_Hostname = ach_Hostname p, chp_OS = ach_OS p, chp_Arch = ach_Arch p\<rparr>)"
proof -
  have t: "''client_hello'' = ClientHello"
    by (simp add: ClientHello_def)
  from assms show ?thesis
    unfolding t envelopes_agree
    by (simp add: Unmarshal_typed clientHello_json_def decode_struct_def ClientHelloPayload_struct_def
        find_field_def utf8_validD zero_ClientHello_def)
qed

end
