(* ===== verification/Go_Http.thy ===== *)
theory Go_Http
  imports Go_Json
begin

text \<open>
  What the handlers use of \<open>net/http\<close>: the reply a handler writes, \<open>http.Error\<close>,
  \<open>http.NotFound\<close>, and a request body read through \<open>http.MaxBytesReader\<close>. A reply is what the
  handler passes to the response writer: the status of the first \<open>WriteHeader\<close>, the header map
  at that moment and the bytes written. How the server puts it on the wire is not modelled.
\<close>

section \<open>Replies\<close>

record http_reply =
  rep_Status :: int
  rep_Header :: Header
  rep_Body :: "byte list"

text \<open>\<open>WriteHeader\<close> panics on a status that is not three digits.\<close>

datatype http_outcome = Replied http_reply | Panicked

definition WriteHeader :: "int \<Rightarrow> Header \<Rightarrow> byte list \<Rightarrow> http_outcome" where
  "WriteHeader status header body =
     (if status < 100 \<or> status > 999 then Panicked
      else Replied \<lparr>rep_Status = status, rep_Header = header, rep_Body = body\<rparr>)"

definition http_Error :: "Header \<Rightarrow> string \<Rightarrow> int \<Rightarrow> http_outcome" where
  "http_Error header message status =
     WriteHeader status
       (header_Set ''X-Content-Type-Options'' ''nosniff''
         (header_Set ''Content-Type'' ''text/plain; charset=utf-8'' (header_Del ''Content-Length'' header)))
       (bytes_of (message @ [CHR 0x0A]))"

definition http_NotFound :: "Header \<Rightarrow> http_outcome" where
  "http_NotFound header = http_Error header ''404 page not found'' 404"

lemma http_Error_replies:
  "100 \<le> status \<Longrightarrow> status \<le> 999 \<Longrightarrow>
     \<exists>h. http_Error header message status = Replied \<lparr>rep_Status = status, rep_Header = h,
       rep_Body = bytes_of (message @ [CHR 0x0A])\<rparr>"
  by (simp add: http_Error_def WriteHeader_def)

section \<open>Request bodies\<close>

text \<open>
  A body is the list of results of its \<open>Read\<close> calls; where the list ends without an end of
  file the reader is still waiting.
\<close>

datatype read_end = More | EOF | ReadError string

type_synonym body_reads = "(byte list \<times> read_end) list"

datatype 'a progress = Waiting | Returned 'a

text \<open>
  \<open>MaxBytesReader\<close> hands out at most \<open>n\<close> bytes and then fails with its own error. It also asks
  the server to close the connection after the reply; the management of client connections is
  not modelled.
\<close>

datatype limited_end = LMore | LEOF | LError string | LTooLarge

type_synonym limited_reads = "(byte list \<times> limited_end) list"

fun limited :: "read_end \<Rightarrow> limited_end" where
  "limited More = LMore"
| "limited EOF = LEOF"
| "limited (ReadError m) = LError m"

fun MaxBytesReader :: "nat \<Rightarrow> body_reads \<Rightarrow> limited_reads" where
  "MaxBytesReader n [] = []"
| "MaxBytesReader n ((data, e) # reads) =
     (if length data \<le> n
      then (data, limited e) # (case e of More \<Rightarrow> MaxBytesReader (n - length data) reads | _ \<Rightarrow> [])
      else [(take n data, LTooLarge)])"

text \<open>
  \<open>json.NewDecoder(body).Decode(target)\<close>: the first JSON value of the body is decoded and what
  follows it is ignored; a body that ends or fails before the value is complete is an error.
\<close>

definition json_first :: "string \<Rightarrow> json option" where
  "json_first s = map_option fst (json_value (2 * length s + 2) maxNestingDepth s)"

definition Decode :: "'s struct \<Rightarrow> byte list \<Rightarrow> 's \<Rightarrow> 's option" where
  "Decode flds body s =
     (case json_first (string_of body) of None \<Rightarrow> None | Some v \<Rightarrow> decode_struct flds v s)"

text \<open>The bytes a list of reads delivers, and its non-empty reads.\<close>

definition body_of :: "('b list \<times> 'e) list \<Rightarrow> 'b list" where
  "body_of reads = concat (map fst reads)"

definition chunks_of :: "('b list \<times> 'e) list \<Rightarrow> 'b list list" where
  "chunks_of reads = filter (\<lambda>c. c \<noteq> []) (map fst reads)"

lemma concat_chunks_of [simp]: "concat (chunks_of reads) = body_of reads"
  by (induction reads) (auto simp: chunks_of_def body_of_def)

lemma MaxBytesReader_bound: "length (body_of (MaxBytesReader n reads)) \<le> n"
proof (induction n reads rule: MaxBytesReader.induct)
  case (2 n data e reads)
  then show ?case by (cases e) (auto simp: body_of_def)
qed (simp add: body_of_def)

text \<open>A whole body: reads without an error and then the end of the file.\<close>

fun whole_body :: "body_reads \<Rightarrow> bool" where
  "whole_body [] \<longleftrightarrow> False"
| "whole_body ((data, e) # reads) \<longleftrightarrow>
     (case e of EOF \<Rightarrow> reads = [] | ReadError m \<Rightarrow> False | More \<Rightarrow> whole_body reads)"

lemma MaxBytesReader_fits:
  "length (body_of reads) \<le> n \<Longrightarrow> whole_body reads \<Longrightarrow>
     MaxBytesReader n reads = map (\<lambda>(d, e). (d, limited e)) reads"
proof (induction reads arbitrary: n rule: whole_body.induct)
  case (2 d e reads)
  then show ?case
    by (cases e) (auto simp: body_of_def)
qed simp

end
