(* ===== verification/Local_Http.thy ===== *)
theory Local_Http
  imports Go_Http
begin

text \<open>
  How the agent calls the local service, \<^verbatim>\<open>agent/internal/gatewayclient/local_http.go\<close>.
  Go's HTTP client and the service behind it are the environment: \<open>newRequest\<close> says whether
  \<open>http.NewRequestWithContext\<close> accepts a method and a URL, \<open>exchange\<close> what a request to the
  service yields.
\<close>

section \<open>The environment\<close>

record LocalRequest =
  lr_Method :: string
  lr_URL :: string
  lr_Header :: Header
  lr_Body :: "byte list"

datatype exchange = ExchangeError string | Exchange int Header body_reads

record agent_Request =
  rq_ID :: string
  rq_Method :: string
  rq_Path :: string
  rq_Headers :: Header
  rq_Body :: "byte list"

record LocalResponse =
  loc_StatusCode :: int
  loc_Headers :: Header
  loc_Body :: "byte list"

section \<open>The local address\<close>

text \<open>\<open>strconv.ParseUint(s, 10, 16)\<close>\<close>

definition ParseUint16 :: "string \<Rightarrow> nat option" where
  "ParseUint16 s =
     (if s \<noteq> [] \<and> list_all is_digit s \<and> digits_value s < 65536 then Some (digits_value s) else None)"

definition normalizeLocalAddress :: "string \<Rightarrow> string + string" where
  "normalizeLocalAddress localAddress =
     (let localAddress = TrimRightByte CHR ''/'' (TrimSpace localAddress)
      in if localAddress = [] then Inl ''local address is required''
         else
           let localAddress =
                 (case ParseUint16 localAddress of
                    Some port \<Rightarrow> if port > 0 then ''127.0.0.1:'' @ localAddress else localAddress
                  | None \<Rightarrow> localAddress)
           in if \<not> HasPrefix localAddress ''http://'' \<and> \<not> HasPrefix localAddress ''https://''
              then Inr (''http://'' @ localAddress) else Inr localAddress)"

section \<open>Streaming a response\<close>

fun copy_body ::
    "(byte list \<Rightarrow> 'st \<Rightarrow> string option \<times> 'st) \<Rightarrow> body_reads \<Rightarrow> 'st \<Rightarrow> string option progress \<times> 'st" where
  "copy_body chunk [] st = (Waiting, st)"
| "copy_body chunk ((data, readErr) # reads) st =
     (case (if length data > 0 then chunk data st else (None, st)) of
        (Some err, st') \<Rightarrow> (Returned (Some err), st')
      | (None, st') \<Rightarrow>
          (case readErr of
             EOF \<Rightarrow> (Returned None, st')
           | ReadError m \<Rightarrow> (Returned (Some (''read local response: '' @ m)), st')
           | More \<Rightarrow> copy_body chunk reads st'))"

definition StreamLocal ::
    "(string \<Rightarrow> string \<Rightarrow> string option) \<Rightarrow> (LocalRequest \<Rightarrow> exchange) \<Rightarrow> string \<Rightarrow> agent_Request
      \<Rightarrow> (LocalResponse \<Rightarrow> 'st \<Rightarrow> string option \<times> 'st) \<Rightarrow> (byte list \<Rightarrow> 'st \<Rightarrow> string option \<times> 'st)
      \<Rightarrow> 'st \<Rightarrow> string option progress \<times> 'st" where
  "StreamLocal newRequest exch localAddress request start chunk st =
     (case normalizeLocalAddress localAddress of
        Inl err \<Rightarrow> (Returned (Some err), st)
      | Inr localAddress \<Rightarrow>
          (case newRequest (rq_Method request) (localAddress @ rq_Path request) of
             Some err \<Rightarrow> (Returned (Some (''create local request: '' @ err)), st)
           | None \<Rightarrow>
               (case exch \<lparr>lr_Method = rq_Method request, lr_URL = localAddress @ rq_Path request,
                           lr_Header = agent_withoutHopByHopHeaders (rq_Headers request),
                           lr_Body = rq_Body request\<rparr> of
                  ExchangeError err \<Rightarrow> (Returned (Some (''send local request: '' @ err)), st)
                | Exchange status header reads \<Rightarrow>
                    (case start \<lparr>loc_StatusCode = status, loc_Headers = agent_withoutHopByHopHeaders header,
                                 loc_Body = []\<rparr> st of
                       (Some err, st') \<Rightarrow> (Returned (Some err), st')
                     | (None, st') \<Rightarrow> copy_body chunk reads st'))))"

section \<open>The buffered call\<close>

text \<open>\<open>io.ReadAll(io.LimitReader(body, n))\<close>\<close>

fun read_limited :: "nat \<Rightarrow> body_reads \<Rightarrow> (string + byte list) progress" where
  "read_limited n [] = (if n = 0 then Returned (Inr []) else Waiting)"
| "read_limited n ((data, readErr) # reads) =
     (if n = 0 then Returned (Inr [])
      else
        case readErr of
          EOF \<Rightarrow> Returned (Inr (take n data))
        | ReadError m \<Rightarrow> Returned (Inl m)
        | More \<Rightarrow>
            (case read_limited (n - length data) reads of
               Returned (Inr rest) \<Rightarrow> Returned (Inr (take n data @ rest))
             | r \<Rightarrow> r))"

definition ExecuteLocal ::
    "(string \<Rightarrow> string \<Rightarrow> string option) \<Rightarrow> (LocalRequest \<Rightarrow> exchange) \<Rightarrow> string \<Rightarrow> agent_Request
      \<Rightarrow> (string + LocalResponse) progress" where
  "ExecuteLocal newRequest exch localAddress request =
     (case normalizeLocalAddress localAddress of
        Inl err \<Rightarrow> Returned (Inl err)
      | Inr localAddress \<Rightarrow>
          (case newRequest (rq_Method request) (localAddress @ rq_Path request) of
             Some err \<Rightarrow> Returned (Inl (''create local request: '' @ err))
           | None \<Rightarrow>
               (case exch \<lparr>lr_Method = rq_Method request, lr_URL = localAddress @ rq_Path request,
                           lr_Header = agent_withoutHopByHopHeaders (rq_Headers request),
                           lr_Body = rq_Body request\<rparr> of
                  ExchangeError err \<Rightarrow> Returned (Inl (''send local request: '' @ err))
                | Exchange status header reads \<Rightarrow>
                    (case read_limited 1048576 reads of
                       Waiting \<Rightarrow> Waiting
                     | Returned (Inl err) \<Rightarrow> Returned (Inl (''read local response: '' @ err))
                     | Returned (Inr body) \<Rightarrow>
                         Returned (Inr \<lparr>loc_StatusCode = status,
                           loc_Headers = agent_withoutHopByHopHeaders header, loc_Body = body\<rparr>)))))"

section \<open>Laws\<close>

lemma normalizeLocalAddress_scheme:
  "normalizeLocalAddress a = Inr b \<Longrightarrow> HasPrefix b ''http://'' \<or> HasPrefix b ''https://''"
  using HasPrefix_append [of "''http://''"]
  by (fastforce simp: normalizeLocalAddress_def Let_def simp del: HasPrefix_append split: if_splits)

end
