(* ===== verification/Demux.thy ===== *)
theory Demux
  imports Go_Prelude
begin

text \<open>
  A connection carries the messages of many requests, interleaved. Both ends keep one table
  keyed by the request id: the agent the requests it is receiving, the gateway the responses.
  The locale \<open>demux\<close> states what a step of such a loop does: it fails, or it acts on the
  entry of the message's own key as a machine for one key would, leaves the other entries
  alone and has effects for its own key only. The lemmas say what a whole run does for one
  key, and when a run does not fail.
\<close>

text \<open>A loop that may stop with an error and collects the effects of its steps.\<close>

fun run_eff :: "('s \<Rightarrow> 'm \<Rightarrow> ('s \<times> 'e list) option) \<Rightarrow> 's \<Rightarrow> 'm list \<Rightarrow> ('s \<times> 'e list) option" where
  "run_eff step s [] = Some (s, [])"
| "run_eff step s (m # ms) =
     (case step s m of None \<Rightarrow> None
      | Some (s', es) \<Rightarrow>
          (case run_eff step s' ms of None \<Rightarrow> None | Some (s'', fs) \<Rightarrow> Some (s'', es @ fs)))"

lemma run_eff_append:
  "run_eff step s (ms @ ns) =
     (case run_eff step s ms of None \<Rightarrow> None
      | Some (s', es) \<Rightarrow>
          (case run_eff step s' ns of None \<Rightarrow> None | Some (s'', fs) \<Rightarrow> Some (s'', es @ fs)))"
proof (induction ms arbitrary: s)
  case Nil
  show ?case by (cases "run_eff step s ns") auto
next
  case (Cons m ms)
  show ?case
  proof (cases "step s m")
    case (Some p)
    then show ?thesis
      by (cases p) (auto simp: Cons.IH split: option.splits)
  qed simp
qed

lemma run_eff_Cons_Some:
  "run_eff step s (m # ms) = Some (s'', gs) \<longleftrightarrow>
     (\<exists>s' es fs. step s m = Some (s', es) \<and> run_eff step s' ms = Some (s'', fs) \<and> gs = es @ fs)"
  by (auto split: option.splits)

locale demux =
  fixes step :: "'s \<Rightarrow> 'm \<Rightarrow> ('s \<times> 'e list) option"
    and entry :: "'s \<Rightarrow> 'k \<Rightarrow> 'v option"
    and key :: "'m \<Rightarrow> 'k option"
    and owner :: "'e \<Rightarrow> 'k option"
    and kstep :: "'v option \<Rightarrow> 'm \<Rightarrow> ('v option \<times> 'e list) option"
    and opens :: "'m \<Rightarrow> bool"
    and size :: "'s \<Rightarrow> nat"
    and cap :: nat
    and inv :: "'s \<Rightarrow> bool"
  assumes step_own: "inv s \<Longrightarrow> step s m = Some (s', es) \<Longrightarrow> key m = Some k \<Longrightarrow>
      kstep (entry s k) m = Some (entry s' k, es)"
    and step_other: "inv s \<Longrightarrow> step s m = Some (s', es) \<Longrightarrow> key m \<noteq> Some k \<Longrightarrow> entry s' k = entry s k"
    and step_owner: "inv s \<Longrightarrow> step s m = Some (s', es) \<Longrightarrow> e \<in> set es \<Longrightarrow> owner e = key m"
    and step_inv: "inv s \<Longrightarrow> step s m = Some (s', es) \<Longrightarrow> inv s'"
    and step_enabled: "inv s \<Longrightarrow> key m = Some k \<Longrightarrow> kstep (entry s k) m \<noteq> None \<Longrightarrow>
      (opens m \<Longrightarrow> size s < cap) \<Longrightarrow> step s m \<noteq> None"
    and size_entries: "inv s \<Longrightarrow> finite {k. entry s k \<noteq> None} \<and> size s = card {k. entry s k \<noteq> None}"
begin

abbreviation own :: "'k \<Rightarrow> 'm list \<Rightarrow> 'm list" where
  "own k ms \<equiv> filter (\<lambda>m. key m = Some k) ms"

lemma run_inv: "run_eff step s ms = Some (s', es) \<Longrightarrow> inv s \<Longrightarrow> inv s'"
proof (induction ms arbitrary: s es)
  case (Cons m ms)
  then obtain s1 es1 fs where "step s m = Some (s1, es1)" "run_eff step s1 ms = Some (s', fs)"
    unfolding run_eff_Cons_Some by blast
  with Cons.IH [of s1 fs] step_inv [OF Cons.prems(2)] show ?case by blast
qed simp

text \<open>What a run does for a key is what its own messages alone do.\<close>

lemma run_own:
  "run_eff step s ms = Some (s', es) \<Longrightarrow> inv s \<Longrightarrow>
     run_eff kstep (entry s k) (own k ms) = Some (entry s' k, filter (\<lambda>e. owner e = Some k) es)"
proof (induction ms arbitrary: s es)
  case (Cons m ms)
  then obtain s1 es1 fs where st: "step s m = Some (s1, es1)" "run_eff step s1 ms = Some (s', fs)" "es = es1 @ fs"
    unfolding run_eff_Cons_Some by blast
  note ih = Cons.IH [OF st(2) step_inv [OF Cons.prems(2) st(1)]]
  have eff: "filter (\<lambda>e. owner e = Some k) es1 = (if key m = Some k then es1 else [])"
    using step_owner [OF Cons.prems(2) st(1)] by (auto simp: filter_id_conv filter_empty_conv)
  show ?case
  proof (cases "key m = Some k")
    case True
    then show ?thesis
      using step_own [OF Cons.prems(2) st(1)] ih eff by (simp add: st(3))
  next
    case False
    then show ?thesis
      using step_other [OF Cons.prems(2) st(1) False] ih eff by (simp add: st(3))
  qed
qed simp

text \<open>The keys with an entry after some messages, each run on its own.\<close>

definition opened_after :: "'m list \<Rightarrow> 'k set" where
  "opened_after ms = {k. \<exists>v es. run_eff kstep None (own k ms) = Some (Some v, es)}"

text \<open>
  If every key's own messages are in order and there is room whenever an entry is opened,
  no interleaving of them fails.
\<close>

lemma run_enabled:
  assumes "inv s" "\<And>k. entry s k = None"
    and "\<And>m. m \<in> set ms \<Longrightarrow> key m \<noteq> None"
    and "\<And>k. run_eff kstep None (own k ms) \<noteq> None"
    and "\<And>ps m qs. ms = ps @ m # qs \<Longrightarrow> opens m \<Longrightarrow> card (opened_after ps) < cap"
  shows "run_eff step s ms \<noteq> None"
  using assms(3-)
proof (induction ms rule: rev_induct)
  case (snoc m ms)
  have "run_eff kstep None (own k ms) \<noteq> None" for k
    using snoc.prems(2) [of k] by (auto simp: run_eff_append split: option.splits)
  moreover have "card (opened_after ps) < cap" if "ms = ps @ n # qs" "opens n" for ps n qs
    using snoc.prems(3) [of ps n "qs @ [m]"] that by simp
  ultimately obtain s' es where run: "run_eff step s ms = Some (s', es)"
    using snoc.IH snoc.prems(1) by (fastforce)
  note inv' = run_inv [OF run assms(1)]
  have ent: "run_eff kstep None (own k ms) = Some (entry s' k, filter (\<lambda>e. owner e = Some k) es)" for k
    using run_own [OF run assms(1), of k] assms(2) by simp
  then have "opened_after ms = {k. entry s' k \<noteq> None}"
    by (auto simp: opened_after_def)
  then have size: "opens m \<Longrightarrow> size s' < cap"
    using snoc.prems(3) [of ms m "[]"] size_entries [OF inv'] by simp
  obtain k where k: "key m = Some k"
    using snoc.prems(1) by fastforce
  have "kstep (entry s' k) m \<noteq> None"
    using snoc.prems(2) [of k] ent [of k] k by (auto simp: run_eff_append split: option.splits)
  from step_enabled [OF inv' k this size] show ?case
    by (auto simp: run_eff_append run split: option.splits)
qed simp

end

end
