(* ===== verification/Agent_Client.thy ===== *)
theory Agent_Client
  imports Local_Http Messages Chunk_Assembler Session_Manager Demux
begin

text \<open>
  The agent, \<^verbatim>\<open>agent/internal/gatewayclient/client.go\<close>: \<open>Connect\<close> opens a session with the
  gateway and serves its messages, \<open>Run\<close> reconnects. The read loop is a function from the
  table of requests being received and one message to an error or the new table and the
  effects on the rest of the agent: messages to send, requests to start, requests to cancel.
  The requests that run are a second table behind its own mutex, the workers a bounded pool.
  The read loop is an interpretation of \<open>demux\<close>.
\<close>

section \<open>Limits and configuration\<close>

definition defaultMaxConcurrentRequests :: int where "defaultMaxConcurrentRequests = 16"
definition maxConcurrentRequests :: int where "maxConcurrentRequests = 64"
definition maxPendingRequestStreams :: nat where "maxPendingRequestStreams = 32"
definition outboundQueueCapacity :: nat where "outboundQueueCapacity = 32"
definition agent_websocketReadLimit :: nat where "agent_websocketReadLimit = 65536"

record Config =
  cfg_GatewayURL :: string
  cfg_Token :: string
  cfg_Version :: string
  cfg_LocalAddress :: string
  cfg_MaxConcurrentRequests :: int

datatype agent_error =
    URLAndTokenRequired
  | MaxConcurrentExceeds
  | ConnectFailed string
  | SendHelloFailed string
  | ReadHelloFailed string
  | InvalidServerHello
  | ClosedBeforeOpen
  | ConnectionClosed string
  | InvalidChunk
  | ChunkForUnknown string
  | AssemblerError assembler_error
  | InvalidGatewayMessage
  | NoRequestID
  | DuplicateStart string
  | TooManyPending
  | InvalidRequestEnd
  | EndForUnknown string

section \<open>Opening a session\<close>

definition check_config :: "Config \<Rightarrow> agent_error + int" where
  "check_config cfg =
     (if cfg_GatewayURL cfg = [] \<or> cfg_Token cfg = [] then Inl URLAndTokenRequired
      else
        let maxConcurrent = cfg_MaxConcurrentRequests cfg;
            maxConcurrent = (if maxConcurrent \<le> 0 then defaultMaxConcurrentRequests else maxConcurrent)
        in if maxConcurrent > maxConcurrentRequests then Inl MaxConcurrentExceeds else Inr maxConcurrent)"

definition hello_message :: "Config \<Rightarrow> string \<Rightarrow> string \<Rightarrow> string \<Rightarrow> byte list" where
  "hello_message cfg hostname goos goarch =
     Marshal (envelope_json ''client_hello'' (Some (clientHello_json
       \<lparr>ach_ProtocolVersion = protocolVersion, ach_AgentVersion = cfg_Version cfg,
        ach_InstanceID = hostname, ach_Hostname = hostname, ach_OS = goos, ach_Arch = goarch\<rparr>)))"

definition read_server_hello :: "byte list \<Rightarrow> agent_error + string" where
  "read_server_hello data =
     (case Unmarshal (typed_struct serverHello_struct) data ([], zero_serverHello) of
        None \<Rightarrow> Inl InvalidServerHello
      | Some (t, payload) \<Rightarrow>
          if t \<noteq> ''server_hello'' \<or> ash_ProtocolVersion payload \<noteq> protocolVersion
             \<or> ash_SessionID payload = []
          then Inl InvalidServerHello else Inr (ash_SessionID payload))"

definition open_message :: "Config \<Rightarrow> string \<Rightarrow> byte list option" where
  "open_message cfg sessionID =
     (let localAddress = TrimSpace (cfg_LocalAddress cfg)
      in if localAddress \<noteq> [] then
           Some (Marshal (envelope_json openTunnelType (Some (openTunnelPayload_json
             \<lparr>aot_RequestID = ''open_'' @ sessionID, aot_LocalAddress = localAddress\<rparr>))))
         else None)"

text \<open>
  \<open>Connect\<close> up to its loops, with what the connection does as arguments: the error of
  \<open>dial\<close>, of writing the hello, the answer read, and whether the open message can be sent.
  The result is the number of workers, the session id and the messages written.
\<close>

definition Connect_setup ::
    "Config \<Rightarrow> string \<Rightarrow> string \<Rightarrow> string \<Rightarrow> string option \<Rightarrow> string option \<Rightarrow> string + byte list \<Rightarrow> bool
      \<Rightarrow> agent_error + int \<times> string \<times> byte list list" where
  "Connect_setup cfg hostname goos goarch dialErr writeErr answer sendOk =
     (case check_config cfg of
        Inl e \<Rightarrow> Inl e
      | Inr maxConcurrent \<Rightarrow>
          (case dialErr of
             Some e \<Rightarrow> Inl (ConnectFailed e)
           | None \<Rightarrow>
               (case writeErr of
                  Some e \<Rightarrow> Inl (SendHelloFailed e)
                | None \<Rightarrow>
                    (case answer of
                       Inl e \<Rightarrow> Inl (ReadHelloFailed e)
                     | Inr data \<Rightarrow>
                         (case read_server_hello data of
                            Inl e \<Rightarrow> Inl e
                          | Inr sessionID \<Rightarrow>
                              (case open_message cfg sessionID of
                                 None \<Rightarrow> Inr (maxConcurrent, sessionID, [hello_message cfg hostname goos goarch])
                               | Some m \<Rightarrow>
                                   if sendOk
                                   then Inr (maxConcurrent, sessionID, [hello_message cfg hostname goos goarch, m])
                                   else Inl ClosedBeforeOpen))))))"

section \<open>The read loop\<close>

type_synonym pending_requests = "(string, httpRequestPayload \<times> chunkAssembler) gomap"

datatype agent_effect =
    SendText "byte list"
  | StartJob agent_Request
  | CancelActive string

text \<open>What a message is, before the table is consulted.\<close>

datatype agent_event =
    A_Chunk BinaryFrame
  | A_Ping
  | A_Start httpRequestPayload
  | A_End string
  | A_Cancel string
  | A_Other

definition agent_decode :: "MessageType \<times> byte list \<Rightarrow> agent_error + agent_event" where
  "agent_decode = (\<lambda>(messageType, data).
     case messageType of
       MessageBinary \<Rightarrow>
         (case parseBinaryFrame data of
            Inl _ \<Rightarrow> Inl InvalidChunk
          | Inr frame \<Rightarrow> if frame_Type frame \<noteq> requestBodyChunk then Inl InvalidChunk else Inr (A_Chunk frame))
     | MessageText \<Rightarrow>
         (case Unmarshal (typed_struct httpRequestPayload_struct) data ([], zero_httpRequest) of
            None \<Rightarrow> Inl InvalidGatewayMessage
          | Some (t, payload) \<Rightarrow>
              if t = ''ping'' then Inr A_Ping
              else if t = httpRequestStartType then Inr (A_Start payload)
              else if t = httpRequestEndType then
                (case Unmarshal (payload_struct httpRequestEndPayload_struct) data [] of
                   None \<Rightarrow> Inl InvalidRequestEnd
                 | Some requestID \<Rightarrow> Inr (A_End requestID))
              else if t = cancelRequestType then Inr (A_Cancel (arq_RequestID payload))
              else Inr A_Other))"

definition make_request :: "httpRequestPayload \<Rightarrow> chunkAssembler \<Rightarrow> agent_Request" where
  "make_request payload assembler =
     \<lparr>rq_ID = arq_RequestID payload, rq_Method = arq_Method payload, rq_Path = arq_Path payload,
      rq_Headers = nil_header (arq_Headers payload), rq_Body = ca_body assembler\<rparr>"

fun agent_handle ::
    "int \<Rightarrow> pending_requests \<Rightarrow> agent_event \<Rightarrow> agent_error + pending_requests \<times> agent_effect list" where
  "agent_handle maxAlloc pending (A_Chunk frame) =
     (case map_of pending (frame_RequestID frame) of
        None \<Rightarrow> Inl (ChunkForUnknown (frame_RequestID frame))
      | Some (payload, assembler) \<Rightarrow>
          (case assembler_add assembler frame of
             Inl e \<Rightarrow> Inl (AssemblerError e)
           | Inr (_, assembler') \<Rightarrow>
               Inr (map_put (frame_RequestID frame) (payload, assembler') pending, [])))"
| "agent_handle maxAlloc pending A_Ping =
     Inr (pending, [SendText (Marshal (envelope_json ''pong'' None))])"
| "agent_handle maxAlloc pending (A_Start payload) =
     (if arq_RequestID payload = [] then Inl NoRequestID
      else if map_of pending (arq_RequestID payload) \<noteq> None then Inl (DuplicateStart (arq_RequestID payload))
      else if length pending \<ge> maxPendingRequestStreams then Inl TooManyPending
      else
        case newChunkAssembler maxAlloc (arq_ContentLength payload) of
          Inl e \<Rightarrow> Inl (AssemblerError e)
        | Inr assembler \<Rightarrow> Inr (map_put (arq_RequestID payload) (payload, assembler) pending, []))"
| "agent_handle maxAlloc pending (A_End requestID) =
     (case map_of pending requestID of
        None \<Rightarrow> Inl (EndForUnknown requestID)
      | Some (payload, assembler) \<Rightarrow>
          (case assembler_complete assembler of
             Inl e \<Rightarrow> Inl (AssemblerError e)
           | Inr _ \<Rightarrow> Inr (map_del requestID pending, [StartJob (make_request payload assembler)])))"
| "agent_handle maxAlloc pending (A_Cancel requestID) =
     Inr (map_del requestID pending, [CancelActive requestID])"
| "agent_handle maxAlloc pending A_Other = Inr (pending, [])"

definition agent_receive ::
    "int \<Rightarrow> pending_requests \<Rightarrow> MessageType \<times> byte list \<Rightarrow> agent_error + pending_requests \<times> agent_effect list" where
  "agent_receive maxAlloc pending message =
     (case agent_decode message of Inl e \<Rightarrow> Inl e | Inr ev \<Rightarrow> agent_handle maxAlloc pending ev)"

section \<open>Running requests\<close>

text \<open>
  The table \<open>activeCancels\<close>: every started request has a fresh context, registered under its
  id until its job ends; a cancel message cancels the registered context.
\<close>

record active_requests =
  ar_active :: "(string, nat) gomap"
  ar_next :: nat
  ar_cancelled :: "nat list"

definition activate :: "string \<Rightarrow> active_requests \<Rightarrow> nat \<times> active_requests" where
  "activate i s = (ar_next s, s\<lparr>ar_active := map_put i (ar_next s) (ar_active s), ar_next := Suc (ar_next s)\<rparr>)"

definition cancel_active :: "string \<Rightarrow> active_requests \<Rightarrow> active_requests" where
  "cancel_active i s =
     (case map_of (ar_active s) i of
        None \<Rightarrow> s | Some c \<Rightarrow> s\<lparr>ar_cancelled := List.insert c (ar_cancelled s)\<rparr>)"

definition job_done :: "string \<Rightarrow> nat \<Rightarrow> active_requests \<Rightarrow> active_requests" where
  "job_done i c s =
     s\<lparr>ar_active := map_del i (ar_active s), ar_cancelled := List.insert c (ar_cancelled s)\<rparr>"

text \<open>The worker pool: \<open>jobs\<close> is a channel, each of \<open>maxConcurrent\<close> workers runs one job.\<close>

record worker_pool =
  wp_workers :: nat
  wp_jobs :: "agent_Request channel"
  wp_running :: "agent_Request list"

definition new_pool :: "nat \<Rightarrow> worker_pool" where
  "new_pool n = \<lparr>wp_workers = n, wp_jobs = make_chan n, wp_running = []\<rparr>"

datatype pool_event = Pool_Enqueue agent_Request | Pool_Take | Pool_Finish nat

fun pool_step :: "worker_pool \<Rightarrow> pool_event \<Rightarrow> worker_pool option" where
  "pool_step p (Pool_Enqueue r) = map_option (\<lambda>q. p\<lparr>wp_jobs := q\<rparr>) (chan_send r (wp_jobs p))"
| "pool_step p Pool_Take =
     (if length (wp_running p) < wp_workers p then
        (case chan_recv (wp_jobs p) of
           None \<Rightarrow> None
         | Some (r, q) \<Rightarrow> Some (p\<lparr>wp_jobs := q, wp_running := wp_running p @ [r]\<rparr>))
      else None)"
| "pool_step p (Pool_Finish i) =
     (if i < length (wp_running p)
      then Some (p\<lparr>wp_running := take i (wp_running p) @ drop (Suc i) (wp_running p)\<rparr>) else None)"

section \<open>A job\<close>

text \<open>
  A job writes messages through \<open>send\<close>, which succeeds or finds the session closed; the
  outcomes are the list \<open>jb_sends\<close>, and sends beyond the list succeed.
\<close>

record job =
  jb_sent :: "OutboundMessage list"
  jb_sends :: "bool list"
  jb_sequence :: u32
  jb_started :: bool

definition job_send :: "OutboundMessage \<Rightarrow> job \<Rightarrow> bool \<times> job" where
  "job_send m j =
     (case jb_sends j of
        [] \<Rightarrow> (True, j\<lparr>jb_sent := jb_sent j @ [m]\<rparr>)
      | ok # rest \<Rightarrow>
          (ok, j\<lparr>jb_sends := rest, jb_sent := (if ok then jb_sent j @ [m] else jb_sent j)\<rparr>))"

abbreviation text_message :: "byte list \<Rightarrow> OutboundMessage" where
  "text_message d \<equiv> \<lparr>om_Type = MessageText, om_Data = d\<rparr>"

abbreviation binary_message :: "byte list \<Rightarrow> OutboundMessage" where
  "binary_message d \<equiv> \<lparr>om_Type = MessageBinary, om_Data = d\<rparr>"

definition response_start_message :: "httpResponsePayload \<Rightarrow> OutboundMessage" where
  "response_start_message p =
     text_message (Marshal (envelope_json httpResponseStartType (Some (httpResponsePayload_json p))))"

definition response_end_message :: "string \<Rightarrow> OutboundMessage" where
  "response_end_message i =
     text_message (Marshal (envelope_json httpResponseEndType (Some (httpResponseEndPayload_json i))))"

definition sendStart :: "string \<Rightarrow> LocalResponse \<Rightarrow> job \<Rightarrow> string option \<times> job" where
  "sendStart i loc j =
     (case job_send (response_start_message
         \<lparr>ars_RequestID = i, ars_StatusCode = loc_StatusCode loc, ars_Headers = Some (loc_Headers loc),
          ars_ContentLength = -1, ars_Error = []\<rparr>) j of
        (False, j') \<Rightarrow> (Some ''gateway connection closed'', j')
      | (True, j') \<Rightarrow> (None, j'\<lparr>jb_started := True\<rparr>))"

definition response_chunk :: "string \<Rightarrow> u32 \<Rightarrow> byte list \<Rightarrow> BinaryFrame" where
  "response_chunk i n payload =
     \<lparr>frame_Type = responseBodyChunk, frame_RequestID = i, frame_Sequence = n, frame_Payload = payload\<rparr>"

definition sendChunk :: "(frame_error \<Rightarrow> string) \<Rightarrow> string \<Rightarrow> byte list \<Rightarrow> job \<Rightarrow> string option \<times> job" where
  "sendChunk message i payload j =
     (case marshalBinary (response_chunk i (jb_sequence j) payload) of
        Inl e \<Rightarrow> (Some (message e), j)
      | Inr encoded \<Rightarrow>
          (case job_send (binary_message encoded) j of
             (False, j') \<Rightarrow> (Some ''gateway connection closed'', j')
           | (True, j') \<Rightarrow> (None, j'\<lparr>jb_sequence := jb_sequence j' + 1\<rparr>)))"

text \<open>
  What a job does with a request, from the call of \<open>StreamLocal\<close> on. The text of a codec
  error is the argument \<open>message\<close>.
\<close>

definition run_job ::
    "(frame_error \<Rightarrow> string) \<Rightarrow> (string \<Rightarrow> string \<Rightarrow> string option) \<Rightarrow> (LocalRequest \<Rightarrow> exchange)
      \<Rightarrow> string \<Rightarrow> agent_Request \<Rightarrow> bool list \<Rightarrow> bool \<times> job" where
  "run_job message newRequest exch localAddress request sends =
     (let j = \<lparr>jb_sent = [], jb_sends = sends, jb_sequence = 0, jb_started = False\<rparr>
      in if localAddress = [] then (True, j)
         else
           case StreamLocal newRequest exch localAddress request
                  (sendStart (rq_ID request)) (sendChunk message (rq_ID request)) j of
             (Waiting, j) \<Rightarrow> (False, j)
           | (Returned localErr, j) \<Rightarrow>
               let j = (case localErr of
                          Some e \<Rightarrow>
                            if \<not> jb_started j then
                              snd (job_send (response_start_message
                                \<lparr>ars_RequestID = rq_ID request, ars_StatusCode = 502, ars_Headers = None,
                                 ars_ContentLength = 0, ars_Error = e\<rparr>) j)
                            else j
                        | None \<Rightarrow> j)
               in (True, snd (job_send (response_end_message (rq_ID request)) j)))"

section \<open>Reconnecting\<close>

record SessionMetrics =
  sme_ActiveSessions :: int
  sme_ConnectionsTotal :: u64
  sme_DisconnectionsTotal :: u64

record Client =
  cl_reconnectInitialDelay :: int
  cl_reconnectMaxDelay :: int

definition New_Client :: Client where
  "New_Client = \<lparr>cl_reconnectInitialDelay = Second, cl_reconnectMaxDelay = 30 * Second\<rparr>"

text \<open>
  How one turn of the loop goes: whether the session got connected, the error of \<open>Connect\<close>,
  whether the caller's context is done afterwards, and whether it ends during the wait.
\<close>

record session_outcome =
  so_connected :: bool
  so_error :: "agent_error option"
  so_ctxDone :: bool
  so_waitCancelled :: bool

datatype run_event = OnSessionMetrics SessionMetrics | Retrying agent_error int

fun Run :: "Client \<Rightarrow> int \<Rightarrow> SessionMetrics \<Rightarrow> session_outcome list \<Rightarrow> bool \<times> run_event list" where
  "Run c delay metrics [] = (False, [])"
| "Run c delay metrics (o1 # os) =
     (let up = metrics\<lparr>sme_ActiveSessions := 1, sme_ConnectionsTotal := sme_ConnectionsTotal metrics + 1\<rparr>;
          down = up\<lparr>sme_ActiveSessions := 0, sme_DisconnectionsTotal := sme_DisconnectionsTotal up + 1\<rparr>;
          metrics' = (if so_connected o1 then down else metrics);
          evs = (if so_connected o1 then [OnSessionMetrics up, OnSessionMetrics down] else [])
      in if so_ctxDone o1 then (True, evs)
         else
           case so_error o1 of
             None \<Rightarrow>
               (let (fin, rest) = Run c (cl_reconnectInitialDelay c) metrics' os in (fin, evs @ rest))
           | Some e \<Rightarrow>
               if so_waitCancelled o1 then (True, evs @ [Retrying e delay])
               else
                 let delay' = delay * 2;
                     delay' = (if delay' > cl_reconnectMaxDelay c then cl_reconnectMaxDelay c else delay');
                     (fin, rest) = Run c delay' metrics' os
                 in (fin, evs @ Retrying e delay # rest))"

section \<open>The read loop, request by request\<close>

definition agent_step ::
    "int \<Rightarrow> pending_requests \<Rightarrow> MessageType \<times> byte list \<Rightarrow> (pending_requests \<times> agent_effect list) option" where
  "agent_step maxAlloc pending m = (case agent_receive maxAlloc pending m of Inl _ \<Rightarrow> None | Inr r \<Rightarrow> Some r)"

fun event_key :: "agent_event \<Rightarrow> string option" where
  "event_key (A_Chunk frame) = Some (frame_RequestID frame)"
| "event_key (A_Start payload) = Some (arq_RequestID payload)"
| "event_key (A_End i) = Some i"
| "event_key (A_Cancel i) = Some i"
| "event_key _ = None"

definition agent_key :: "MessageType \<times> byte list \<Rightarrow> string option" where
  "agent_key m = (case agent_decode m of Inl _ \<Rightarrow> None | Inr ev \<Rightarrow> event_key ev)"

fun effect_key :: "agent_effect \<Rightarrow> string option" where
  "effect_key (SendText d) = None"
| "effect_key (StartJob r) = Some (rq_ID r)"
| "effect_key (CancelActive i) = Some i"

text \<open>The loop for a single request: its entry, if it has one, and a message of its own.\<close>

fun key_handle ::
    "int \<Rightarrow> (httpRequestPayload \<times> chunkAssembler) option \<Rightarrow> agent_event
      \<Rightarrow> ((httpRequestPayload \<times> chunkAssembler) option \<times> agent_effect list) option" where
  "key_handle maxAlloc v (A_Chunk frame) =
     (case v of None \<Rightarrow> None
      | Some (p, a) \<Rightarrow> (case assembler_add a frame of Inl _ \<Rightarrow> None | Inr (_, a') \<Rightarrow> Some (Some (p, a'), [])))"
| "key_handle maxAlloc v (A_Start p) =
     (if arq_RequestID p = [] \<or> v \<noteq> None then None
      else case newChunkAssembler maxAlloc (arq_ContentLength p) of
          Inl _ \<Rightarrow> None | Inr a \<Rightarrow> Some (Some (p, a), []))"
| "key_handle maxAlloc v (A_End i) =
     (case v of None \<Rightarrow> None
      | Some (p, a) \<Rightarrow> (case assembler_complete a of Inl _ \<Rightarrow> None | Inr _ \<Rightarrow> Some (None, [StartJob (make_request p a)])))"
| "key_handle maxAlloc v (A_Cancel i) = Some (None, [CancelActive i])"
| "key_handle maxAlloc v _ = Some (v, [])"

definition agent_kstep ::
    "int \<Rightarrow> (httpRequestPayload \<times> chunkAssembler) option \<Rightarrow> MessageType \<times> byte list
      \<Rightarrow> ((httpRequestPayload \<times> chunkAssembler) option \<times> agent_effect list) option" where
  "agent_kstep maxAlloc v m = (case agent_decode m of Inl _ \<Rightarrow> None | Inr ev \<Rightarrow> key_handle maxAlloc v ev)"

definition agent_opens :: "MessageType \<times> byte list \<Rightarrow> bool" where
  "agent_opens m \<longleftrightarrow> (case agent_decode m of Inr (A_Start p) \<Rightarrow> True | _ \<Rightarrow> False)"

definition pending_inv :: "pending_requests \<Rightarrow> bool" where
  "pending_inv pending \<longleftrightarrow> wf_map pending
     \<and> (\<forall>i p a. map_of pending i = Some (p, a) \<longrightarrow> arq_RequestID p = i)"

lemma agent_step_Some:
  "agent_step maxAlloc pending m = Some (pending', es) \<longleftrightarrow>
     (\<exists>ev. agent_decode m = Inr ev \<and> agent_handle maxAlloc pending ev = Inr (pending', es))"
  by (auto simp: agent_step_def agent_receive_def split: sum.splits)

lemma agent_handle_own:
  assumes "agent_handle maxAlloc pending ev = Inr (pending', es)" "event_key ev = Some k"
  shows "key_handle maxAlloc (map_of pending k) ev = Some (map_of pending' k, es)"
  using assms by (cases ev) (auto split: option.splits sum.splits if_splits)

lemma agent_handle_other:
  assumes "agent_handle maxAlloc pending ev = Inr (pending', es)" "event_key ev \<noteq> Some k"
  shows "map_of pending' k = map_of pending k"
  using assms by (cases ev) (auto split: option.splits sum.splits if_splits)

lemma agent_handle_effects:
  assumes "agent_handle maxAlloc pending ev = Inr (pending', es)" "pending_inv pending" "e \<in> set es"
  shows "effect_key e = event_key ev"
  using assms
  by (cases ev) (auto simp: make_request_def pending_inv_def split: option.splits sum.splits if_splits)

lemma agent_handle_inv:
  assumes "agent_handle maxAlloc pending ev = Inr (pending', es)" "pending_inv pending"
  shows "pending_inv pending'"
  using assms
  by (cases ev) (auto simp: pending_inv_def split: option.splits sum.splits if_splits)

lemma agent_handle_enabled:
  assumes "event_key ev = Some k" "key_handle maxAlloc (map_of pending k) ev \<noteq> None"
    and "(case ev of A_Start p \<Rightarrow> length pending < maxPendingRequestStreams | _ \<Rightarrow> True)"
  shows "\<exists>r. agent_handle maxAlloc pending ev = Inr r"
  using assms by (cases ev) (auto split: option.splits sum.splits if_splits)

interpretation agent_loop: demux "agent_step maxAlloc" "map_of" agent_key effect_key "agent_kstep maxAlloc"
    agent_opens length maxPendingRequestStreams pending_inv for maxAlloc
proof
  fix s m s' es k e
  assume inv: "pending_inv s"
  show "agent_kstep maxAlloc (map_of s k) m = Some (map_of s' k, es)"
    if "agent_step maxAlloc s m = Some (s', es)" "agent_key m = Some k"
    using that agent_handle_own by (auto simp: agent_step_Some agent_key_def agent_kstep_def)
  show "map_of s' k = map_of s k"
    if "agent_step maxAlloc s m = Some (s', es)" "agent_key m \<noteq> Some k"
    using that agent_handle_other by (auto simp: agent_step_Some agent_key_def)
  show "effect_key e = agent_key m"
    if "agent_step maxAlloc s m = Some (s', es)" "e \<in> set es"
    using that agent_handle_effects [OF _ inv] by (auto simp: agent_step_Some agent_key_def)
  show "pending_inv s'" if "agent_step maxAlloc s m = Some (s', es)"
    using that agent_handle_inv [OF _ inv] by (auto simp: agent_step_Some)
  show "agent_step maxAlloc s m \<noteq> None"
    if key: "agent_key m = Some k" and ks: "agent_kstep maxAlloc (map_of s k) m \<noteq> None"
      and room: "agent_opens m \<Longrightarrow> length s < maxPendingRequestStreams"
  proof -
    obtain ev where ev: "agent_decode m = Inr ev" "event_key ev = Some k"
      using key by (auto simp: agent_key_def split: sum.splits)
    moreover have "case ev of A_Start p \<Rightarrow> length s < maxPendingRequestStreams | _ \<Rightarrow> True"
      using room ev(1) by (auto simp: agent_opens_def split: agent_event.splits)
    ultimately obtain r where "agent_handle maxAlloc s ev = Inr r"
      using agent_handle_enabled [OF ev(2), of maxAlloc s] ks by (auto simp: agent_kstep_def)
    with ev show ?thesis
      by (cases r) (auto simp: agent_step_Some)
  qed
  have "{k. map_of s k \<noteq> None} = fst ` set s"
    by (metis dom_def dom_map_of_conv_image_fst)
  moreover have "length s = card (fst ` set s)"
    using inv by (simp add: pending_inv_def wf_map_def distinct_card [of "map fst s", simplified])
  ultimately show "finite {k. map_of s k \<noteq> None} \<and> length s = card {k. map_of s k \<noteq> None}"
    by simp
qed

section \<open>Receiving one request\<close>

lemma agent_decode_chunk:
  assumes "MarshalBinary f = Inr d" "frame_Type f = RequestBodyChunk"
  shows "agent_decode (MessageBinary, d) = Inr (A_Chunk f)"
proof -
  have "parseBinaryFrame d = Inr f"
    using upload_codec.dec_enc [OF assms(1)] .
  with assms(2) show ?thesis
    by (simp add: agent_decode_def requestBodyChunk_def RequestBodyChunk_def)
qed

lemma agent_decode_text:
  assumes "agent_reads d = Some (t, p)"
  shows "agent_decode (MessageText, d) =
    (if t = ''ping'' then Inr A_Ping
     else if t = httpRequestStartType then Inr (A_Start p)
     else if t = httpRequestEndType then
       (case agent_reads_end d of None \<Rightarrow> Inl InvalidRequestEnd | Some requestID \<Rightarrow> Inr (A_End requestID))
     else if t = cancelRequestType then Inr (A_Cancel (arq_RequestID p))
     else Inr A_Other)"
  using assms by (simp add: agent_decode_def)

lemma agent_types:
  "httpRequestStartType = HTTPRequestStart" "httpRequestEndType = HTTPRequestEnd"
  "cancelRequestType = CancelRequest" "HTTPRequestStart \<noteq> ''ping''" "HTTPRequestEnd \<noteq> ''ping''"
  "CancelRequest \<noteq> ''ping''" "HTTPRequestEnd \<noteq> HTTPRequestStart" "CancelRequest \<noteq> HTTPRequestStart"
  "CancelRequest \<noteq> HTTPRequestEnd"
  by (simp_all add: agent_type_names type_names)

lemma agent_decode_start:
  "utf8_request p \<Longrightarrow>
     agent_decode (MessageText, Marshal (Envelope_json HTTPRequestStart (Some (HTTPRequestPayload_json p))))
       = Inr (A_Start (agent_request p))"
  by (simp add: agent_decode_text [OF agent_reads_request_start] agent_types)

lemma agent_decode_end:
  "utf8_valid i \<Longrightarrow>
     agent_decode (MessageText, Marshal (Envelope_json HTTPRequestEnd (Some (HTTPRequestEndPayload_json i))))
       = Inr (A_End i)"
  by (simp add: agent_decode_text [OF agent_reads_request_end(1)] agent_reads_request_end(2) agent_types)

lemma agent_decode_cancel:
  "utf8_valid i \<Longrightarrow>
     agent_decode (MessageText, Marshal (Envelope_json CancelRequest (Some (CancelRequestPayload_json i))))
       = Inr (A_Cancel i)"
  by (simp add: agent_decode_text [OF agent_reads_cancel] agent_types)

lemma run_eff_decoded:
  "map agent_decode ms = map Inr evs \<Longrightarrow>
     run_eff (agent_kstep maxAlloc) v ms = run_eff (key_handle maxAlloc) v evs"
proof (induction ms arbitrary: v evs)
  case (Cons m ms)
  then obtain ev evs' where evs: "evs = ev # evs'" "agent_decode m = Inr ev" "map agent_decode ms = map Inr evs'"
    by (cases evs) auto
  then show ?case
    using Cons.IH by (simp add: agent_kstep_def split: option.splits)
qed simp

lemma run_eff_chunks:
  "run_eff (key_handle maxAlloc) (Some (p, a)) (map A_Chunk fs)
     = map_option (\<lambda>a'. (Some (p, a'), [])) (run_opt assembler_step a fs)"
proof (induction fs arbitrary: a)
  case (Cons f fs)
  then show ?case
    by (auto simp: assembler_step_def split: sum.splits option.splits)
qed simp

text \<open>
  A start, the numbered chunks of a body that fits the announced length, and an end: the
  request is started with that body.
\<close>

lemma agent_receives_request:
  assumes "map agent_decode ms = map Inr (A_Start p # map A_Chunk (number_chunks requestBodyChunk i 0 cs) @ [A_End i])"
    and "arq_RequestID p = i" "i \<noteq> []"
    and "arq_ContentLength p = -1 \<or> arq_ContentLength p = int (length (concat cs))"
    and "arq_ContentLength p \<le> maxAlloc" "0 \<le> maxAlloc"
  shows "run_eff (agent_kstep maxAlloc) None ms = Some (None,
    [StartJob \<lparr>rq_ID = i, rq_Method = arq_Method p, rq_Path = arq_Path p,
      rq_Headers = nil_header (arq_Headers p), rq_Body = concat cs\<rparr>])"
proof -
  let ?a = "\<lparr>ca_expected = arq_ContentLength p, ca_next = 0, ca_body = []\<rparr>"
  have new: "newChunkAssembler maxAlloc (arq_ContentLength p) = Inr ?a"
    using assms(4-6) by (auto simp: newChunkAssembler_def)
  have "run_opt assembler_step ?a (number_chunks requestBodyChunk i 0 cs)
      = Some (assembler_move (of_nat (length cs)) (concat cs) ?a)"
    using request_assembler.run_numbered [of cs ?a i] assms(4) by (auto simp: assembler_fits_def)
  then have "run_eff (key_handle maxAlloc) (Some (p, ?a)) (map A_Chunk (number_chunks requestBodyChunk i 0 cs))
      = Some (Some (p, assembler_move (of_nat (length cs)) (concat cs) ?a), [])"
    by (simp add: run_eff_chunks)
  moreover have "assembler_complete (assembler_move n (concat cs) ?a) = Inr ()" for n
    using assms(4) by (auto simp: assembler_complete_def assembler_move_def)
  ultimately have "run_eff (key_handle maxAlloc) None
      (A_Start p # map A_Chunk (number_chunks requestBodyChunk i 0 cs) @ [A_End i])
      = Some (None, [StartJob (make_request p (assembler_move (of_nat (length cs)) (concat cs) ?a))])"
    using assms(2,3) new by (simp add: run_eff_append)
  then show ?thesis
    unfolding run_eff_decoded [OF assms(1)]
    using assms(2) by (simp add: make_request_def assembler_move_def)
qed

section \<open>The messages of a job\<close>

abbreviation fresh_job :: job where
  "fresh_job \<equiv> \<lparr>jb_sent = [], jb_sends = [], jb_sequence = 0, jb_started = False\<rparr>"


text \<open>A body that arrives in reads of at most 32 KiB fits the frames of a short request id.\<close>

definition small_reads :: "body_reads \<Rightarrow> bool" where
  "small_reads reads \<longleftrightarrow> (\<forall>(d, e) \<in> set reads. length d \<le> maxBinaryFramePayload)"

definition chunk_bytes :: "string \<Rightarrow> u32 \<Rightarrow> byte list \<Rightarrow> byte list" where
  "chunk_bytes i n d = frame_bytes (response_chunk i n d)"

lemma sendChunk_ok:
  assumes "i \<noteq> []" "length i < 65536" "length d \<le> maxBinaryFramePayload" "jb_sends j = []"
  shows "sendChunk message i d j =
    (None, j\<lparr>jb_sent := jb_sent j @ [binary_message (chunk_bytes i (jb_sequence j) d)],
             jb_sequence := jb_sequence j + 1\<rparr>)"
proof -
  have "marshalBinary (response_chunk i (jb_sequence j) d) = Inr (chunk_bytes i (jb_sequence j) d)"
    using assms(1-3)
    by (simp add: marshalBinary_def response_chunk_def chunk_bytes_def frame_bytes_def responseBodyChunk_def
        maxBinaryFramePayload_def binaryFrameVersion_def)
  with assms(4) show ?thesis
    by (simp add: sendChunk_def job_send_def)
qed

text \<open>The bytes of the chunks of a body, numbered from \<open>n\<close>.\<close>

fun chunk_messages :: "string \<Rightarrow> u32 \<Rightarrow> byte list list \<Rightarrow> OutboundMessage list" where
  "chunk_messages i n [] = []"
| "chunk_messages i n (c # cs) = binary_message (chunk_bytes i n c) # chunk_messages i (n + 1) cs"

text \<open>How the copy loop ends: with the end of the body, with an error, or waiting.\<close>

fun reads_end :: "body_reads \<Rightarrow> string option progress" where
  "reads_end [] = Waiting"
| "reads_end ((d, e) # reads) =
     (case e of EOF \<Rightarrow> Returned None | ReadError m \<Rightarrow> Returned (Some (''read local response: '' @ m))
      | More \<Rightarrow> reads_end reads)"

fun reads_taken :: "body_reads \<Rightarrow> body_reads" where
  "reads_taken [] = []"
| "reads_taken ((d, e) # reads) = (d, e) # (case e of More \<Rightarrow> reads_taken reads | _ \<Rightarrow> [])"

lemma copy_body_messages:
  assumes "i \<noteq> []" "length i < 65536" "small_reads reads" "jb_sends j = []"
  shows "copy_body (sendChunk message i) reads j =
    (reads_end reads,
     j\<lparr>jb_sent := jb_sent j @ chunk_messages i (jb_sequence j) (chunks_of (reads_taken reads)),
       jb_sequence := jb_sequence j + of_nat (length (chunks_of (reads_taken reads)))\<rparr>)"
  using assms(3,4)
proof (induction reads arbitrary: j)
  case Nil
  then show ?case by (simp add: chunks_of_def)
next
  case (Cons r reads)
  obtain d e where r: "r = (d, e)" by (cases r)
  have d: "length d \<le> maxBinaryFramePayload" and rest: "small_reads reads"
    using Cons.prems(1) by (auto simp: small_reads_def r)
  show ?case
  proof (cases "d = []")
    case True
    with Cons.IH [OF rest] Cons.prems(2) show ?thesis
      by (cases e) (simp_all add: r chunks_of_def)
  next
    case False
    let ?j = "j\<lparr>jb_sent := jb_sent j @ [binary_message (chunk_bytes i (jb_sequence j) d)],
      jb_sequence := jb_sequence j + 1\<rparr>"
    have send: "sendChunk message i d j = (None, ?j)"
      by (rule sendChunk_ok [OF assms(1,2) d Cons.prems(2)])
    show ?thesis
      using False Cons.IH [OF rest, of ?j] Cons.prems(2)
      by (cases e) (simp_all add: r send chunks_of_def add_ac)
  qed
qed

lemma normalizeLocalAddress_empty: "normalizeLocalAddress [] \<noteq> Inr base"
proof -
  have "(case normalizeLocalAddress [] of Inl e \<Rightarrow> True | Inr b \<Rightarrow> False)"
    by code_simp
  then show ?thesis by auto
qed

definition local_request :: "string \<Rightarrow> agent_Request \<Rightarrow> LocalRequest" where
  "local_request base request =
     \<lparr>lr_Method = rq_Method request, lr_URL = base @ rq_Path request,
      lr_Header = agent_withoutHopByHopHeaders (rq_Headers request), lr_Body = rq_Body request\<rparr>"

definition start_payload :: "string \<Rightarrow> int \<Rightarrow> Header \<Rightarrow> httpResponsePayload" where
  "start_payload i status header =
     \<lparr>ars_RequestID = i, ars_StatusCode = status, ars_Headers = Some (agent_withoutHopByHopHeaders header),
      ars_ContentLength = -1, ars_Error = []\<rparr>"

definition error_payload :: "string \<Rightarrow> string \<Rightarrow> httpResponsePayload" where
  "error_payload i e = \<lparr>ars_RequestID = i, ars_StatusCode = 502, ars_Headers = None,
     ars_ContentLength = 0, ars_Error = e\<rparr>"

text \<open>The messages of a job whose local service answers, however the body ends.\<close>

lemma run_job_reply:
  assumes "normalizeLocalAddress localAddress = Inr base"
    and "newRequest (rq_Method request) (base @ rq_Path request) = None"
    and "exch (local_request base request) = Exchange status header reads"
    and "rq_ID request \<noteq> []" "length (rq_ID request) < 65536" "small_reads reads"
    and "reads_end reads = Returned err"
  shows "fst (run_job message newRequest exch localAddress request [])"
    and "jb_sent (snd (run_job message newRequest exch localAddress request [])) =
      response_start_message (start_payload (rq_ID request) status header)
      # chunk_messages (rq_ID request) 0 (chunks_of (reads_taken reads))
      @ [response_end_message (rq_ID request)]"
proof -
  let ?j = "fresh_job\<lparr>jb_sent := [response_start_message (start_payload (rq_ID request) status header)],
    jb_started := True\<rparr>"
  have ne: "localAddress \<noteq> []"
    using assms(1) normalizeLocalAddress_empty by auto
  have start: "sendStart (rq_ID request) \<lparr>loc_StatusCode = status,
      loc_Headers = agent_withoutHopByHopHeaders header, loc_Body = []\<rparr> fresh_job = (None, ?j)"
    by (simp add: sendStart_def job_send_def start_payload_def)
  have "StreamLocal newRequest exch localAddress request (sendStart (rq_ID request))
      (sendChunk message (rq_ID request)) fresh_job
      = copy_body (sendChunk message (rq_ID request)) reads ?j"
    using assms(1-3) by (simp add: StreamLocal_def local_request_def start)
  also have "\<dots> = (Returned err, ?j\<lparr>jb_sent := jb_sent ?j @ chunk_messages (rq_ID request) 0 (chunks_of (reads_taken reads)),
      jb_sequence := of_nat (length (chunks_of (reads_taken reads)))\<rparr>)"
    using copy_body_messages [OF assms(4-6), of ?j message] assms(7) by simp
  finally show "fst (run_job message newRequest exch localAddress request [])"
    and "jb_sent (snd (run_job message newRequest exch localAddress request [])) =
      response_start_message (start_payload (rq_ID request) status header)
      # chunk_messages (rq_ID request) 0 (chunks_of (reads_taken reads))
      @ [response_end_message (rq_ID request)]"
    using ne by (auto simp: run_job_def job_send_def split: option.splits)
qed

lemma reads_taken_append:
  "(\<forall>(d, e) \<in> set reads. e = More) \<Longrightarrow> reads_taken (reads @ rest) = reads @ reads_taken rest"
  by (induction reads) auto

lemma reads_end_append:
  "(\<forall>(d, e) \<in> set reads. e = More) \<Longrightarrow> reads_end (reads @ rest) = reads_end rest"
  by (induction reads) auto

lemma normalizeLocalAddress_port:
  assumes "0 < port" and "port < 65536"
  shows "normalizeLocalAddress (show_nat port) = Inr (''http://127.0.0.1:'' @ show_nat port)"
proof -
  have dig: "is_digit c" if "c \<in> set (show_nat port)" for c
    using show_nat_digits [of port] that by (simp add: list_all_iff)
  then have "plain_char c" if "c \<in> set (show_nat port)" for c
    using that by (fastforce simp: is_digit_def plain_char_def)
  then have "TrimSpace (show_nat port) = show_nat port"
    by (intro TrimSpace_plain) auto
  moreover have "TrimRightByte CHR ''/'' (show_nat port) = show_nat port"
  proof -
    have "last (show_nat port) \<noteq> CHR ''/''"
      using dig [of "last (show_nat port)"] by (auto simp: is_digit_def)
    then have "dropWhile (\<lambda>x. x = CHR ''/'') (rev (show_nat port)) = rev (show_nat port)"
      by (simp add: dropWhile_eq_self_iff hd_rev)
    then show ?thesis by (simp add: TrimRightByte_def)
  qed
  moreover have "ParseUint16 (show_nat port) = Some port"
    using assms(2) by (simp add: ParseUint16_def show_nat_digits)
  moreover have "\<not> HasPrefix (''127.0.0.1:'' @ s) ''http://''" "\<not> HasPrefix (''127.0.0.1:'' @ s) ''https://''" for s
    by (simp_all add: HasPrefix_def)
  ultimately show ?thesis
    using assms(1) by (simp add: normalizeLocalAddress_def)
qed

section \<open>Properties\<close>

text \<open>
  C36: a reply of the local service that breaks off looks like a complete one. If reading the
  local response fails after some chunks, the job sends exactly the messages it would have
  sent if the body had ended there, so the gateway delivers the truncated body as a success.
\<close>

theorem broken_reply_looks_complete:
  assumes "normalizeLocalAddress localAddress = Inr base"
    and "newRequest (rq_Method request) (base @ rq_Path request) = None"
    and "exch (local_request base request) = Exchange status header (reads @ [(d, ReadError m)])"
    and "exch' (local_request base request) = Exchange status header (reads @ [(d, EOF)])"
    and "rq_ID request \<noteq> []" and "length (rq_ID request) < 65536"
    and "small_reads (reads @ [(d, EOF)])" and "\<forall>(d, e) \<in> set reads. e = More"
  shows "jb_sent (snd (run_job message newRequest exch localAddress request []))
       = jb_sent (snd (run_job message newRequest exch' localAddress request []))"
proof -
  have "small_reads (reads @ [(d, ReadError m)])"
    using assms(7) by (auto simp: small_reads_def)
  moreover have "reads_end (reads @ [(d, ReadError m)]) = Returned (Some (''read local response: '' @ m))"
    "reads_end (reads @ [(d, EOF)]) = Returned None"
    using reads_end_append [OF assms(8)] by simp_all
  moreover have "chunks_of (reads_taken (reads @ [(d, ReadError m)])) = chunks_of (reads_taken (reads @ [(d, EOF)]))"
    using reads_taken_append [OF assms(8)] by (simp add: chunks_of_def)
  ultimately show ?thesis
    using run_job_reply(2) [where newRequest = newRequest and exch = exch and message = message, OF assms(1-3) assms(5,6)]
      run_job_reply(2) [where newRequest = newRequest and exch = exch' and message = message, OF assms(1,2,4) assms(5-7)] by simp
qed

definition example_agent_request :: agent_Request where
  "example_agent_request = \<lparr>rq_ID = ''r'', rq_Method = ''GET'', rq_Path = ''/'', rq_Headers = [], rq_Body = []\<rparr>"

theorem broken_reply_looks_complete_witness:
  "jb_sent (snd (run_job (\<lambda>_. []) (\<lambda>_ _. None) (\<lambda>_. Exchange 200 [] [([7], More), ([], ReadError ''reset'')])
      (show_nat 3000) example_agent_request []))
   = jb_sent (snd (run_job (\<lambda>_. []) (\<lambda>_ _. None) (\<lambda>_. Exchange 200 [] [([7], More), ([], EOF)])
      (show_nat 3000) example_agent_request []))"
proof -
  have "normalizeLocalAddress (show_nat 3000) = Inr (''http://127.0.0.1:'' @ show_nat 3000)"
    by (rule normalizeLocalAddress_port) simp_all
  moreover have "small_reads [([7], More), ([], EOF)]"
    by (simp add: small_reads_def maxBinaryFramePayload_def)
  ultimately show ?thesis
    using broken_reply_looks_complete [of "show_nat 3000" "''http://127.0.0.1:'' @ show_nat 3000" "\<lambda>_ _. None" example_agent_request
        "\<lambda>_. Exchange 200 [] [([7], More), ([], ReadError ''reset'')]" 200 "[]" "[([7], More)]" "[]" "''reset''"
        "\<lambda>_. Exchange 200 [] [([7], More), ([], EOF)]"]
    by (simp add: example_agent_request_def)
qed

lemma pool_step_keeps:
  assumes "pool_step p e = Some p'"
    and "length (wp_running p) \<le> wp_workers p" "length (ch_buf (wp_jobs p)) \<le> ch_cap (wp_jobs p)"
  shows "length (wp_running p') \<le> wp_workers p' \<and> length (ch_buf (wp_jobs p')) \<le> ch_cap (wp_jobs p')
    \<and> wp_workers p' = wp_workers p \<and> ch_cap (wp_jobs p') = ch_cap (wp_jobs p)"
  using assms by (cases e) (auto simp: chan_send_def chan_recv_def split: if_splits list.splits)


definition example_config :: Config where
  "example_config = \<lparr>cfg_GatewayURL = ''wss://gateway'', cfg_Token = ''tkn_1'', cfg_Version = ''1'',
     cfg_LocalAddress = ''3000'', cfg_MaxConcurrentRequests = 2\<rparr>"


fun retry_delay :: "run_event \<Rightarrow> int option" where
  "retry_delay (Retrying e d) = Some d"
| "retry_delay _ = None"

definition retry_delays :: "run_event list \<Rightarrow> int list" where
  "retry_delays evs = List.map_filter retry_delay evs"

lemma retry_delays_simps [simp]:
  "retry_delays [] = []" "retry_delays (Retrying e d # evs) = d # retry_delays evs"
  "retry_delays (OnSessionMetrics m # evs) = retry_delays evs"
  by (simp_all add: retry_delays_def List.map_filter_simps)

lemma Run_delays_bounded:
  assumes "0 < cl_reconnectInitialDelay c" "cl_reconnectInitialDelay c \<le> cl_reconnectMaxDelay c"
    and "cl_reconnectInitialDelay c \<le> d" "d \<le> cl_reconnectMaxDelay c"
    and "x \<in> set (retry_delays (snd (Run c d m os)))"
  shows "cl_reconnectInitialDelay c \<le> x \<and> x \<le> cl_reconnectMaxDelay c"
  using assms(3-)
proof (induction os arbitrary: d m)
  case (Cons o1 os)
  let ?d = "if d * 2 > cl_reconnectMaxDelay c then cl_reconnectMaxDelay c else d * 2"
  have "cl_reconnectInitialDelay c \<le> ?d" "?d \<le> cl_reconnectMaxDelay c"
    using assms(1,2) Cons.prems(1) by auto
  with Cons.IH [of ?d] Cons.IH [of "cl_reconnectInitialDelay c"] Cons.prems assms(2) show ?case
    by (auto simp: Let_def case_prod_unfold split: option.splits if_splits)
qed simp

lemma Run_delays_double:
  assumes "\<forall>o1 \<in> set os. so_error o1 \<noteq> None \<and> \<not> so_ctxDone o1 \<and> \<not> so_waitCancelled o1"
    and "0 \<le> cl_reconnectInitialDelay c" and "0 \<le> cl_reconnectMaxDelay c"
    and "d = min (cl_reconnectMaxDelay c) (2 ^ k * cl_reconnectInitialDelay c)"
  shows "retry_delays (snd (Run c d m os)) =
    map (\<lambda>i. min (cl_reconnectMaxDelay c) (2 ^ (k + i) * cl_reconnectInitialDelay c)) [0..<length os]"
  using assms(1,4)
proof (induction os arbitrary: d k m)
  case (Cons o1 os)
  let ?M = "cl_reconnectMaxDelay c" and ?I = "cl_reconnectInitialDelay c"
  let ?d = "if d * 2 > ?M then ?M else d * 2"
  have doubled: "?d = min ?M (2 ^ Suc k * ?I)"
  proof -
    have "0 \<le> 2 ^ k * ?I" using assms(2) by simp
    with Cons.prems(2) assms(3) show ?thesis by (auto simp: min_def)
  qed
  obtain e where "so_error o1 = Some e" "\<not> so_ctxDone o1" "\<not> so_waitCancelled o1"
    using Cons.prems(1) by auto
  then have "\<exists>m'. retry_delays (snd (Run c d m (o1 # os))) = d # retry_delays (snd (Run c ?d m' os))"
    by (auto simp: Let_def case_prod_unfold)
  moreover have "[0..<length (o1 # os)] = 0 # map Suc [0..<length os]"
    by (simp add: upt_conv_Cons map_Suc_upt del: upt_Suc)
  ultimately show ?case
    using Cons.IH [of ?d "Suc k"] doubled Cons.prems by (auto simp: comp_def)
qed simp

text \<open>
  the agent retries with exponential backoff. Whatever happens to its sessions, every
  wait is between one second and thirty; in a row of sessions that each end with an error, the
  waits are one second doubling up to thirty, whether or not the sessions had connected.
\<close>

theorem reconnect_backoff:
  "(\<forall>x \<in> set (retry_delays (snd (Run New_Client Second m os))). Second \<le> x \<and> x \<le> 30 * Second)
   \<and> ((\<forall>o1 \<in> set os. so_error o1 \<noteq> None \<and> \<not> so_ctxDone o1 \<and> \<not> so_waitCancelled o1) \<longrightarrow>
       retry_delays (snd (Run New_Client Second m os)) = map (\<lambda>i. min (30 * Second) (2 ^ i * Second)) [0..<length os])"
proof -
  have c: "cl_reconnectInitialDelay New_Client = Second" "cl_reconnectMaxDelay New_Client = 30 * Second" "0 < Second"
    by (simp_all add: New_Client_def Second_def)
  then have d: "Second = min (cl_reconnectMaxDelay New_Client) (2 ^ 0 * cl_reconnectInitialDelay New_Client)"
    by simp
  have "\<forall>x \<in> set (retry_delays (snd (Run New_Client Second m os))). Second \<le> x \<and> x \<le> 30 * Second"
    using Run_delays_bounded [of New_Client Second _ m os] c by simp
  moreover have "retry_delays (snd (Run New_Client Second m os)) = map (\<lambda>i. min (30 * Second) (2 ^ i * Second)) [0..<length os]"
    if "\<forall>o1 \<in> set os. so_error o1 \<noteq> None \<and> \<not> so_ctxDone o1 \<and> \<not> so_waitCancelled o1"
    using Run_delays_double [OF that _ _ d, of m] c by simp
  ultimately show ?thesis by blast
qed

theorem reconnect_backoff_witness:
  "retry_delays (snd (Run New_Client Second \<lparr>sme_ActiveSessions = 0, sme_ConnectionsTotal = 0, sme_DisconnectionsTotal = 0\<rparr>
      [\<lparr>so_connected = True, so_error = Some InvalidChunk, so_ctxDone = False, so_waitCancelled = False\<rparr>]))
   = [Second]"
  using reconnect_backoff [of "\<lparr>sme_ActiveSessions = 0, sme_ConnectionsTotal = 0, sme_DisconnectionsTotal = 0\<rparr>"
      "[\<lparr>so_connected = True, so_error = Some InvalidChunk, so_ctxDone = False, so_waitCancelled = False\<rparr>]"]
  by (simp add: Second_def)

text \<open>
  a bare port names the local machine. The decimal port of 1 to 65535 becomes an address
  on the loopback interface, and every accepted address has an HTTP scheme.
\<close>

theorem local_address_normalised:
  assumes "0 < port" and "port < 65536"
  shows "normalizeLocalAddress (show_nat port) = Inr (''http://127.0.0.1:'' @ show_nat port)
    \<and> (normalizeLocalAddress a = Inr b \<longrightarrow> HasPrefix b ''http://'' \<or> HasPrefix b ''https://'')"
  using normalizeLocalAddress_port [OF assms] normalizeLocalAddress_scheme by simp

theorem local_address_normalised_witness:
  "normalizeLocalAddress (show_nat 3000) = Inr (''http://127.0.0.1:'' @ show_nat 3000)"
  using local_address_normalised [of 3000] by simp

end
