(* ===== verification/Encodings.thy ===== *)
theory Encodings
  imports Go_Strings
begin

text \<open>
  The text encodings of the standard library that the sources use: \<open>encoding/hex\<close> and the
  unpadded URL alphabet of \<open>encoding/base64\<close> (\<open>RawURLEncoding\<close>). Identifiers and tokens are
  random bytes in one of them, so the lemmas that matter are that encoding loses nothing and
  produces plain characters only.
\<close>

section \<open>Hexadecimal\<close>

definition hex_alphabet :: string where
  "hex_alphabet = ''0123456789abcdef''"

definition hex_char :: "nat \<Rightarrow> char" where
  "hex_char n = hex_alphabet ! n"

fun hex_EncodeToString :: "byte list \<Rightarrow> string" where
  "hex_EncodeToString [] = []"
| "hex_EncodeToString (b # bs) =
     hex_char (unat b div 16) # hex_char (unat b mod 16) # hex_EncodeToString bs"

section \<open>Base 64\<close>

definition b64_alphabet :: string where
  "b64_alphabet = ''ABCDEFGHIJKLMNOPQRSTUVWXYZabcdefghijklmnopqrstuvwxyz0123456789-_''"

definition b64_char :: "nat \<Rightarrow> char" where
  "b64_char n = b64_alphabet ! n"

definition b64_value :: "char \<Rightarrow> nat option" where
  "b64_value c = IndexByte b64_alphabet c"

fun RawURL_EncodeToString :: "byte list \<Rightarrow> string" where
  "RawURL_EncodeToString (a # b # c # bs) =
     map b64_char [unat a div 4, unat a mod 4 * 16 + unat b div 16, unat b mod 16 * 4 + unat c div 64, unat c mod 64]
     @ RawURL_EncodeToString bs"
| "RawURL_EncodeToString [a, b] =
     map b64_char [unat a div 4, unat a mod 4 * 16 + unat b div 16, unat b mod 16 * 4]"
| "RawURL_EncodeToString [a] = map b64_char [unat a div 4, unat a mod 4 * 16]"
| "RawURL_EncodeToString [] = []"

text \<open>
  Decoding skips line ends, refuses other characters and a lone last character, and ignores
  the bits of the last character that no byte uses.
\<close>

fun b64_bytes :: "nat list \<Rightarrow> byte list option" where
  "b64_bytes (w # x # y # z # vs) =
     map_option (\<lambda>bs. of_nat (w * 4 + x div 16) # of_nat (x mod 16 * 16 + y div 4) # of_nat (y mod 4 * 64 + z) # bs)
       (b64_bytes vs)"
| "b64_bytes [w, x, y] = Some [of_nat (w * 4 + x div 16), of_nat (x mod 16 * 16 + y div 4)]"
| "b64_bytes [w, x] = Some [of_nat (w * 4 + x div 16)]"
| "b64_bytes [w] = None"
| "b64_bytes [] = Some []"

definition RawURL_DecodeString :: "string \<Rightarrow> byte list option" where
  "RawURL_DecodeString s =
     (case those (map b64_value (filter (\<lambda>c. c \<noteq> CHR 0x0A \<and> c \<noteq> CHR 0x0D) s)) of
        None \<Rightarrow> None | Some vs \<Rightarrow> b64_bytes vs)"

section \<open>Round trips\<close>

lemma IndexByte_nth: "distinct s \<Longrightarrow> i < length s \<Longrightarrow> IndexByte s (s ! i) = Some i"
  by (induction s arbitrary: i) (auto simp: nth_Cons split: nat.splits)

lemma byte_less [simp]: "unat (b :: byte) < 256"
  using unsigned_less [of b] by simp

lemma b64_alphabet_facts: "length b64_alphabet = 64" "distinct b64_alphabet"
  by (simp_all add: b64_alphabet_def)

lemma b64_value_char [simp]: "n < 64 \<Longrightarrow> b64_value (b64_char n) = Some n"
  by (simp add: b64_value_def b64_char_def IndexByte_nth b64_alphabet_facts)

definition id_char :: "char \<Rightarrow> bool" where
  "id_char c \<longleftrightarrow> is_lower c \<or> is_upper c \<or> is_digit c \<or> c = CHR ''-'' \<or> c = CHR ''_''"

lemma b64_char_id: "n < 64 \<Longrightarrow> id_char (b64_char n)"
proof -
  have "list_all id_char b64_alphabet"
    by (simp add: b64_alphabet_def id_char_def is_lower_def is_upper_def is_digit_def)
  then show "n < 64 \<Longrightarrow> id_char (b64_char n)"
    by (simp add: list_all_iff b64_char_def b64_alphabet_facts)
qed

lemma hex_char_id: "n < 16 \<Longrightarrow> id_char (hex_char n)"
proof -
  have "list_all id_char hex_alphabet"
    by (simp add: hex_alphabet_def id_char_def is_lower_def is_upper_def is_digit_def)
  moreover have "length hex_alphabet = 16"
    by (simp add: hex_alphabet_def)
  ultimately show "n < 16 \<Longrightarrow> id_char (hex_char n)"
    by (simp add: list_all_iff hex_char_def)
qed

lemma sextets:
  fixes a b c :: byte
  shows "unat a div 4 < 64" "unat a mod 4 * 16 + unat b div 16 < 64" "unat b mod 16 * 4 + unat c div 64 < 64"
    "unat c mod 64 < 64" "unat b mod 16 * 4 < 64" "unat a mod 4 * 16 < 64"
  using byte_less [of a] byte_less [of b] byte_less [of c] by linarith+

lemma join_octets:
  assumes "b < 256" "c < (256 :: nat)"
  shows "a div 4 * 4 + (a mod 4 * 16 + b div 16) div 16 = a"
    and "a div 4 * 4 + a mod 4 = a"
    and "(a mod 4 * 16 + b div 16) mod 16 * 16 + (b mod 16 * 4 + c div 64) div 4 = b"
    and "(a mod 4 * 16 + b div 16) mod 16 * 16 + b mod 16 = b"
    and "(b mod 16 * 4 + c div 64) mod 4 * 64 + c mod 64 = c"
proof -
  have q: "b div 16 < 16" "c div 64 < 4"
    using assms by linarith+
  then have "(a mod 4 * 16 + b div 16) div 16 = a mod 4" "(a mod 4 * 16 + b div 16) mod 16 = b div 16"
    "(b mod 16 * 4 + c div 64) div 4 = b mod 16" "(b mod 16 * 4 + c div 64) mod 4 = c div 64"
    by simp_all
  then show "a div 4 * 4 + (a mod 4 * 16 + b div 16) div 16 = a" "a div 4 * 4 + a mod 4 = a"
    "(a mod 4 * 16 + b div 16) mod 16 * 16 + (b mod 16 * 4 + c div 64) div 4 = b"
    "(a mod 4 * 16 + b div 16) mod 16 * 16 + b mod 16 = b"
    "(b mod 16 * 4 + c div 64) mod 4 * 64 + c mod 64 = c"
    by simp_all
qed

lemma RawURL_chars: "list_all id_char (RawURL_EncodeToString bs)"
  by (induction bs rule: RawURL_EncodeToString.induct) (simp_all add: b64_char_id sextets)

lemma hex_chars: "list_all id_char (hex_EncodeToString bs)"
proof (induction bs)
  case (Cons b bs)
  have "unat b div 16 < 16" using byte_less [of b] by linarith
  with Cons show ?case by (simp add: hex_char_id)
qed simp

lemma id_char_plain: "id_char c \<Longrightarrow> c \<noteq> CHR 0x0A \<and> c \<noteq> CHR 0x0D \<and> c \<noteq> CHR ''.''"
  by (auto simp: id_char_def is_lower_def is_upper_def is_digit_def)

lemma those_values:
  "those (map b64_value (RawURL_EncodeToString bs)) = Some vs \<Longrightarrow> b64_bytes vs = Some bs"
proof (induction bs arbitrary: vs rule: RawURL_EncodeToString.induct)
  case (1 a b c bs)
  let ?vs = "[unat a div 4, unat a mod 4 * 16 + unat b div 16, unat b mod 16 * 4 + unat c div 64, unat c mod 64]"
  from 1(2) obtain ws where vs: "vs = ?vs @ ws" "those (map b64_value (RawURL_EncodeToString bs)) = Some ws"
    by (auto simp: sextets split: option.splits)
  have "unat a div 4 * 4 + (unat a mod 4 * 16 + unat b div 16) div 16 = unat a"
    "(unat a mod 4 * 16 + unat b div 16) mod 16 * 16 + (unat b mod 16 * 4 + unat c div 64) div 4 = unat b"
    "(unat b mod 16 * 4 + unat c div 64) mod 4 * 64 + unat c mod 64 = unat c"
    using join_octets(1,3,5) [OF byte_less [of b] byte_less [of c]] by blast+
  then show ?case
    using 1(1) [OF vs(2)] by (simp add: vs(1) del: of_nat_add of_nat_mult)
next
  case (2 a b)
  have "unat a div 4 * 4 + (unat a mod 4 * 16 + unat b div 16) div 16 = unat a"
    "(unat a mod 4 * 16 + unat b div 16) mod 16 * 16 + (unat b mod 16 * 4) div 4 = unat b"
    using join_octets(1,4) [OF byte_less [of b] byte_less [of b], of "unat a"] by simp_all
  with 2 show ?case by (auto simp: sextets simp del: of_nat_add of_nat_mult)
next
  case (3 a)
  have "unat a div 4 * 4 + (unat a mod 4 * 16) div 16 = unat a"
    by simp
  with 3 show ?case by (auto simp: sextets simp del: of_nat_add of_nat_mult)
qed simp

lemma those_encoded: "\<exists>vs. those (map b64_value (RawURL_EncodeToString bs)) = Some vs"
  by (induction bs rule: RawURL_EncodeToString.induct) (auto simp: sextets)

lemma RawURL_roundtrip [simp]: "RawURL_DecodeString (RawURL_EncodeToString bs) = Some bs"
proof -
  have "filter (\<lambda>c. c \<noteq> CHR 0x0A \<and> c \<noteq> CHR 0x0D) (RawURL_EncodeToString bs) = RawURL_EncodeToString bs"
    using RawURL_chars [of bs] id_char_plain by (auto simp: filter_id_conv list_all_iff)
  then show ?thesis
    using those_encoded [of bs] those_values [of bs] by (auto simp: RawURL_DecodeString_def)
qed

lemma RawURL_inj: "RawURL_EncodeToString a = RawURL_EncodeToString b \<Longrightarrow> a = b"
  by (metis RawURL_roundtrip option.inject)

lemma hex_char_inj: "m < 16 \<Longrightarrow> n < 16 \<Longrightarrow> hex_char m = hex_char n \<longleftrightarrow> m = n"
proof -
  have "distinct hex_alphabet" "length hex_alphabet = 16"
    by (simp_all add: hex_alphabet_def)
  then show "m < 16 \<Longrightarrow> n < 16 \<Longrightarrow> hex_char m = hex_char n \<longleftrightarrow> m = n"
    by (simp add: hex_char_def nth_eq_iff_index_eq)
qed

lemma hex_inj: "hex_EncodeToString a = hex_EncodeToString b \<Longrightarrow> a = b"
proof (induction a arbitrary: b)
  case Nil
  then show ?case by (cases b) auto
next
  case (Cons x a)
  then obtain y c where b: "b = y # c" by (cases b) auto
  have "unat x div 16 < 16" "unat y div 16 < 16"
    using byte_less [of x] byte_less [of y] by linarith+
  with Cons.prems have "unat x div 16 = unat y div 16" "unat x mod 16 = unat y mod 16"
    by (simp_all add: b hex_char_inj)
  then have "unat x = unat y"
    by (metis div_mult_mod_eq)
  then show ?case
    using Cons.IH [of c] Cons.prems by (simp add: b word_unat_eq_iff)
qed

lemma length_hex [simp]: "length (hex_EncodeToString bs) = 2 * length bs"
  by (induction bs) auto

lemma id_chars_utf8: "list_all id_char s \<Longrightarrow> utf8_valid s"
  by (rule utf8_valid_ascii)
    (auto simp: list_all_iff id_char_def is_lower_def is_upper_def is_digit_def is_ascii_def)

end
