(* ===== verification/Sha256.thy ===== *)
theory Sha256
  imports Encodings
begin

text \<open>
  The hash functions of the standard library that the sources use, \<open>crypto/sha256\<close> and
  \<open>crypto/hmac\<close> over it, as functions on byte lists (FIPS 180-4, RFC 2104). Tokens are stored
  and looked up by them.
\<close>

text \<open>
  The constants are the first 32 bits of the fractional parts of the cube roots of the first
  64 primes, and of the square roots of the first eight.
\<close>

fun root_bits :: "nat \<Rightarrow> nat \<Rightarrow> nat \<Rightarrow> nat \<Rightarrow> nat" where
  "root_bits k n 0 r = r"
| "root_bits k n (Suc i) r = root_bits k n i (if (r + 2 ^ i) ^ k \<le> n then r + 2 ^ i else r)"

definition first_primes :: "nat list" where
  "first_primes = filter (\<lambda>p. list_all (\<lambda>d. p mod d \<noteq> 0) [2..<p]) [2..<312]"

definition sha_k :: "u32 list" where
  "sha_k = map (\<lambda>p. of_nat (root_bits 3 (p * 2 ^ 96) 36 0)) first_primes"

definition sha_init :: "u32 list" where
  "sha_init = map (\<lambda>p. of_nat (root_bits 2 (p * 2 ^ 64) 36 0)) [2, 3, 5, 7, 11, 13, 17, 19]"

definition rotr :: "nat \<Rightarrow> u32 \<Rightarrow> u32" where
  "rotr n x = drop_bit n x OR push_bit (32 - n) x"

text \<open>Padding: a one bit, zeros, and the length in bits as 64 bits.\<close>

definition sha_pad :: "byte list \<Rightarrow> byte list" where
  "sha_pad m =
     m @ 0x80 # replicate ((119 - length m mod 64) mod 64) 0
       @ map (\<lambda>i. of_nat (8 * length m div 256 ^ (7 - i) mod 256)) [0..<8]"

fun words_of :: "byte list \<Rightarrow> u32 list" where
  "words_of (a # b # c # d # bs) = Uint32 [a, b, c, d] # words_of bs"
| "words_of _ = []"

text \<open>The message schedule, latest word first.\<close>

fun schedule :: "nat \<Rightarrow> u32 list \<Rightarrow> u32 list" where
  "schedule 0 ws = ws"
| "schedule (Suc n) ws =
     (let w15 = ws ! 14; w2 = ws ! 1;
          s0 = rotr 7 w15 XOR rotr 18 w15 XOR drop_bit 3 w15;
          s1 = rotr 17 w2 XOR rotr 19 w2 XOR drop_bit 10 w2
      in schedule n ((ws ! 15 + s0 + ws ! 6 + s1) # ws))"

fun sha_round :: "u32 list \<Rightarrow> u32 \<times> u32 \<Rightarrow> u32 list" where
  "sha_round [a, b, c, d, e, f, g, h] (k, w) =
     (let s1 = rotr 6 e XOR rotr 11 e XOR rotr 25 e;
          ch = (e AND f) XOR (NOT e AND g);
          temp1 = h + s1 + ch + k + w;
          s0 = rotr 2 a XOR rotr 13 a XOR rotr 22 a;
          maj = (a AND b) XOR (a AND c) XOR (b AND c)
      in [temp1 + (s0 + maj), a, b, c, d + temp1, e, f, g])"
| "sha_round s _ = s"

definition sha_block :: "u32 list \<Rightarrow> byte list \<Rightarrow> u32 list" where
  "sha_block hs block =
     map2 (+) hs (foldl sha_round hs (zip sha_k (rev (schedule 48 (rev (words_of block))))))"

fun blocks_of :: "nat \<Rightarrow> byte list \<Rightarrow> byte list list" where
  "blocks_of 0 bs = []"
| "blocks_of (Suc n) bs = take 64 bs # blocks_of n (drop 64 bs)"

definition Sum256 :: "byte list \<Rightarrow> byte list" where
  "Sum256 m =
     (let p = sha_pad m
      in concat (map PutUint32 (foldl sha_block sha_init (blocks_of (length p div 64) p))))"

text \<open>The code authenticating a message under a secret.\<close>

definition hmac_key :: "byte list \<Rightarrow> byte list" where
  "hmac_key secret =
     (let k = (if length secret > 64 then Sum256 secret else secret)
      in k @ replicate (64 - length k) 0)"

definition hmac_sha256 :: "byte list \<Rightarrow> byte list \<Rightarrow> byte list" where
  "hmac_sha256 secret m =
     Sum256 (map (\<lambda>b. b XOR 0x5c) (hmac_key secret)
       @ Sum256 (map (\<lambda>b. b XOR 0x36) (hmac_key secret) @ m))"

section \<open>Sizes\<close>

lemma length_sha_round: "length s = 8 \<Longrightarrow> length (sha_round s x) = 8"
proof -
  assume "length s = 8"
  then obtain a b c d e f g h where "s = [a, b, c, d, e, f, g, h]"
    by (auto simp: length_Suc_conv eval_nat_numeral)
  then show ?thesis
    by (cases x) (simp add: Let_def)
qed

lemma length_sha_rounds: "length s = 8 \<Longrightarrow> length (foldl sha_round s xs) = 8"
  by (induction xs arbitrary: s) (simp_all add: length_sha_round)

lemma length_sha_blocks: "length s = 8 \<Longrightarrow> length (foldl sha_block s bs) = 8"
  by (induction bs arbitrary: s) (simp_all add: sha_block_def length_sha_rounds)

lemma length_concat_PutUint32: "length (concat (map PutUint32 ws)) = 4 * length ws"
  by (induction ws) auto

lemma length_Sum256 [simp]: "length (Sum256 m) = 32"
proof -
  have "length sha_init = 8"
    by (simp add: sha_init_def)
  then show ?thesis
    by (simp add: Sum256_def Let_def length_concat_PutUint32 length_sha_blocks)
qed

lemma length_hmac [simp]: "length (hmac_sha256 secret m) = 32"
  by (simp add: hmac_sha256_def)

end
