(* ===== verification/Agent_Connect.thy ===== *)
theory Agent_Connect
  imports Messages Chunk_Assembler Session_Manager Demux Sha256
begin

text \<open>
  The gateway's end of an agent connection,
  \<^verbatim>\<open>backend/internal/gateway/agent_connect.go\<close>: authentication, the handshake, the loop that
  serves a session and what is undone when it ends. The web socket, the clock, the random
  source and the services behind the handler are arguments: what a read, a write or a service
  call returns is part of the event the model processes, and what is written or called is in
  the list of effects. \<open>gateway_receive\<close> is the part of the loop that depends on the received
  message and the table of responses only; it is an instance of \<open>demux\<close>, and its assemblies
  are instances of \<open>chunk_receiver\<close>.
\<close>

definition defaultHeartbeatInterval :: int where "defaultHeartbeatInterval = 20 * Second"
definition maxPendingResponseStreams :: nat where "maxPendingResponseStreams = 32"
definition gateway_websocketReadLimit :: nat where "gateway_websocketReadLimit = 65536"
definition maxTunnelResponseBodyBytes :: int where "maxTunnelResponseBodyBytes = 33554432"

definition StatusPolicyViolation :: int where "StatusPolicyViolation = 1008"
definition StatusUnsupportedData :: int where "StatusUnsupportedData = 1003"
definition StatusInternalError :: int where "StatusInternalError = 1011"

section \<open>Authentication and identifiers\<close>

definition bearer_token :: "Header \<Rightarrow> string" where
  "bearer_token header = TrimSpace (TrimPrefix (header_Get header ''Authorization'') ''Bearer '')"

text \<open>The token a connection is accepted with, if it is; \<open>validateToken\<close> is the lookup.\<close>

definition authorized_token :: "(string \<Rightarrow> bool) \<Rightarrow> Header \<Rightarrow> string option" where
  "authorized_token validateToken header =
     (let rawToken = bearer_token header
      in if \<not> HasPrefix rawToken ''tkn_'' \<or> \<not> validateToken rawToken then None else Some rawToken)"

definition hash_hex :: "string \<Rightarrow> string" where
  "hash_hex raw = hex_EncodeToString (Sum256 (bytes_of raw))"

text \<open>The random source delivers 18 bytes or fails.\<close>

definition newSessionID :: "byte list option \<Rightarrow> string option" where
  "newSessionID random = map_option (\<lambda>bytes. ''ses_'' @ RawURL_EncodeToString bytes) random"

section \<open>What the loop does with a message\<close>

record responseAssembly =
  ra_payload :: HTTPResponsePayload
  ra_next :: u32
  ra_body :: "byte list"

type_synonym response_table = "(string, responseAssembly) gomap"

datatype gateway_failure = CloseWith int string | Abandon

datatype gateway_event =
    G_Chunk BinaryFrame
  | G_Start HTTPResponsePayload
  | G_Open OpenTunnelPayload
  | G_End string
  | G_Pong
  | G_Ping
  | G_Other

datatype gateway_effect =
    Deliver string Response
  | OpenFor OpenTunnelPayload
  | Alive
  | AnswerPing

definition gateway_decode :: "MessageType \<times> byte list \<Rightarrow> gateway_failure + gateway_event" where
  "gateway_decode = (\<lambda>(messageType, data).
     case messageType of
       MessageBinary \<Rightarrow>
         (case ParseBinaryFrame data of
            Inl _ \<Rightarrow> Inl (CloseWith StatusUnsupportedData ''invalid response body chunk'')
          | Inr frame \<Rightarrow> Inr (G_Chunk frame))
     | MessageText \<Rightarrow>
         (case Unmarshal raw_struct data ([], None) of
            None \<Rightarrow> Inl (CloseWith StatusUnsupportedData ''invalid message'')
          | Some (t, raw) \<Rightarrow>
              if t = HTTPResponseStart then
                (case Unmarshal_raw HTTPResponsePayload_struct raw zero_HTTPResponse of
                   None \<Rightarrow> Inl (CloseWith StatusUnsupportedData ''invalid response start'')
                 | Some payload \<Rightarrow> Inr (G_Start payload))
              else if t = OpenTunnel then
                (case Unmarshal_raw OpenTunnelPayload_struct raw zero_OpenTunnel of
                   None \<Rightarrow> Inl Abandon
                 | Some payload \<Rightarrow> Inr (G_Open payload))
              else if t = HTTPResponseEnd then
                (case Unmarshal (payload_struct HTTPResponseEndPayload_struct) data [] of
                   None \<Rightarrow> Inl Abandon
                 | Some requestID \<Rightarrow> Inr (G_End requestID))
              else if t = Pong then Inr G_Pong
              else if t = Ping then Inr G_Ping
              else Inr G_Other))"

definition assembly_response :: "responseAssembly \<Rightarrow> Response" where
  "assembly_response assembly =
     \<lparr>res_StatusCode = hrs_StatusCode (ra_payload assembly),
      res_Headers = nil_header (hrs_Headers (ra_payload assembly)),
      res_Body = ra_body assembly, res_Error = hrs_Error (ra_payload assembly)\<rparr>"

fun gateway_handle ::
    "response_table \<Rightarrow> gateway_event \<Rightarrow> gateway_failure + response_table \<times> gateway_effect list" where
  "gateway_handle responses (G_Chunk frame) =
     (case map_of responses (frame_RequestID frame) of
        None \<Rightarrow> Inl (CloseWith StatusUnsupportedData ''invalid response body chunk'')
      | Some assembly \<Rightarrow>
          let size = int (length (ra_body assembly) + length (frame_Payload frame));
              expected = hrs_ContentLength (ra_payload assembly)
          in if frame_Type frame \<noteq> ResponseBodyChunk \<or> frame_Sequence frame \<noteq> ra_next assembly
                \<or> size > maxTunnelResponseBodyBytes \<or> (expected \<ge> 0 \<and> size > expected)
             then Inl (CloseWith StatusUnsupportedData ''invalid response body chunk'')
             else Inr (map_put (frame_RequestID frame)
                    (assembly\<lparr>ra_body := ra_body assembly @ frame_Payload frame, ra_next := ra_next assembly + 1\<rparr>)
                    responses, []))"
| "gateway_handle responses (G_Start payload) =
     (if hrs_RequestID payload = [] \<or> hrs_ContentLength payload < -1
         \<or> hrs_ContentLength payload > maxTunnelResponseBodyBytes
      then Inl (CloseWith StatusUnsupportedData ''invalid response start'')
      else if map_of responses (hrs_RequestID payload) = None \<and> length responses \<ge> maxPendingResponseStreams
      then Inl (CloseWith StatusPolicyViolation ''too many response streams'')
      else Inr (map_put (hrs_RequestID payload) \<lparr>ra_payload = payload, ra_next = 0, ra_body = []\<rparr> responses, []))"
| "gateway_handle responses (G_Open payload) =
     (if otp_RequestID payload = [] \<or> TrimSpace (otp_LocalAddress payload) = [] then Inl Abandon
      else Inr (responses, [OpenFor payload]))"
| "gateway_handle responses (G_End requestID) =
     (case map_of responses requestID of
        None \<Rightarrow> Inl Abandon
      | Some assembly \<Rightarrow>
          if hrs_ContentLength (ra_payload assembly) \<ge> 0
             \<and> int (length (ra_body assembly)) \<noteq> hrs_ContentLength (ra_payload assembly)
          then Inl Abandon
          else Inr (map_del requestID responses, [Deliver requestID (assembly_response assembly)]))"
| "gateway_handle responses G_Pong = Inr (responses, [Alive])"
| "gateway_handle responses G_Ping = Inr (responses, [AnswerPing])"
| "gateway_handle responses G_Other = Inr (responses, [])"

definition gateway_receive ::
    "response_table \<Rightarrow> MessageType \<times> byte list \<Rightarrow> gateway_failure + response_table \<times> gateway_effect list" where
  "gateway_receive responses message =
     (case gateway_decode message of Inl e \<Rightarrow> Inl e | Inr ev \<Rightarrow> gateway_handle responses ev)"

section \<open>Serving a session\<close>

datatype conn_effect =
    WriteMessage OutboundMessage
  | CloseConn int string
  | TouchAgent string
  | CleanupSession string string
  | DisconnectAgent string

record connect_handler =
  ch_agents :: bool
  ch_cleanup :: bool

record serve_state =
  ss_gateway :: gateway_state
  ss_responses :: response_table

text \<open>What the environment contributes to one turn of the loop.\<close>

record serve_input =
  si_now :: int
  si_writeOk :: bool
  si_openTunnel :: "(string \<Rightarrow> string \<Rightarrow> string \<Rightarrow> TunnelOpenedPayload option) option"

datatype serve_event =
    SE_CtxDone
  | SE_Tick
  | SE_Outbound
  | SE_Inbound MessageType "byte list"
  | SE_ReadError

datatype serve_result = Stopped bool gateway_state | Serving serve_state

definition ping_message :: "byte list" where
  "ping_message = Marshal (Envelope_json Ping None)"

definition pong_message :: "byte list" where
  "pong_message = Marshal (Envelope_json Pong None)"

definition tunnel_opened_message :: "TunnelOpenedPayload \<Rightarrow> byte list" where
  "tunnel_opened_message p = Marshal (Envelope_json TunnelOpened (Some (TunnelOpenedPayload_json p)))"

definition touchAgent :: "connect_handler \<Rightarrow> string \<Rightarrow> gateway_state \<Rightarrow> conn_effect list" where
  "touchAgent h sessionID s =
     (if \<not> ch_agents h then []
      else case session_AgentID sessionID s of
          (agentID, ok) \<Rightarrow> if ok \<and> agentID \<noteq> [] then [TouchAgent agentID] else [])"

text \<open>
  Carrying out what a message asks for. The result is \<open>None\<close> when the call of
  \<open>DeliverResponse\<close> blocks, and \<open>Some (None, _)\<close> when the loop returns false.
\<close>

fun perform ::
    "connect_handler \<Rightarrow> string \<Rightarrow> serve_input \<Rightarrow> gateway_state \<Rightarrow> gateway_effect
      \<Rightarrow> (bool \<times> gateway_state \<times> conn_effect list) option" where
  "perform h sessionID inp s (Deliver requestID response) =
     map_option (\<lambda>(_, s'). (True, s', [])) (DeliverResponse requestID response s)"
| "perform h sessionID inp s (OpenFor payload) =
     (case si_openTunnel inp of
        None \<Rightarrow> Some (False, s, [])
      | Some openTunnel \<Rightarrow>
          (case session_AgentID sessionID s of
             (agentID, False) \<Rightarrow> Some (False, s, [])
           | (agentID, True) \<Rightarrow>
               (case openTunnel sessionID agentID (otp_LocalAddress payload) of
                  None \<Rightarrow> Some (False, s, [])
                | Some opened \<Rightarrow>
                    (case session_Send sessionID (tunnel_opened_message (opened\<lparr>top_RequestID := otp_RequestID payload\<rparr>)) s of
                       (ok, s') \<Rightarrow> Some (ok, s', [])))))"
| "perform h sessionID inp s Alive =
     (let s' = snd (session_Touch (si_now inp) sessionID s) in Some (True, s', touchAgent h sessionID s'))"
| "perform h sessionID inp s AnswerPing =
     (if \<not> si_writeOk inp then Some (False, s, [])
      else let s' = snd (session_Touch (si_now inp) sessionID s)
           in Some (True, s', WriteMessage \<lparr>om_Type = MessageText, om_Data = pong_message\<rparr> # touchAgent h sessionID s'))"

fun perform_all ::
    "connect_handler \<Rightarrow> string \<Rightarrow> serve_input \<Rightarrow> gateway_state \<Rightarrow> gateway_effect list
      \<Rightarrow> (bool \<times> gateway_state \<times> conn_effect list) option" where
  "perform_all h sessionID inp s [] = Some (True, s, [])"
| "perform_all h sessionID inp s (e # es) =
     (case perform h sessionID inp s e of
        None \<Rightarrow> None
      | Some (False, s', out) \<Rightarrow> Some (False, s', out)
      | Some (True, s', out) \<Rightarrow>
          map_option (\<lambda>(ok, s'', out'). (ok, s'', out @ out')) (perform_all h sessionID inp s' es))"

text \<open>One turn of \<open>serveSession\<close>: \<open>None\<close> when the chosen case of the select is not ready.\<close>

fun serve_step ::
    "connect_handler \<Rightarrow> string \<Rightarrow> serve_input \<Rightarrow> serve_state \<Rightarrow> serve_event
      \<Rightarrow> (serve_result \<times> conn_effect list) option" where
  "serve_step h sessionID inp st SE_CtxDone = Some (Stopped True (ss_gateway st), [])"
| "serve_step h sessionID inp st SE_Tick =
     (if si_writeOk inp
      then Some (Serving st, [WriteMessage \<lparr>om_Type = MessageText, om_Data = ping_message\<rparr>])
      else Some (Stopped False (ss_gateway st), []))"
| "serve_step h sessionID inp st SE_Outbound =
     (case lookup_outbound sessionID (ss_gateway st) of
        None \<Rightarrow> None
      | Some c \<Rightarrow>
          (case chan_recv (gs_outbound (ss_gateway st) ! c) of
             None \<Rightarrow> None
           | Some (message, q) \<Rightarrow>
               let s' = (ss_gateway st)\<lparr>gs_outbound := (gs_outbound (ss_gateway st))[c := q]\<rparr>
               in if si_writeOk inp then Some (Serving (st\<lparr>ss_gateway := s'\<rparr>), [WriteMessage message])
                  else Some (Stopped False s', [])))"
| "serve_step h sessionID inp st (SE_Inbound messageType data) =
     (case gateway_receive (ss_responses st) (messageType, data) of
        Inl (CloseWith status reason) \<Rightarrow> Some (Stopped False (ss_gateway st), [CloseConn status reason])
      | Inl Abandon \<Rightarrow> Some (Stopped False (ss_gateway st), [])
      | Inr (responses, es) \<Rightarrow>
          (case perform_all h sessionID inp (ss_gateway st) es of
             None \<Rightarrow> None
           | Some (True, s', out) \<Rightarrow> Some (Serving \<lparr>ss_gateway = s', ss_responses = responses\<rparr>, out)
           | Some (False, s', out) \<Rightarrow> Some (Stopped False s', out)))"
| "serve_step h sessionID inp st SE_ReadError = Some (Stopped True (ss_gateway st), [])"

section \<open>The handshake\<close>

definition server_hello_message :: "string \<Rightarrow> byte list" where
  "server_hello_message sessionID =
     Marshal (Envelope_json ServerHello (Some (ServerHelloPayload_json
       \<lparr>shp_ProtocolVersion = protocol_Version, shp_SessionID = sessionID,
        shp_HeartbeatIntervalSeconds = defaultHeartbeatInterval div Second\<rparr>)))"

record handshake_input =
  hi_read :: "byte list option"
  hi_random :: "byte list option"
  hi_connect :: "string \<Rightarrow> ClientHelloPayload \<Rightarrow> string option"
  hi_now :: int
  hi_cancel :: nat
  hi_writeOk :: bool

text \<open>
  Up to the registration: the failure and its close message, or the session id, the agent id
  and the state with the session registered.
\<close>

definition handshake ::
    "connect_handler \<Rightarrow> string \<Rightarrow> handshake_input \<Rightarrow> gateway_state
      \<Rightarrow> (int \<times> string) option + string \<times> string \<times> gateway_state" where
  "handshake h rawToken inp s =
     (case hi_read inp of
        None \<Rightarrow> Inl None
      | Some data \<Rightarrow>
          (case Unmarshal (typed_struct ClientHelloPayload_struct) data ([], zero_ClientHello) of
             None \<Rightarrow> Inl (Some (StatusPolicyViolation, ''unsupported protocol''))
           | Some (t, payload) \<Rightarrow>
               if t \<noteq> ClientHello \<or> chp_ProtocolVersion payload \<noteq> protocol_Version
               then Inl (Some (StatusPolicyViolation, ''unsupported protocol''))
               else
                 case newSessionID (hi_random inp) of
                   None \<Rightarrow> Inl (Some (StatusInternalError, ''could not create session''))
                 | Some sessionID \<Rightarrow>
                     (case (if ch_agents h then hi_connect inp rawToken payload else Some []) of
                        None \<Rightarrow> Inl (Some (StatusPolicyViolation, ''agent registration failed''))
                      | Some agentID \<Rightarrow>
                          let (c, s') = make_outbound s
                          in Inr (sessionID, agentID, session_Register (hi_now inp)
                               \<lparr>ses_ID = sessionID, ses_AgentID = agentID, ses_AgentTokenHash = hash_hex rawToken,
                                ses_LastSeen = 0, ses_Outbound = Some c, ses_Cancel = Some (hi_cancel inp)\<rparr> s'))))"

text \<open>The deferred function: it runs on every way out once the session is registered.\<close>

definition end_session ::
    "connect_handler \<Rightarrow> string \<Rightarrow> string \<Rightarrow> nat \<Rightarrow> gateway_state \<Rightarrow> (gateway_state \<times> conn_effect list) option" where
  "end_session h sessionID agentID c s =
     map_option (\<lambda>s'. (s',
         (if ch_cleanup h then [CleanupSession sessionID agentID] else [])
         @ (if ch_agents h \<and> agentID \<noteq> [] then [DisconnectAgent agentID] else [])))
       (session_Remove sessionID (call_cancel c s))"

text \<open>
  A whole connection after the registration: the hello is written, then the loop turns; the
  turns of the loop alternate with steps other goroutines take on the manager.
\<close>

datatype conn_turn = Turn serve_input serve_event | Others sm_event

fun serve_turns ::
    "connect_handler \<Rightarrow> string \<Rightarrow> serve_state \<Rightarrow> conn_turn list \<Rightarrow> (serve_result \<times> conn_effect list) option" where
  "serve_turns h sessionID st [] = Some (Serving st, [])"
| "serve_turns h sessionID st (Others e # ts) =
     (case sm_step (ss_gateway st) e of
        None \<Rightarrow> None | Some s' \<Rightarrow> serve_turns h sessionID (st\<lparr>ss_gateway := s'\<rparr>) ts)"
| "serve_turns h sessionID st (Turn inp e # ts) =
     (case serve_step h sessionID inp st e of
        None \<Rightarrow> None
      | Some (Stopped ok s', out) \<Rightarrow> if ts = [] then Some (Stopped ok s', out) else None
      | Some (Serving st', out) \<Rightarrow>
          map_option (\<lambda>(r, out'). (r, out @ out')) (serve_turns h sessionID st' ts))"

definition serve_connection ::
    "connect_handler \<Rightarrow> string \<Rightarrow> handshake_input \<Rightarrow> gateway_state \<Rightarrow> conn_turn list
      \<Rightarrow> (bool \<times> gateway_state \<times> conn_effect list) option" where
  "serve_connection h rawToken inp s ts =
     (case handshake h rawToken inp s of
        Inl None \<Rightarrow> Some (False, s, [])
      | Inl (Some (status, reason)) \<Rightarrow> Some (False, s, [CloseConn status reason])
      | Inr (sessionID, agentID, s1) \<Rightarrow>
          (case (if hi_writeOk inp
                 then map_option (\<lambda>(r, out). (r, WriteMessage \<lparr>om_Type = MessageText, om_Data = server_hello_message sessionID\<rparr> # out))
                        (serve_turns h sessionID \<lparr>ss_gateway = s1, ss_responses = []\<rparr> ts)
                 else Some (Stopped False s1, [])) of
             None \<Rightarrow> None
           | Some (Serving st, out) \<Rightarrow> None
           | Some (Stopped ok s2, out) \<Rightarrow>
               map_option (\<lambda>(s3, out'). (ok, s3, out @ out'))
                 (end_session h sessionID agentID (hi_cancel inp) s2)))"

section \<open>Response bodies\<close>

definition response_accept :: "responseAssembly \<Rightarrow> BinaryFrame \<Rightarrow> responseAssembly option" where
  "response_accept a f =
     (case gateway_handle [(frame_RequestID f, a)] (G_Chunk f) of
        Inl _ \<Rightarrow> None | Inr (responses, _) \<Rightarrow> map_of responses (frame_RequestID f))"

definition response_fits :: "responseAssembly \<Rightarrow> nat \<Rightarrow> bool" where
  "response_fits a k \<longleftrightarrow> int k \<le> maxTunnelResponseBodyBytes
     \<and> (hrs_ContentLength (ra_payload a) \<ge> 0 \<longrightarrow> int k \<le> hrs_ContentLength (ra_payload a))"

definition response_move :: "u32 \<Rightarrow> byte list \<Rightarrow> responseAssembly \<Rightarrow> responseAssembly" where
  "response_move n b a = a\<lparr>ra_body := b, ra_next := n\<rparr>"

interpretation response_assembler:
  chunk_receiver response_accept ra_body ra_next response_fits response_move ResponseBodyChunk
  by unfold_locales
    (auto simp: response_accept_def response_fits_def response_move_def Let_def split: if_splits)

lemma gateway_handle_chunk:
  "gateway_handle responses (G_Chunk f) =
     (case map_of responses (frame_RequestID f) of
        None \<Rightarrow> Inl (CloseWith StatusUnsupportedData ''invalid response body chunk'')
      | Some a \<Rightarrow>
          (case response_accept a f of
             None \<Rightarrow> Inl (CloseWith StatusUnsupportedData ''invalid response body chunk'')
           | Some a' \<Rightarrow> Inr (map_put (frame_RequestID f) a' responses, [])))"
  by (auto simp: response_accept_def Let_def split: option.splits)

section \<open>The loop, response by response\<close>

fun gateway_event_key :: "gateway_event \<Rightarrow> string option" where
  "gateway_event_key (G_Chunk frame) = Some (frame_RequestID frame)"
| "gateway_event_key (G_Start payload) = Some (hrs_RequestID payload)"
| "gateway_event_key (G_End i) = Some i"
| "gateway_event_key _ = None"

definition gateway_step ::
    "response_table \<Rightarrow> MessageType \<times> byte list \<Rightarrow> (response_table \<times> gateway_effect list) option" where
  "gateway_step responses m = (case gateway_receive responses m of Inl _ \<Rightarrow> None | Inr r \<Rightarrow> Some r)"

definition gateway_key :: "MessageType \<times> byte list \<Rightarrow> string option" where
  "gateway_key m = (case gateway_decode m of Inl _ \<Rightarrow> None | Inr ev \<Rightarrow> gateway_event_key ev)"

fun gateway_effect_key :: "gateway_effect \<Rightarrow> string option" where
  "gateway_effect_key (Deliver i r) = Some i"
| "gateway_effect_key _ = None"

fun gateway_key_handle ::
    "responseAssembly option \<Rightarrow> gateway_event \<Rightarrow> (responseAssembly option \<times> gateway_effect list) option" where
  "gateway_key_handle v (G_Chunk frame) =
     (case v of None \<Rightarrow> None | Some a \<Rightarrow> map_option (\<lambda>a'. (Some a', [])) (response_accept a frame))"
| "gateway_key_handle v (G_Start p) =
     (if hrs_RequestID p = [] \<or> hrs_ContentLength p < -1 \<or> hrs_ContentLength p > maxTunnelResponseBodyBytes
      then None else Some (Some \<lparr>ra_payload = p, ra_next = 0, ra_body = []\<rparr>, []))"
| "gateway_key_handle v (G_End i) =
     (case v of None \<Rightarrow> None
      | Some a \<Rightarrow>
          if hrs_ContentLength (ra_payload a) \<ge> 0 \<and> int (length (ra_body a)) \<noteq> hrs_ContentLength (ra_payload a)
          then None else Some (None, [Deliver i (assembly_response a)]))"
| "gateway_key_handle v _ = Some (v, [])"

definition gateway_kstep ::
    "responseAssembly option \<Rightarrow> MessageType \<times> byte list \<Rightarrow> (responseAssembly option \<times> gateway_effect list) option" where
  "gateway_kstep v m = (case gateway_decode m of Inl _ \<Rightarrow> None | Inr ev \<Rightarrow> gateway_key_handle v ev)"

definition gateway_opens :: "MessageType \<times> byte list \<Rightarrow> bool" where
  "gateway_opens m \<longleftrightarrow> (case gateway_decode m of Inr (G_Start p) \<Rightarrow> True | _ \<Rightarrow> False)"

lemma gateway_step_Some:
  "gateway_step responses m = Some (responses', es) \<longleftrightarrow>
     (\<exists>ev. gateway_decode m = Inr ev \<and> gateway_handle responses ev = Inr (responses', es))"
  by (auto simp: gateway_step_def gateway_receive_def split: sum.splits)

lemma gateway_handle_own:
  assumes "gateway_handle responses ev = Inr (responses', es)" "gateway_event_key ev = Some k"
  shows "gateway_key_handle (map_of responses k) ev = Some (map_of responses' k, es)"
  using assms
  by (cases ev) (auto simp: gateway_handle_chunk simp del: gateway_handle.simps(1) split: option.splits if_splits)

lemma gateway_handle_other:
  assumes "gateway_handle responses ev = Inr (responses', es)" "gateway_event_key ev \<noteq> Some k"
  shows "map_of responses' k = map_of responses k"
  using assms
  by (cases ev) (auto simp: gateway_handle_chunk simp del: gateway_handle.simps(1) split: option.splits if_splits)

lemma gateway_handle_effects:
  assumes "gateway_handle responses ev = Inr (responses', es)" "e \<in> set es"
  shows "gateway_effect_key e = gateway_event_key ev"
  using assms
  by (cases ev) (auto simp: gateway_handle_chunk simp del: gateway_handle.simps(1) split: option.splits if_splits)

lemma gateway_handle_wf:
  assumes "gateway_handle responses ev = Inr (responses', es)" "wf_map responses"
  shows "wf_map responses'"
  using assms
  by (cases ev) (auto simp: gateway_handle_chunk simp del: gateway_handle.simps(1) split: option.splits if_splits)

lemma gateway_handle_enabled:
  assumes "gateway_event_key ev = Some k" "gateway_key_handle (map_of responses k) ev \<noteq> None"
    and "(case ev of G_Start p \<Rightarrow> length responses < maxPendingResponseStreams | _ \<Rightarrow> True)"
  shows "\<exists>r. gateway_handle responses ev = Inr r"
  using assms
  by (cases ev) (auto simp: gateway_handle_chunk simp del: gateway_handle.simps(1) split: option.splits if_splits)

interpretation gateway_loop: demux gateway_step map_of gateway_key gateway_effect_key gateway_kstep
    gateway_opens length maxPendingResponseStreams wf_map
proof
  fix s m s' es k e
  assume inv: "wf_map (s :: response_table)"
  show "gateway_kstep (map_of s k) m = Some (map_of s' k, es)"
    if "gateway_step s m = Some (s', es)" "gateway_key m = Some k"
    using that gateway_handle_own by (auto simp: gateway_step_Some gateway_key_def gateway_kstep_def)
  show "map_of s' k = map_of s k" if "gateway_step s m = Some (s', es)" "gateway_key m \<noteq> Some k"
    using that gateway_handle_other by (auto simp: gateway_step_Some gateway_key_def)
  show "gateway_effect_key e = gateway_key m" if "gateway_step s m = Some (s', es)" "e \<in> set es"
    using that gateway_handle_effects by (auto simp: gateway_step_Some gateway_key_def)
  show "wf_map s'" if "gateway_step s m = Some (s', es)"
    using that gateway_handle_wf inv by (auto simp: gateway_step_Some)
  show "gateway_step s m \<noteq> None"
    if key: "gateway_key m = Some k" and ks: "gateway_kstep (map_of s k) m \<noteq> None"
      and room: "gateway_opens m \<Longrightarrow> length s < maxPendingResponseStreams"
  proof -
    obtain ev where ev: "gateway_decode m = Inr ev" "gateway_event_key ev = Some k"
      using key by (auto simp: gateway_key_def split: sum.splits)
    moreover have "case ev of G_Start p \<Rightarrow> length s < maxPendingResponseStreams | _ \<Rightarrow> True"
      using room ev(1) by (auto simp: gateway_opens_def split: gateway_event.splits)
    ultimately obtain r where "gateway_handle s ev = Inr r"
      using gateway_handle_enabled [OF ev(2), of s] ks by (auto simp: gateway_kstep_def)
    with ev show ?thesis
      by (cases r) (auto simp: gateway_step_Some)
  qed
  have "{k. map_of s k \<noteq> None} = fst ` set s"
    by (metis dom_def dom_map_of_conv_image_fst)
  moreover have "length s = card (fst ` set s)"
    using inv by (simp add: wf_map_def distinct_card [of "map fst s", simplified])
  ultimately show "finite {k. map_of s k \<noteq> None} \<and> length s = card {k. map_of s k \<noteq> None}"
    by simp
qed

section \<open>Receiving one response\<close>

lemma gateway_types:
  "OpenTunnel \<noteq> HTTPResponseStart" "HTTPResponseEnd \<noteq> HTTPResponseStart" "HTTPResponseEnd \<noteq> OpenTunnel"
  "Pong \<noteq> HTTPResponseStart" "Pong \<noteq> OpenTunnel" "Pong \<noteq> HTTPResponseEnd"
  by (simp_all add: type_names)

lemma gateway_decode_chunk:
  assumes "marshalBinary f = Inr d"
  shows "gateway_decode (MessageBinary, d) = Inr (G_Chunk f)"
  using download_codec.dec_enc [OF assms] by (simp add: gateway_decode_def)

lemma gateway_decode_start:
  assumes "utf8_response p"
  shows "gateway_decode (MessageText, Marshal (envelope_json httpResponseStartType (Some (httpResponsePayload_json p))))
    = Inr (G_Start (gateway_response p))"
  by (simp add: gateway_decode_def gateway_reads_response_start Unmarshal_raw_def decode_response [OF assms])

lemma gateway_decode_end:
  assumes "utf8_valid i"
  shows "gateway_decode (MessageText, Marshal (envelope_json httpResponseEndType (Some (httpResponseEndPayload_json i))))
    = Inr (G_End i)"
  by (simp add: gateway_decode_def gateway_reads_response_end [OF assms] gateway_types)

lemma gateway_run_decoded:
  "map gateway_decode ms = map Inr evs \<Longrightarrow>
     run_eff gateway_kstep v ms = run_eff gateway_key_handle v evs"
proof (induction ms arbitrary: v evs)
  case (Cons m ms)
  then obtain ev evs' where evs: "evs = ev # evs'" "gateway_decode m = Inr ev" "map gateway_decode ms = map Inr evs'"
    by (cases evs) auto
  then show ?case
    using Cons.IH by (simp add: gateway_kstep_def split: option.splits)
qed simp

lemma gateway_run_chunks:
  "run_eff gateway_key_handle (Some a) (map G_Chunk fs)
     = map_option (\<lambda>a'. (Some a', [])) (run_opt response_accept a fs)"
proof (induction fs arbitrary: a)
  case (Cons f fs)
  then show ?case
    by (auto split: option.splits)
qed simp

text \<open>
  A start, the numbered chunks of a body that fits, and an end: the response is delivered with
  that body, whatever was there before under the same id.
\<close>

lemma gateway_receives_response:
  assumes "map gateway_decode ms = map Inr (G_Start p # map G_Chunk (number_chunks ResponseBodyChunk i 0 cs) @ [G_End i])"
    and "hrs_RequestID p = i" "i \<noteq> []"
    and "hrs_ContentLength p = -1 \<or> hrs_ContentLength p = int (length (concat cs))"
    and "int (length (concat cs)) \<le> maxTunnelResponseBodyBytes"
  shows "run_eff gateway_kstep v ms = Some (None,
    [Deliver i \<lparr>res_StatusCode = hrs_StatusCode p, res_Headers = nil_header (hrs_Headers p),
       res_Body = concat cs, res_Error = hrs_Error p\<rparr>])"
proof -
  let ?a = "\<lparr>ra_payload = p, ra_next = 0, ra_body = []\<rparr>"
  have new: "gateway_key_handle v (G_Start p) = Some (Some ?a, [])"
    using assms(2-5) by (auto simp: maxTunnelResponseBodyBytes_def)
  have "run_opt response_accept ?a (number_chunks ResponseBodyChunk i 0 cs)
      = Some (response_move (of_nat (length cs)) (concat cs) ?a)"
    using response_assembler.run_numbered [of cs ?a i] assms(4,5) by (auto simp: response_fits_def)
  then have "run_eff gateway_key_handle (Some ?a) (map G_Chunk (number_chunks ResponseBodyChunk i 0 cs))
      = Some (Some (response_move (of_nat (length cs)) (concat cs) ?a), [])"
    by (simp add: gateway_run_chunks)
  moreover have "gateway_key_handle (Some (response_move n (concat cs) ?a)) (G_End i)
      = Some (None, [Deliver i \<lparr>res_StatusCode = hrs_StatusCode p, res_Headers = nil_header (hrs_Headers p),
         res_Body = concat cs, res_Error = hrs_Error p\<rparr>])" for n
    using assms(4) by (auto simp: response_move_def assembly_response_def)
  ultimately show ?thesis
    unfolding gateway_run_decoded [OF assms(1)] using new by (simp add: run_eff_append)
qed

section \<open>The connection and the session manager\<close>

text \<open>
  Everything a connection does to the manager is a sequence of the manager's own steps, so
  what is proved about all interleavings of those steps holds for connections.
\<close>

definition sm_reaches :: "gateway_state \<Rightarrow> gateway_state \<Rightarrow> bool" where
  "sm_reaches s s' \<longleftrightarrow> (\<exists>es. run_opt sm_step s es = Some s')"

lemma sm_reaches_refl [simp]: "sm_reaches s s"
  unfolding sm_reaches_def by (rule exI [of _ "[]"]) simp

lemma sm_reaches_step: "sm_step s e = Some s' \<Longrightarrow> sm_reaches s s'"
  unfolding sm_reaches_def by (rule exI [of _ "[e]"]) simp

lemma sm_reaches_trans: "sm_reaches s s' \<Longrightarrow> sm_reaches s' s'' \<Longrightarrow> sm_reaches s s''"
  unfolding sm_reaches_def by (elim exE) (rule_tac x = "es @ esa" in exI, simp add: run_opt_append)

lemma sm_reaches_inv: "sm_reaches s s' \<Longrightarrow> sm_inv s \<Longrightarrow> sm_inv s'"
  by (auto simp: sm_reaches_def intro: sm_inv_run)

lemma send_all_reaches:
  "run_opt response_send s xs = Some s' \<Longrightarrow> mset xs \<subseteq># mset (gs_sends s) \<Longrightarrow> sm_reaches s s'"
proof (induction xs arbitrary: s)
  case (Cons x xs)
  obtain ch r where x: "x = (ch, r)" by (cases x)
  obtain s1 where s1: "response_send s (ch, r) = Some s1" "run_opt response_send s1 xs = Some s'"
    using Cons.prems(1) by (auto simp: x split: option.splits)
  have mem: "(ch, r) \<in> set (gs_sends s)"
    using Cons.prems(2) by (metis x mset_subset_eqD set_mset_mset mset.simps(2) union_single_eq_member)
  have "mset xs \<subseteq># mset (gs_sends s) - {#(ch, r)#}"
    using Cons.prems(2) by (simp add: x insert_subset_eq_iff)
  then have "mset xs \<subseteq># mset (gs_sends s1)"
    by (simp add: response_send_fields(3) [OF s1(1)])
  then have "sm_reaches s1 s'"
    by (rule Cons.IH [OF s1(2)])
  moreover have "sm_reaches s s1"
    using mem s1(1) by (intro sm_reaches_step [of _ "Ev_SendResponse ch r"]) simp
  ultimately show ?case by (blast intro: sm_reaches_trans)
qed simp

lemma deliver_reaches:
  assumes "DeliverResponse i r s = Some (ok, s')"
  shows "sm_reaches s s'"
proof -
  let ?s = "snd (deliver_lock i r s)"
  have "sm_reaches s ?s"
    by (rule sm_reaches_step [of _ "Ev_Deliver i r"]) simp
  moreover have "sm_reaches ?s s'"
  proof (cases "fst (deliver_lock i r s)")
    case None
    with assms show ?thesis
      by (cases "deliver_lock i r s") (simp add: DeliverResponse_def)
  next
    case (Some ch)
    then have "(ch, r) \<in> set (gs_sends ?s)" "response_send ?s (ch, r) = Some s'"
      using assms by (auto simp: DeliverResponse_def deliver_lock_def split: option.splits)
    then show ?thesis
      by (intro sm_reaches_step [of _ "Ev_SendResponse ch r"]) simp
  qed
  ultimately show ?thesis by (rule sm_reaches_trans)
qed

lemma remove_reaches:
  assumes "session_Remove i s = Some s'"
  shows "sm_reaches s s'"
proof -
  let ?s = "snd (remove_lock i s)"
  have "sm_reaches s ?s"
    by (rule sm_reaches_step [of _ "Ev_Remove i"]) simp
  moreover have "sm_reaches ?s s'"
  proof (rule send_all_reaches)
    show "run_opt response_send ?s (map (\<lambda>ch. (ch, disconnected)) (fst (remove_lock i s))) = Some s'"
      using assms by (simp add: session_Remove_def case_prod_unfold Let_def)
    show "mset (map (\<lambda>ch. (ch, disconnected)) (fst (remove_lock i s))) \<subseteq># mset (gs_sends ?s)"
      by (simp add: remove_lock_def Let_def)
  qed
  ultimately show ?thesis by (rule sm_reaches_trans)
qed

lemma touch_reaches: "sm_reaches s (snd (session_Touch now i s))"
  by (rule sm_reaches_step [of _ "Ev_Touch now i"]) simp

lemma send_reaches: "sm_reaches s (snd (session_Send i m s))"
  by (rule sm_reaches_step [of _ "Ev_Send i m"]) simp

lemma perform_reaches:
  assumes "perform h sessionID inp s e = Some (ok, s', out)"
  shows "sm_reaches s s'"
proof (cases e)
  case (Deliver i r)
  with assms deliver_reaches show ?thesis by (auto simp: case_prod_unfold)
next
  case (OpenFor payload)
  show ?thesis
  proof (cases "s' = s")
    case False
    with assms OpenFor obtain m where "session_Send sessionID m s = (ok, s')"
      by (auto split: option.splits prod.splits bool.splits)
    with send_reaches [of s sessionID m] show ?thesis by simp
  qed simp
next
  case Alive
  with assms touch_reaches show ?thesis by (auto simp: Let_def)
next
  case AnswerPing
  with assms touch_reaches show ?thesis by (auto simp: Let_def split: if_splits)
qed

lemma perform_all_reaches:
  "perform_all h sessionID inp s es = Some (ok, s', out) \<Longrightarrow> sm_reaches s s'"
proof (induction es arbitrary: s ok out)
  case (Cons e es)
  obtain ok1 s1 out1 where e: "perform h sessionID inp s e = Some (ok1, s1, out1)"
    using Cons.prems by (cases "perform h sessionID inp s e") auto
  show ?case
  proof (cases ok1)
    case True
    with Cons.prems e obtain out2 where "perform_all h sessionID inp s1 es = Some (ok, s', out2)"
      by auto
    with Cons.IH perform_reaches [OF e] show ?thesis by (blast intro: sm_reaches_trans)
  next
    case False
    with Cons.prems e perform_reaches [OF e] show ?thesis by simp
  qed
qed simp

fun result_state :: "serve_result \<Rightarrow> gateway_state" where
  "result_state (Stopped ok s) = s"
| "result_state (Serving st) = ss_gateway st"

lemma serve_step_reaches:
  assumes "serve_step h sessionID inp st e = Some (r, out)" "sm_inv (ss_gateway st)"
  shows "sm_reaches (ss_gateway st) (result_state r)"
proof (cases e)
  case SE_Outbound
  then obtain c m q where c: "lookup_outbound sessionID (ss_gateway st) = Some c"
    "chan_recv (gs_outbound (ss_gateway st) ! c) = Some (m, q)"
    "result_state r = (ss_gateway st)\<lparr>gs_outbound := (gs_outbound (ss_gateway st))[c := q]\<rparr>"
    using assms(1) by (auto simp: Let_def split: option.splits if_splits)
  then have "sm_step (ss_gateway st) (Ev_Write c) = Some (result_state r)"
    using lookup_outbound_bound [OF assms(2) c(1)] by simp
  then show ?thesis by (rule sm_reaches_step)
next
  case (SE_Inbound t d)
  then show ?thesis
    using assms(1) perform_all_reaches
    by (fastforce split: sum.splits gateway_failure.splits option.splits bool.splits prod.splits)
qed (use assms in \<open>auto split: if_splits\<close>)

lemma serve_turns_reaches:
  "serve_turns h sessionID st ts = Some (r, out) \<Longrightarrow> sm_inv (ss_gateway st) \<Longrightarrow>
     sm_reaches (ss_gateway st) (result_state r)"
proof (induction h sessionID st ts arbitrary: r out rule: serve_turns.induct)
  case (2 h sessionID st e ts)
  then obtain s1 where s1: "sm_step (ss_gateway st) e = Some s1"
    "serve_turns h sessionID (st\<lparr>ss_gateway := s1\<rparr>) ts = Some (r, out)"
    by (auto split: option.splits)
  note one = sm_reaches_step [OF s1(1)]
  have "sm_reaches s1 (result_state r)"
    using 2(1) [OF s1] sm_reaches_inv [OF one 2(3)] by simp
  with one show ?case by (rule sm_reaches_trans)
next
  case (3 h sessionID st inp e ts)
  then obtain r1 out1 where st: "serve_step h sessionID inp st e = Some (r1, out1)"
    by (cases "serve_step h sessionID inp st e") auto
  note one = serve_step_reaches [OF st 3(3)]
  show ?case
  proof (cases r1)
    case (Stopped ok s1)
    with 3 st one show ?thesis by (auto split: if_splits)
  next
    case (Serving st1)
    then obtain out2 where rest: "serve_turns h sessionID st1 ts = Some (r, out2)"
      using 3(2) st by auto
    have "sm_reaches (ss_gateway st1) (result_state r)"
      using 3(1) [OF st _ Serving rest] sm_reaches_inv [OF one 3(3)] Serving by auto
    with one Serving show ?thesis by (auto intro: sm_reaches_trans)
  qed
qed simp

lemma perform_never_blocks: "sm_inv s \<Longrightarrow> \<exists>r. perform h sessionID inp s e = Some r"
  using DeliverResponse_returns
  by (cases e) (fastforce simp: Let_def split: option.splits prod.splits bool.splits)+

lemma perform_all_never_blocks: "sm_inv s \<Longrightarrow> \<exists>r. perform_all h sessionID inp s es = Some r"
proof (induction es arbitrary: s)
  case Nil
  show ?case by (metis perform_all.simps(1))
next
  case (Cons e es)
  obtain ok s1 out where e: "perform h sessionID inp s e = Some (ok, s1, out)"
    using perform_never_blocks [OF Cons.prems, of h sessionID inp e] by auto
  have "sm_inv s1"
    by (rule sm_reaches_inv [OF perform_reaches [OF e] Cons.prems])
  with Cons.IH [of s1] show ?case
    by (cases ok) (auto simp: e)
qed

text \<open>What the table of responses holds at any time.\<close>

definition assembly_bounded :: "responseAssembly \<Rightarrow> bool" where
  "assembly_bounded a \<longleftrightarrow> response_fits a (length (ra_body a))"

lemma gateway_handle_bounds:
  assumes "gateway_handle responses ev = Inr (responses', es)"
    and "wf_map responses" "length responses \<le> maxPendingResponseStreams"
    and "\<forall>i a. map_of responses i = Some a \<longrightarrow> assembly_bounded a"
  shows "length responses' \<le> maxPendingResponseStreams
    \<and> (\<forall>i a. map_of responses' i = Some a \<longrightarrow> assembly_bounded a)
    \<and> (\<forall>i r. Deliver i r \<in> set es \<longrightarrow> int (length (res_Body r)) \<le> maxTunnelResponseBodyBytes)"
proof (cases ev)
  case (G_Chunk f)
  then obtain a a' where a: "map_of responses (frame_RequestID f) = Some a" "response_accept a f = Some a'"
    "responses' = map_put (frame_RequestID f) a' responses" "es = []"
    using assms(1) by (auto simp: gateway_handle_chunk simp del: gateway_handle.simps(1) split: option.splits)
  have "assembly_bounded a'"
    using response_assembler.run_fits [of a "[f]" a'] a(2)
    by (auto simp: assembly_bounded_def response_assembler.accept_eq response_assembler.fits_move split: if_splits)
  with a assms(3,4) show ?thesis by simp
next
  case (G_Start p)
  let ?a = "\<lparr>ra_payload = p, ra_next = 0, ra_body = []\<rparr>"
  from G_Start have new: "responses' = map_put (hrs_RequestID p) ?a responses" "es = []"
    and room: "map_of responses (hrs_RequestID p) = None \<longrightarrow> length responses < maxPendingResponseStreams"
    using assms(1) by (auto split: if_splits)
  have "length responses' \<le> maxPendingResponseStreams"
    using new(1) room assms(3) by (cases "map_of responses (hrs_RequestID p)") auto
  moreover have "assembly_bounded ?a"
    by (simp add: assembly_bounded_def response_fits_def maxTunnelResponseBodyBytes_def)
  ultimately show ?thesis
    using new assms(4) by simp
next
  case (G_End i)
  then obtain a where a: "map_of responses i = Some a" "responses' = map_del i responses"
    "es = [Deliver i (assembly_response a)]"
    using assms(1) by (auto split: option.splits if_splits)
  have "length responses = Suc (length responses')"
    using length_map_del [OF assms(2) a(1)] a(2) by simp
  with a assms(3,4) show ?thesis
    by (auto simp: assembly_bounded_def response_fits_def assembly_response_def)
qed (use assms in \<open>auto split: if_splits\<close>)

lemma gateway_run_bounds:
  assumes "run_eff gateway_step responses ms = Some (responses', es)"
    and "wf_map responses" "length responses \<le> maxPendingResponseStreams"
    and "\<forall>i a. map_of responses i = Some a \<longrightarrow> assembly_bounded a"
  shows "length responses' \<le> maxPendingResponseStreams
    \<and> (\<forall>i a. map_of responses' i = Some a \<longrightarrow> assembly_bounded a)
    \<and> (\<forall>i r. Deliver i r \<in> set es \<longrightarrow> int (length (res_Body r)) \<le> maxTunnelResponseBodyBytes)"
  using assms
proof (induction ms arbitrary: responses es)
  case (Cons m ms)
  then obtain s1 es1 fs where s1: "gateway_step responses m = Some (s1, es1)"
    "run_eff gateway_step s1 ms = Some (responses', fs)" "es = es1 @ fs"
    unfolding run_eff_Cons_Some by blast
  then obtain ev where "gateway_handle responses ev = Inr (s1, es1)"
    unfolding gateway_step_Some by blast
  note b = gateway_handle_bounds [OF this Cons.prems(2-4)] and wf = gateway_handle_wf [OF this Cons.prems(2)]
  from Cons.IH [OF s1(2) wf] b show ?case
    by (auto simp: s1(3))
qed simp

lemma session_Remove_fields:
  assumes "session_Remove i s = Some s'"
  shows "gs_pending s' = map_purge (\<lambda>_ p. pr_sessionID p = i) (gs_pending s)"
    and "map_of (gs_sessions s') i = None" "gs_cancelled s' = gs_cancelled s"
proof -
  have run: "run_opt response_send t xs = Some t' \<Longrightarrow> gs_manager t' = gs_manager t \<and> gs_cancelled t' = gs_cancelled t"
    for t xs t'
    by (induction xs arbitrary: t) (fastforce simp: response_send_def split: option.splits)+
  have "run_opt response_send (snd (remove_lock i s)) (map (\<lambda>ch. (ch, disconnected)) (fst (remove_lock i s))) = Some s'"
    using assms by (simp add: session_Remove_def case_prod_unfold Let_def)
  from run [OF this]
  show "gs_pending s' = map_purge (\<lambda>_ p. pr_sessionID p = i) (gs_pending s)"
    and "map_of (gs_sessions s') i = None" "gs_cancelled s' = gs_cancelled s"
    by (auto simp: remove_lock_def Let_def split: option.splits)
qed

section \<open>Properties\<close>

text \<open>
  C13: an agent cannot make the gateway buffer without bound. In whatever order an agent
  sends whatever messages, as long as the loop goes on there are at most 32 unfinished
  responses, none holds more than 32 MiB or more than the length it announced, and no
  response delivered to a public request is longer than 32 MiB.
\<close>

theorem response_buffers_bounded:
  assumes "run_eff gateway_step [] ms = Some (responses, es)"
  shows "length responses \<le> 32
    \<and> (\<forall>i a. map_of responses i = Some a \<longrightarrow> length (ra_body a) \<le> 32 * 2 ^ 20
         \<and> (hrs_ContentLength (ra_payload a) \<ge> 0 \<longrightarrow> int (length (ra_body a)) \<le> hrs_ContentLength (ra_payload a)))
    \<and> (\<forall>i r. Deliver i r \<in> set es \<longrightarrow> length (res_Body r) \<le> 32 * 2 ^ 20)"
  using gateway_run_bounds [OF assms]
  by (simp add: maxPendingResponseStreams_def assembly_bounded_def response_fits_def maxTunnelResponseBodyBytes_def)

theorem response_buffers_bounded_witness:
  "\<exists>responses es. run_eff gateway_step [] [(MessageText, Marshal (envelope_json httpResponseStartType
        (Some (httpResponsePayload_json \<lparr>ars_RequestID = ''r'', ars_StatusCode = 200, ars_Headers = Some [],
           ars_ContentLength = -1, ars_Error = []\<rparr>))))] = Some (responses, es) \<and> length responses \<le> 32"
proof -
  let ?p = "\<lparr>ars_RequestID = ''r'', ars_StatusCode = 200, ars_Headers = Some [],
           ars_ContentLength = -1, ars_Error = []\<rparr>"
  let ?m = "(MessageText, Marshal (envelope_json httpResponseStartType (Some (httpResponsePayload_json ?p))))"
  have "utf8_response ?p"
    by (simp add: utf8_response_def utf8_valid_def utf8_header_def int64_def maxInt64_def)
  from gateway_decode_start [OF this]
  have "run_eff gateway_step [] [?m] =
      Some ([(''r'', \<lparr>ra_payload = gateway_response ?p, ra_next = 0, ra_body = []\<rparr>)], [])"
    by (simp add: gateway_step_def gateway_receive_def gateway_response_def maxTunnelResponseBodyBytes_def
        maxPendingResponseStreams_def)
  with response_buffers_bounded [OF this] show ?thesis by blast
qed



lemma serve_turns_run:
  assumes "serve_connection h rawToken inp s ts = Some (ok, s', out)"
    and "handshake h rawToken inp s = Inr (sessionID, agentID, s1)" "sm_inv s1"
  obtains s2 out1 out2 where "sm_reaches s1 s2" "end_session h sessionID agentID (hi_cancel inp) s2 = Some (s', out2)"
    "out = out1 @ out2"
proof -
  let ?st = "\<lparr>ss_gateway = s1, ss_responses = []\<rparr>"
  consider "\<not> hi_writeOk inp" | r o1 where "hi_writeOk inp" "serve_turns h sessionID ?st ts = Some (r, o1)"
    using assms(1,2)
    by (cases "hi_writeOk inp"; cases "serve_turns h sessionID ?st ts") (auto simp: serve_connection_def)
  then show thesis
  proof cases
    case 1
    with assms(1,2) that [of s1] show thesis
      by (auto simp: serve_connection_def)
  next
    case (2 r o1)
    then obtain ok2 s2 where r: "r = Stopped ok2 s2"
      using assms(1,2) by (cases r) (auto simp: serve_connection_def)
    have "sm_reaches s1 s2"
      using serve_turns_reaches [OF 2(2)] assms(3) r by simp
    with 2 r assms(1,2) that [of s2] show thesis
      by (fastforce simp: serve_connection_def)
  qed
qed

lemma handshake_reaches:
  assumes "handshake h rawToken inp s = Inr (sessionID, agentID, s1)"
  shows "sm_reaches s s1"
proof -
  let ?s = "snd (make_outbound s)"
  obtain session where s1: "s1 = session_Register (hi_now inp) session ?s"
    "ses_Outbound session = Some (length (gs_outbound s))"
    using assms
    by (auto simp: handshake_def make_outbound_def split: option.splits if_splits)
  have "sm_reaches s ?s"
    by (rule sm_reaches_step [of _ Ev_MakeOutbound]) simp
  moreover have "sm_reaches ?s s1"
    using s1 by (intro sm_reaches_step [of _ "Ev_Register (hi_now inp) session"]) (simp add: make_outbound_def)
  ultimately show ?thesis by (rule sm_reaches_trans)
qed

text \<open>
  C9: a connection leaves nothing behind. However a registered connection ends, after any
  traffic interleaved with any activity of other goroutines, its context is cancelled, its
  session is gone, no request is still waiting for it, and the last things done are the
  cleanup of its tunnels and the marking of its agent as offline. The manager is left in a
  state it can reach by its own steps.
\<close>

theorem connection_leaves_nothing_behind:
  assumes "sm_inv s" and "handshake h rawToken inp s = Inr (sessionID, agentID, s1)"
    and "serve_connection h rawToken inp s ts = Some (ok, s', out)"
  shows "sm_reaches s s' \<and> hi_cancel inp \<in> set (gs_cancelled s') \<and> map_of (gs_sessions s') sessionID = None
    \<and> (\<forall>i p. map_of (gs_pending s') i = Some p \<longrightarrow> pr_sessionID p \<noteq> sessionID)
    \<and> (\<exists>out1. out = out1 @ (if ch_cleanup h then [CleanupSession sessionID agentID] else [])
         @ (if ch_agents h \<and> agentID \<noteq> [] then [DisconnectAgent agentID] else []))"
proof -
  note first = handshake_reaches [OF assms(2)]
  obtain s2 out1 out2 where s2: "sm_reaches s1 s2"
    "end_session h sessionID agentID (hi_cancel inp) s2 = Some (s', out2)" "out = out1 @ out2"
    by (rule serve_turns_run [OF assms(3,2) sm_reaches_inv [OF first assms(1)]])
  let ?s = "call_cancel (hi_cancel inp) s2"
  have rm: "session_Remove sessionID ?s = Some s'"
    and out2: "out2 = (if ch_cleanup h then [CleanupSession sessionID agentID] else [])
      @ (if ch_agents h \<and> agentID \<noteq> [] then [DisconnectAgent agentID] else [])"
    using s2(2) by (auto simp: end_session_def)
  have reach: "sm_reaches s ?s"
    using first s2(1) sm_reaches_step [of s2 "Ev_Cancel (hi_cancel inp)" ?s] by (auto intro: sm_reaches_trans)
  note fields = session_Remove_fields [OF rm]
  have "wf_map (gs_pending ?s)"
    using sm_reaches_inv [OF reach assms(1)] by (simp add: sm_inv_def)
  then have "\<forall>i p. map_of (gs_pending s') i = Some p \<longrightarrow> pr_sessionID p \<noteq> sessionID"
    by (auto simp: fields map_of_purge split: option.splits if_splits)
  moreover have "hi_cancel inp \<in> set (gs_cancelled s')"
    by (simp add: fields call_cancel_def)
  moreover have "sm_reaches s s'"
    by (rule sm_reaches_trans [OF reach remove_reaches [OF rm]])
  moreover have "\<exists>out1. out = out1 @ (if ch_cleanup h then [CleanupSession sessionID agentID] else [])
      @ (if ch_agents h \<and> agentID \<noteq> [] then [DisconnectAgent agentID] else [])"
    using s2(3) out2 by blast
  ultimately show ?thesis
    using fields(2) by blast
qed

definition example_hello :: clientHello where
  "example_hello = \<lparr>ach_ProtocolVersion = 1, ach_AgentVersion = ''1'', ach_InstanceID = ''host'',
     ach_Hostname = ''host'', ach_OS = ''linux'', ach_Arch = ''amd64''\<rparr>"

definition example_handshake :: handshake_input where
  "example_handshake =
     \<lparr>hi_read = Some (Marshal (envelope_json ''client_hello'' (Some (clientHello_json example_hello)))),
      hi_random = Some [1, 2, 3], hi_connect = (\<lambda>_ _. Some ''agent''), hi_now = 5, hi_cancel = 0, hi_writeOk = True\<rparr>"

lemma example_handshake_ok:
  "\<exists>s1. handshake \<lparr>ch_agents = True, ch_cleanup = True\<rparr> ''tkn_1'' example_handshake new_gateway
     = Inr (''ses_AQID'', ''agent'', s1)"
proof -
  have "list_all utf8_valid [''1'', ''host'', ''host'', ''linux'', ''amd64'']"
    by (simp add: utf8_valid_def)
  moreover have "int64 1"
    by (simp add: int64_def maxInt64_def)
  moreover have "RawURL_EncodeToString [1, 2, 3] = ''AQID''"
    by (simp add: b64_char_def b64_alphabet_def)
  ultimately show ?thesis
    using gateway_reads_client_hello [of example_hello]
    by (simp add: handshake_def example_handshake_def example_hello_def newSessionID_def protocol_Version_def
        case_prod_unfold Let_def)
qed

theorem connection_leaves_nothing_behind_witness:
  "\<exists>s' out. serve_connection \<lparr>ch_agents = True, ch_cleanup = True\<rparr> ''tkn_1'' example_handshake new_gateway
      [Turn \<lparr>si_now = 6, si_writeOk = True, si_openTunnel = None\<rparr> SE_ReadError] = Some (True, s', out)
     \<and> map_of (gs_sessions s') ''ses_AQID'' = None"
proof -
  let ?h = "\<lparr>ch_agents = True, ch_cleanup = True\<rparr>"
  let ?ts = "[Turn \<lparr>si_now = 6, si_writeOk = True, si_openTunnel = None\<rparr> SE_ReadError]"
  obtain s1 where s1: "handshake ?h ''tkn_1'' example_handshake new_gateway = Inr (''ses_AQID'', ''agent'', s1)"
    using example_handshake_ok by blast
  have "sm_inv (call_cancel 0 s1)"
    using sm_inv_step [of s1 "Ev_Cancel 0"] sm_reaches_inv [OF handshake_reaches [OF s1] sm_inv_new] by simp
  from session_Remove_returns [OF this, of "''ses_AQID''"]
  obtain s' out where run: "serve_connection ?h ''tkn_1'' example_handshake new_gateway ?ts = Some (True, s', out)"
    using s1 by (auto simp: serve_connection_def end_session_def example_handshake_def)
  with connection_leaves_nothing_behind [OF sm_inv_new s1 run] show ?thesis by blast
qed

end
