(* ===== verification/Public_Handler.thy ===== *)
theory Public_Handler
  imports Go_Http Messages Frames Chunk_Assembler Public_Host Rate_Limiter Tunnel_Registry Session_Manager Sha256
begin

text \<open>
  The handler behind every public host name,
  \<^verbatim>\<open>backend/internal/tunnels/public_handler.go\<close>. It shares the registry and the session
  manager with all other goroutines and blocks at several points, so the model is the handler
  as a function of what happens at those points: \<open>public_env\<close> has the time, the random bytes,
  the reads of the body, whether each send was accepted, and which case of the final select
  was taken. The result is the reply and the list of calls made on the shared objects, in
  order.
\<close>

definition requestBodyChunkSize :: nat where "requestBodyChunkSize = 32768"
definition maxTunnelBodyBytes :: nat where "maxTunnelBodyBytes = 33554432"

section \<open>The environment\<close>

datatype wait_outcome = GotResponse Response | RequestDone | TimedOut

record public_env =
  pe_now :: int
  pe_random :: "byte list option"
  pe_reads :: body_reads
  pe_sends :: "bool list"
  pe_wait :: "wait_outcome option"

datatype public_action =
    Act_Register string string
  | Act_Send string OutboundMessage bool
  | Act_TrySend string "byte list"
  | Act_Cancel string
  | Act_Traffic string int int

record handler_run =
  hr_actions :: "public_action list"
  hr_sends :: "bool list"

definition act :: "public_action \<Rightarrow> handler_run \<Rightarrow> handler_run" where
  "act a st = st\<lparr>hr_actions := hr_actions st @ [a]\<rparr>"

text \<open>
  A blocking send: its outcome is the next of \<open>hr_sends\<close>, and the sends after those are
  accepted.
\<close>

definition send_message :: "string \<Rightarrow> OutboundMessage \<Rightarrow> handler_run \<Rightarrow> bool \<times> handler_run" where
  "send_message sessionID message st =
     (let (ok, rest) = (case hr_sends st of [] \<Rightarrow> (True, []) | ok # rest \<Rightarrow> (ok, rest))
      in (ok, act (Act_Send sessionID message ok) (st\<lparr>hr_sends := rest\<rparr>)))"

section \<open>Forwarding the request\<close>

definition publicRequestID :: "byte list option \<Rightarrow> string option" where
  "publicRequestID random = map_option (\<lambda>b. ''req_'' @ hex_EncodeToString b) random"

definition request_start_message :: "HTTPRequestPayload \<Rightarrow> OutboundMessage" where
  "request_start_message p =
     \<lparr>om_Type = MessageText, om_Data = Marshal (Envelope_json HTTPRequestStart (Some (HTTPRequestPayload_json p)))\<rparr>"

definition request_end_message :: "string \<Rightarrow> OutboundMessage" where
  "request_end_message requestID =
     \<lparr>om_Type = MessageText,
      om_Data = Marshal (Envelope_json HTTPRequestEnd (Some (HTTPRequestEndPayload_json requestID)))\<rparr>"

definition request_payload :: "(string \<Rightarrow> string) \<Rightarrow> HTTPRequest \<Rightarrow> string \<Rightarrow> HTTPRequestPayload" where
  "request_payload uni r requestID =
     \<lparr>hrq_RequestID = requestID, hrq_Method = req_Method r, hrq_Path = req_RequestURI r,
      hrq_Headers = Some (publicRequestHeaders uni r requestID), hrq_ContentLength = req_ContentLength r\<rparr>"

datatype send_error = BodyTooLarge | SendError string

text \<open>The loop of \<open>sendRequestBody\<close>; the text of a codec error is the argument \<open>message\<close>.\<close>

fun send_chunks ::
    "(frame_error \<Rightarrow> string) \<Rightarrow> string \<Rightarrow> string \<Rightarrow> u32 \<Rightarrow> limited_reads \<Rightarrow> handler_run
      \<Rightarrow> send_error option progress \<times> handler_run" where
  "send_chunks message sessionID requestID sequence [] st = (Waiting, st)"
| "send_chunks message sessionID requestID sequence ((data, err) # reads) st =
     (case (if length data > 0 then
              (case MarshalBinary \<lparr>frame_Type = RequestBodyChunk, frame_RequestID = requestID,
                                   frame_Sequence = sequence, frame_Payload = data\<rparr> of
                 Inl marshalErr \<Rightarrow> (Some (SendError (message marshalErr)), sequence, st)
               | Inr frame \<Rightarrow>
                   (case send_message sessionID \<lparr>om_Type = MessageBinary, om_Data = frame\<rparr> st of
                      (False, st') \<Rightarrow> (Some (SendError ''tunnel agent is unavailable''), sequence, st')
                    | (True, st') \<Rightarrow> (None, sequence + 1, st')))
            else (None, sequence, st)) of
        (Some e, _, st') \<Rightarrow> (Returned (Some e), st')
      | (None, sequence', st') \<Rightarrow>
          (case err of
             LEOF \<Rightarrow> (Returned None, st')
           | LError m \<Rightarrow> (Returned (Some (SendError m)), st')
           | LTooLarge \<Rightarrow> (Returned (Some BodyTooLarge), st')
           | LMore \<Rightarrow> send_chunks message sessionID requestID sequence' reads st'))"

definition sendRequestBody ::
    "(frame_error \<Rightarrow> string) \<Rightarrow> string \<Rightarrow> string \<Rightarrow> limited_reads \<Rightarrow> handler_run
      \<Rightarrow> send_error option progress \<times> handler_run" where
  "sendRequestBody message sessionID requestID body st =
     (case send_chunks message sessionID requestID 0 body st of
        (Returned None, st') \<Rightarrow>
          (case send_message sessionID (request_end_message requestID) st' of
             (False, st'') \<Rightarrow> (Returned (Some (SendError ''tunnel agent is unavailable'')), st'')
           | (True, st'') \<Rightarrow> (Returned None, st''))
      | r \<Rightarrow> r)"

definition cancel_message :: "string \<Rightarrow> byte list" where
  "cancel_message requestID = Marshal (Envelope_json CancelRequest (Some (CancelRequestPayload_json requestID)))"

definition sendCancel :: "string \<Rightarrow> string \<Rightarrow> handler_run \<Rightarrow> handler_run" where
  "sendCancel sessionID requestID st = act (Act_TrySend sessionID (cancel_message requestID)) st"

section \<open>Answering\<close>

definition add_values :: "string \<times> string list \<Rightarrow> Header \<Rightarrow> Header" where
  "add_values = (\<lambda>(name, vals) w. fold (header_Add name) vals w)"

text \<open>The select at the end; the response is what \<open>responseCh\<close> delivers.\<close>

fun answer ::
    "ActiveTunnel \<Rightarrow> string \<Rightarrow> HTTPRequest \<Rightarrow> Header \<Rightarrow> wait_outcome \<Rightarrow> handler_run \<Rightarrow> http_outcome \<times> handler_run" where
  "answer tunnel requestID r w (GotResponse response) st =
     (if res_Error response \<noteq> [] then (http_Error w (res_Error response) 502, st)
      else
        (WriteHeader (res_StatusCode response)
           (fold add_values (withoutHopByHopHeaders (res_Headers response)) w) (res_Body response),
         act (Act_Traffic (at_ID tunnel) (req_ContentLength r) (int (length (res_Body response)))) st))"
| "answer tunnel requestID r w RequestDone st =
     (http_Error w ''tunnel response timed out'' 504, sendCancel (at_SessionID tunnel) requestID st)"
| "answer tunnel requestID r w TimedOut st =
     (http_Error w ''tunnel response timed out'' 504, sendCancel (at_SessionID tunnel) requestID st)"

text \<open>From the registration of the request on; \<open>Act_Cancel\<close> is the deferred call.\<close>

definition forward ::
    "(string \<Rightarrow> string) \<Rightarrow> (frame_error \<Rightarrow> string) \<Rightarrow> ActiveTunnel \<Rightarrow> string \<Rightarrow> HTTPRequest \<Rightarrow> Header
      \<Rightarrow> public_env \<Rightarrow> http_outcome progress \<times> public_action list" where
  "forward uni message tunnel requestID r w env =
     (let sessionID = at_SessionID tunnel;
          st = \<lparr>hr_actions = [Act_Register sessionID requestID], hr_sends = pe_sends env\<rparr>;
          finish = (\<lambda>(reply, st). (Returned reply, hr_actions (act (Act_Cancel requestID) st)))
      in case send_message sessionID (request_start_message (request_payload uni r requestID)) st of
           (False, st) \<Rightarrow> finish (http_Error w ''tunnel agent is unavailable'' 502, st)
         | (True, st) \<Rightarrow>
             (case sendRequestBody message sessionID requestID (MaxBytesReader maxTunnelBodyBytes (pe_reads env)) st of
                (Waiting, st) \<Rightarrow> (Waiting, hr_actions st)
              | (Returned (Some BodyTooLarge), st) \<Rightarrow>
                  finish (http_Error w ''request body too large'' 413, sendCancel sessionID requestID st)
              | (Returned (Some (SendError e)), st) \<Rightarrow>
                  finish (http_Error w e 502, sendCancel sessionID requestID st)
              | (Returned None, st) \<Rightarrow>
                  (case pe_wait env of
                     None \<Rightarrow> (Waiting, hr_actions st)
                   | Some outcome \<Rightarrow> finish (answer tunnel requestID r w outcome st))))"

definition retry_after_seconds :: "int \<Rightarrow> string" where
  "retry_after_seconds retryAfter = show_int (max 1 (retryAfter div Second))"

definition public_ServeHTTP ::
    "(string \<Rightarrow> string) \<Rightarrow> (frame_error \<Rightarrow> string) \<Rightarrow> string \<Rightarrow> Registry \<Rightarrow> public_env \<Rightarrow> Header \<Rightarrow> HTTPRequest
      \<Rightarrow> rateLimiter \<Rightarrow> (http_outcome progress \<times> public_action list) \<times> rateLimiter" where
  "public_ServeHTTP uni message baseDomain registry env w r limiter =
     (case ParsePublicHost uni (req_Host r) baseDomain of
        None \<Rightarrow> ((Returned (http_NotFound w), []), limiter)
      | Some subdomain \<Rightarrow>
          (case registry_Get subdomain registry of
             None \<Rightarrow> ((Returned (http_NotFound w), []), limiter)
           | Some tunnel \<Rightarrow>
               (case public_allow limiter (at_ID tunnel @ '':'' @ requestClientIP r) (pe_now env) of
                  ((False, retryAfter), limiter') \<Rightarrow>
                    ((Returned (http_Error (header_Set ''Retry-After'' (retry_after_seconds retryAfter) w)
                        ''public request rate limit exceeded'' 429), []), limiter')
                | ((True, _), limiter') \<Rightarrow>
                    (if req_ContentLength r > int maxTunnelBodyBytes
                     then ((Returned (http_Error w ''request body too large'' 413), []), limiter')
                     else
                       case publicRequestID (pe_random env) of
                         None \<Rightarrow> ((Returned (http_Error w ''request ID generation failed'' 500), []), limiter')
                       | Some requestID \<Rightarrow> (forward uni message tunnel requestID r w env, limiter')))))"

section \<open>The calls of a run\<close>

text \<open>What the handler may do between registering its request and cancelling it.\<close>

fun inner_action :: "public_action \<Rightarrow> bool" where
  "inner_action (Act_Register sid i) = False"
| "inner_action (Act_Cancel i) = False"
| "inner_action _ = True"

definition extends :: "handler_run \<Rightarrow> handler_run \<Rightarrow> bool" where
  "extends st st' \<longleftrightarrow> (\<exists>mid. hr_actions st' = hr_actions st @ mid \<and> list_all inner_action mid)"

lemma extends_refl [simp]: "extends st st"
  by (simp add: extends_def)

lemma extends_trans: "extends st st' \<Longrightarrow> extends st' st'' \<Longrightarrow> extends st st''"
  by (auto simp: extends_def)

lemma extends_act: "inner_action a \<Longrightarrow> extends st (act a st)"
  by (simp add: extends_def act_def)

lemma extends_send: "extends st (snd (send_message sid m st))"
  by (auto simp: send_message_def extends_def act_def Let_def split: list.splits)

lemma extends_cancel: "extends st (sendCancel sid i st)"
  by (simp add: sendCancel_def extends_act)

lemma extends_chunks: "extends st (snd (send_chunks message sid i n reads st))"
proof (induction message sid i n reads st rule: send_chunks.induct)
  case (2 message sid i n data err reads st)
  let ?f = "\<lparr>frame_Type = RequestBodyChunk, frame_RequestID = i, frame_Sequence = n, frame_Payload = data\<rparr>"
  show ?case
  proof (cases "data = []")
    case True
    with 2 show ?thesis by (cases err) auto
  next
    case False
    show ?thesis
    proof (cases "MarshalBinary ?f")
      case (Inl e)
      with False show ?thesis by simp
    next
      case (Inr frame)
      let ?m = "\<lparr>om_Type = MessageBinary, om_Data = frame\<rparr>"
      obtain ok st1 where st1: "send_message sid ?m st = (ok, st1)" by (cases "send_message sid ?m st")
      have one: "extends st st1"
        using extends_send [of st sid ?m] st1 by simp
      have "extends st1 (snd (send_chunks message sid i (n + 1) reads st1))" if ok "err = LMore"
        using 2 False Inr st1 that by simp
      with False Inr st1 one show ?thesis
        by (cases ok; cases err) (auto intro: extends_trans)
    qed
  qed
qed simp

lemma extends_body: "extends st (snd (sendRequestBody message sid i body st))"
proof -
  obtain r st1 where st1: "send_chunks message sid i 0 body st = (r, st1)"
    by (cases "send_chunks message sid i 0 body st")
  have one: "extends st st1"
    using extends_chunks [of st message sid i 0 body] st1 by simp
  show ?thesis
  proof (cases "r = Returned None")
    case True
    obtain ok st2 where st2: "send_message sid (request_end_message i) st1 = (ok, st2)"
      by (cases "send_message sid (request_end_message i) st1")
    have "extends st1 st2"
      using extends_send [of st1 sid "request_end_message i"] st2 by simp
    with one st1 st2 True show ?thesis
      by (cases ok) (auto simp: sendRequestBody_def intro: extends_trans)
  next
    case False
    with one st1 show ?thesis
      by (auto simp: sendRequestBody_def split: progress.splits option.splits)
  qed
qed

lemma extends_answer: "extends st (snd (answer tunnel i r w outcome st))"
  by (cases outcome) (auto simp: extends_act extends_cancel)

text \<open>How often the handler records traffic.\<close>

fun records :: "public_action \<Rightarrow> bool" where
  "records (Act_Traffic i n m) = True"
| "records _ = False"

section \<open>What reaches the agent\<close>

fun accepted :: "public_action \<Rightarrow> OutboundMessage option" where
  "accepted (Act_Send sid m True) = Some m"
| "accepted _ = None"

definition accepted_messages :: "public_action list \<Rightarrow> OutboundMessage list" where
  "accepted_messages as = List.map_filter accepted as"

lemma accepted_messages_simps [simp]:
  "accepted_messages [] = []" "accepted_messages (as @ bs) = accepted_messages as @ accepted_messages bs"
  "accepted_messages (Act_Send sid m True # as) = m # accepted_messages as"
  "accepted_messages (Act_Send sid m False # as) = accepted_messages as"
  "accepted_messages (Act_Register sid i # as) = accepted_messages as"
  "accepted_messages (Act_Cancel i # as) = accepted_messages as"
  "accepted_messages (Act_TrySend sid d # as) = accepted_messages as"
  "accepted_messages (Act_Traffic i n k # as) = accepted_messages as"
  by (simp_all add: accepted_messages_def List.map_filter_def)

lemma accepted_messages_sends [simp]: "accepted_messages (map (\<lambda>m. Act_Send sid m True) ms) = ms"
  by (induction ms) simp_all

text \<open>The messages for the chunks of a body, numbered from \<open>n\<close>.\<close>

definition upload_messages :: "string \<Rightarrow> u32 \<Rightarrow> byte list list \<Rightarrow> OutboundMessage list" where
  "upload_messages i n cs =
     map (\<lambda>f. \<lparr>om_Type = MessageBinary, om_Data = frame_bytes f\<rparr>) (number_chunks RequestBodyChunk i n cs)"

lemma upload_messages_simps [simp]:
  "upload_messages i n [] = []"
  "upload_messages i n (c # cs) = \<lparr>om_Type = MessageBinary, om_Data = frame_bytes
      \<lparr>frame_Type = RequestBodyChunk, frame_RequestID = i, frame_Sequence = n, frame_Payload = c\<rparr>\<rparr>
    # upload_messages i (n + 1) cs"
  by (simp_all add: upload_messages_def)

text \<open>Reads that go on until the last one, as \<open>MaxBytesReader\<close> returns them.\<close>

fun stops :: "limited_reads \<Rightarrow> bool" where
  "stops [] \<longleftrightarrow> True"
| "stops ((d, e) # reads) \<longleftrightarrow> e = LMore \<and> stops reads \<or> reads = []"

fun send_end :: "limited_reads \<Rightarrow> send_error option progress" where
  "send_end [] = Waiting"
| "send_end ((d, e) # reads) =
     (case e of LEOF \<Rightarrow> Returned None | LError m \<Rightarrow> Returned (Some (SendError m))
      | LTooLarge \<Rightarrow> Returned (Some BodyTooLarge) | LMore \<Rightarrow> send_end reads)"

lemma stops_MaxBytesReader: "stops (MaxBytesReader n reads)"
proof (induction n reads rule: MaxBytesReader.induct)
  case (2 n d e reads)
  then show ?case by (cases e) auto
qed simp

definition small_body :: "('b list \<times> 'e) list \<Rightarrow> bool" where
  "small_body reads \<longleftrightarrow> list_all (\<lambda>(d, e). length d \<le> requestBodyChunkSize) reads"

lemma small_body_MaxBytesReader: "small_body reads \<Longrightarrow> small_body (MaxBytesReader n reads)"
proof (induction n reads rule: MaxBytesReader.induct)
  case (2 n d e reads)
  then show ?case by (cases e) (auto simp: small_body_def)
qed (simp add: small_body_def)

lemma send_message_open: "hr_sends st = [] \<Longrightarrow> send_message sid m st = (True, act (Act_Send sid m True) st)"
  by (cases st) (simp add: send_message_def)

lemma send_chunks_open:
  assumes "i \<noteq> []" "length i < 65536" "small_body reads" "stops reads" "hr_sends st = []"
  shows "send_chunks message sid i n reads st =
    (send_end reads, st\<lparr>hr_actions := hr_actions st
       @ map (\<lambda>m. Act_Send sid m True) (upload_messages i n (chunks_of reads))\<rparr>)"
  using assms(3-5)
proof (induction reads arbitrary: n st)
  case Nil
  then show ?case by (simp add: chunks_of_def)
next
  case (Cons r reads)
  obtain d e where r: "r = (d, e)" by (cases r)
  have d: "length d \<le> requestBodyChunkSize" and rest: "small_body reads" "e = LMore \<Longrightarrow> stops reads"
    and last: "e \<noteq> LMore \<Longrightarrow> reads = []"
    using Cons.prems by (auto simp: r small_body_def)
  show ?case
  proof (cases "d = []")
    case True
    with Cons.IH [OF rest Cons.prems(3)] last show ?thesis
      by (cases e) (auto simp: r chunks_of_def)
  next
    case False
    let ?f = "\<lparr>frame_Type = RequestBodyChunk, frame_RequestID = i, frame_Sequence = n, frame_Payload = d\<rparr>"
    let ?m = "\<lparr>om_Type = MessageBinary, om_Data = frame_bytes ?f\<rparr>"
    have "MarshalBinary ?f = Inr (frame_bytes ?f)"
      using assms(1,2) d by (simp add: MarshalBinary_iff frame_ok_def frame_consts requestBodyChunkSize_def)
    with False Cons.IH [OF rest, of "act (Act_Send sid ?m True) st" "n + 1"] Cons.prems(3) last show ?thesis
      by (cases e) (auto simp: r send_message_open chunks_of_def act_def)
  qed
qed

lemma sendRequestBody_open:
  assumes "i \<noteq> []" "length i < 65536" "small_body reads" "stops reads" "hr_sends st = []"
  shows "sendRequestBody message sid i reads st =
    (send_end reads, st\<lparr>hr_actions := hr_actions st
       @ map (\<lambda>m. Act_Send sid m True) (upload_messages i 0 (chunks_of reads)
           @ (if send_end reads = Returned None then [request_end_message i] else []))\<rparr>)"
  using send_chunks_open [OF assms, of message sid 0] assms(5)
  by (auto simp: sendRequestBody_def send_message_open act_def split: progress.splits option.splits)

lemma send_end_whole:
  assumes "whole_body reads" "length (body_of reads) \<le> n"
  shows "send_end (MaxBytesReader n reads) = Returned None"
    and "chunks_of (MaxBytesReader n reads) = chunks_of reads"
proof -
  have "send_end (map (\<lambda>(d, e). (d, limited e)) reads) = Returned None" if "whole_body reads" for reads
    using that
  proof (induction reads)
    case (Cons r reads)
    obtain d e where "r = (d, e)" by (cases r)
    with Cons show ?case by (cases e) auto
  qed simp
  then show "send_end (MaxBytesReader n reads) = Returned None"
    using MaxBytesReader_fits [OF assms(2,1)] assms(1) by simp
  show "chunks_of (MaxBytesReader n reads) = chunks_of reads"
    unfolding MaxBytesReader_fits [OF assms(2,1)] by (simp add: chunks_of_def comp_def case_prod_unfold)
qed

lemma send_end_oversized:
  assumes "length (body_of reads) > n" "\<forall>(d, e) \<in> set (butlast reads). e = More"
  shows "send_end (MaxBytesReader n reads) = Returned (Some BodyTooLarge)
    \<and> body_of (MaxBytesReader n reads) = take n (body_of reads)"
  using assms
proof (induction n reads rule: MaxBytesReader.induct)
  case (2 n d e reads)
  show ?case
  proof (cases "length d \<le> n")
    case True
    then have "reads \<noteq> []" using 2(2) by (auto simp: body_of_def)
    with 2(3) have "e = More" by auto
    with 2(1) [OF True] 2(2,3) True \<open>reads \<noteq> []\<close> show ?thesis by (auto simp: body_of_def)
  next
    case False
    then show ?thesis by (simp add: body_of_def)
  qed
qed (simp add: body_of_def)

section \<open>Whole runs\<close>

lemma forward_actions:
  assumes "forward uni message tunnel i r w env = (Returned reply, actions)"
  shows "\<exists>mid. actions = Act_Register (at_SessionID tunnel) i # mid @ [Act_Cancel i] \<and> list_all inner_action mid"
proof -
  let ?sid = "at_SessionID tunnel"
  let ?m = "request_start_message (request_payload uni r i)"
  let ?st = "\<lparr>hr_actions = [Act_Register ?sid i], hr_sends = pe_sends env\<rparr>"
  have "\<exists>st. extends ?st st \<and> actions = hr_actions st @ [Act_Cancel i]"
  proof -
    obtain ok st1 where st1: "send_message ?sid ?m ?st = (ok, st1)" by (cases "send_message ?sid ?m ?st")
    have one: "extends ?st st1"
      using extends_send [of ?st ?sid ?m] st1 by simp
    obtain res st2 where st2: "sendRequestBody message ?sid i (MaxBytesReader maxTunnelBodyBytes (pe_reads env)) st1 = (res, st2)"
      by (cases "sendRequestBody message ?sid i (MaxBytesReader maxTunnelBodyBytes (pe_reads env)) st1")
    have two: "extends ?st st2"
      using extends_trans [OF one] extends_body [of st1 message ?sid i] st2 by (metis snd_conv)
    have fin: "extends ?st (sendCancel ?sid i st2)" "extends ?st (snd (answer tunnel i r w out st2))" for out
      using extends_trans [OF two extends_cancel] extends_trans [OF two extends_answer] by blast+
    show ?thesis
      using assms st1 st2 one two fin
      by (fastforce simp: forward_def Let_def case_prod_unfold act_def
          split: bool.splits progress.splits option.splits send_error.splits)
  qed
  then show ?thesis
    by (auto simp: extends_def)
qed

text \<open>The checks before the request is registered.\<close>

definition admitted ::
    "(string \<Rightarrow> string) \<Rightarrow> string \<Rightarrow> Registry \<Rightarrow> public_env \<Rightarrow> HTTPRequest \<Rightarrow> rateLimiter \<Rightarrow> ActiveTunnel \<Rightarrow> bool" where
  "admitted uni baseDomain registry env r limiter tunnel \<longleftrightarrow>
     (\<exists>subdomain. ParsePublicHost uni (req_Host r) baseDomain = Some subdomain
        \<and> registry_Get subdomain registry = Some tunnel)
     \<and> fst (fst (public_allow limiter (at_ID tunnel @ '':'' @ requestClientIP r) (pe_now env)))
     \<and> req_ContentLength r \<le> int maxTunnelBodyBytes"

lemma public_ServeHTTP_admitted:
  assumes "admitted uni baseDomain registry env r limiter tunnel" "pe_random env = Some b"
  shows "fst (public_ServeHTTP uni message baseDomain registry env w r limiter)
    = forward uni message tunnel (''req_'' @ hex_EncodeToString b) r w env"
  using assms
  by (auto simp: admitted_def public_ServeHTTP_def publicRequestID_def split: prod.splits bool.splits)

lemma forward_open:
  fixes tunnel :: ActiveTunnel
  assumes "i \<noteq> []" "length i < 65536" "pe_sends env = []" "small_body (pe_reads env)"
  defines "body \<equiv> MaxBytesReader maxTunnelBodyBytes (pe_reads env)"
    and "sends \<equiv> map (\<lambda>m. Act_Send (at_SessionID tunnel) m True)"
  shows "forward uni message tunnel i r w env =
    (let before = Act_Register (at_SessionID tunnel) i
           # sends (request_start_message (request_payload uni r i) # upload_messages i 0 (chunks_of body))
     in case send_end body of
          Waiting \<Rightarrow> (Waiting, before)
        | Returned (Some BodyTooLarge) \<Rightarrow> (Returned (http_Error w ''request body too large'' 413),
            before @ [Act_TrySend (at_SessionID tunnel) (cancel_message i), Act_Cancel i])
        | Returned (Some (SendError e)) \<Rightarrow> (Returned (http_Error w e 502),
            before @ [Act_TrySend (at_SessionID tunnel) (cancel_message i), Act_Cancel i])
        | Returned None \<Rightarrow>
            (case pe_wait env of
               None \<Rightarrow> (Waiting, before @ sends [request_end_message i])
             | Some outcome \<Rightarrow>
                 (case answer tunnel i r w outcome
                    \<lparr>hr_actions = before @ sends [request_end_message i], hr_sends = []\<rparr> of
                    (reply, st) \<Rightarrow> (Returned reply, hr_actions st @ [Act_Cancel i]))))"
proof -
  have "small_body body" "stops body"
    by (simp_all add: body_def small_body_MaxBytesReader [OF assms(4)] stops_MaxBytesReader)
  note sb = sendRequestBody_open [OF assms(1,2) this, where message = message]
  show ?thesis
    using assms(3)
    by (auto simp: forward_def Let_def send_message_open sb act_def sendCancel_def sends_def simp flip: body_def
        split: progress.splits option.splits send_error.splits prod.splits)
qed

section \<open>Properties\<close>

text \<open>
  no run of the handler leaks a registered request. Whenever it returns, panicking in
  \<open>WriteHeader\<close> included, it has either registered nothing or registered one request, first,
  and cancelled that same request, last.
\<close>

theorem registration_always_cancelled:
  assumes "public_ServeHTTP uni message baseDomain registry env w r limiter = ((Returned reply, actions), limiter')"
  shows "actions = [] \<or> (\<exists>sessionID i mid. actions = Act_Register sessionID i # mid @ [Act_Cancel i]
    \<and> list_all inner_action mid)"
proof (cases "actions = []")
  case False
  with assms obtain tunnel i where "forward uni message tunnel i r w env = (Returned reply, actions)"
    by (auto simp: public_ServeHTTP_def split: option.splits prod.splits bool.splits if_splits)
  then show ?thesis
    using forward_actions by metis
qed simp

definition example_env :: public_env where
  "example_env = \<lparr>pe_now = 1, pe_random = Some (replicate 12 0), pe_reads = [([7], EOF)], pe_sends = [],
     pe_wait = Some (GotResponse \<lparr>res_StatusCode = 200, res_Headers = [], res_Body = [8, 9], res_Error = []\<rparr>)\<rparr>"

definition routed_tunnel :: ActiveTunnel where
  "routed_tunnel = \<lparr>at_ID = ''t1'', at_Subdomain = ''a'', at_AgentID = ''g1'', at_UserID = ''u1'',
     at_SessionID = ''ses_1'', at_LocalAddress = ''3000''\<rparr>"

definition example_registry :: Registry where
  "example_registry = registry_Open routed_tunnel NewRegistry"

lemma example_admitted:
  "admitted (\<lambda>s. s) ''example.com'' example_registry example_env example_request
     (newPublicRateLimiter publicRateLimit publicRateWindow) routed_tunnel"
proof -
  have "ParsePublicHost (\<lambda>s. s) ''a.example.com'' ''example.com'' = Some ''a''"
    by code_simp
  then show ?thesis
    by (simp add: admitted_def example_request_def example_registry_def registry_Open_def NewRegistry_def
        routed_tunnel_def registry_Get_def public_allow_def newPublicRateLimiter_def map_purge_def Let_def)
qed

lemma request_id_ok:
  "length b = 12 \<Longrightarrow> ''req_'' @ hex_EncodeToString b \<noteq> [] \<and> length (''req_'' @ hex_EncodeToString b) < 65536"
  by simp

lemma example_run:
  "\<exists>reply actions limiter'. public_ServeHTTP (\<lambda>s. s) (\<lambda>_. []) ''example.com'' example_registry example_env [] example_request
     (newPublicRateLimiter publicRateLimit publicRateWindow) = ((Returned reply, actions), limiter') \<and> actions \<noteq> []"
proof -
  have "small_body (pe_reads example_env)" "pe_sends example_env = []"
    by (simp_all add: example_env_def small_body_def requestBodyChunkSize_def)
  moreover have "''req_'' @ hex_EncodeToString (replicate 12 0) \<noteq> [] \<and>
      length (''req_'' @ hex_EncodeToString (replicate 12 0)) < 65536"
    by (rule request_id_ok) simp
  ultimately have "\<exists>reply actions. fst (public_ServeHTTP (\<lambda>s. s) (\<lambda>_. []) ''example.com'' example_registry example_env []
      example_request (newPublicRateLimiter publicRateLimit publicRateWindow)) = (Returned reply, actions) \<and> actions \<noteq> []"
    unfolding public_ServeHTTP_admitted [OF example_admitted, of "replicate 12 0", unfolded example_env_def, simplified,
        folded example_env_def]
    by (simp add: forward_open) (simp add: example_env_def maxTunnelBodyBytes_def act_def)
  then show ?thesis
    by (metis prod.collapse)
qed

theorem registration_always_cancelled_witness:
  "\<exists>reply sessionID i mid limiter'. public_ServeHTTP (\<lambda>s. s) (\<lambda>_. []) ''example.com'' example_registry example_env []
     example_request (newPublicRateLimiter publicRateLimit publicRateWindow)
     = ((Returned reply, Act_Register sessionID i # mid @ [Act_Cancel i]), limiter') \<and> list_all inner_action mid"
proof -
  obtain reply actions limiter' where run: "public_ServeHTTP (\<lambda>s. s) (\<lambda>_. []) ''example.com'' example_registry example_env []
      example_request (newPublicRateLimiter publicRateLimit publicRateWindow) = ((Returned reply, actions), limiter')"
    "actions \<noteq> []"
    using example_run by blast
  from registration_always_cancelled [OF run(1)] run show ?thesis by blast
qed

text \<open>
  C3: a public request is forwarded exactly. For an admitted request whose body arrives
  completely and is at most 32 MiB, with an agent that keeps accepting messages, the messages
  accepted are the start with the method, the URI, the headers and the length, then the body in
  numbered chunks, then the end, all for the session of the tunnel the host names; and the
  client gets the status, the headers without the hop-by-hop ones and the body of the response
  delivered for that request, whose traffic is recorded once.
\<close>

theorem public_request_forwarded:
  assumes "admitted uni baseDomain registry env r limiter tunnel"
    and "pe_random env = Some b" and "length b = 12"
    and "whole_body (pe_reads env)" and "length (body_of (pe_reads env)) \<le> 32 * 2 ^ 20"
    and "small_body (pe_reads env)" and "pe_sends env = []"
    and "pe_wait env = Some (GotResponse response)" and "res_Error response = []"
  shows "\<exists>actions. fst (public_ServeHTTP uni message baseDomain registry env w r limiter)
      = (Returned (WriteHeader (res_StatusCode response)
            (fold add_values (withoutHopByHopHeaders (res_Headers response)) w) (res_Body response)), actions)
    \<and> accepted_messages actions =
        request_start_message (request_payload uni r (''req_'' @ hex_EncodeToString b))
        # upload_messages (''req_'' @ hex_EncodeToString b) 0 (chunks_of (pe_reads env))
        @ [request_end_message (''req_'' @ hex_EncodeToString b)]
    \<and> (\<forall>sessionID m ok. Act_Send sessionID m ok \<in> set actions \<longrightarrow> sessionID = at_SessionID tunnel \<and> ok)
    \<and> filter records actions = [Act_Traffic (at_ID tunnel) (req_ContentLength r) (int (length (res_Body response)))]"
proof -
  let ?i = "''req_'' @ hex_EncodeToString b"
  have body: "send_end (MaxBytesReader maxTunnelBodyBytes (pe_reads env)) = Returned None"
    "chunks_of (MaxBytesReader maxTunnelBodyBytes (pe_reads env)) = chunks_of (pe_reads env)"
    using send_end_whole [OF assms(4), of maxTunnelBodyBytes] assms(5) by (simp_all add: maxTunnelBodyBytes_def)
  have "filter records (map (\<lambda>m. Act_Send sid m True) ms) = []" for sid ms
    by (induction ms) auto
  then show ?thesis
    unfolding public_ServeHTTP_admitted [OF assms(1,2)]
    using request_id_ok [OF assms(3)] assms(6-9) body
    by (auto simp: forward_open act_def Let_def)
qed

theorem public_request_forwarded_witness:
  "\<exists>actions. fst (public_ServeHTTP (\<lambda>s. s) (\<lambda>_. []) ''example.com'' example_registry example_env [] example_request
      (newPublicRateLimiter publicRateLimit publicRateWindow))
      = (Returned (WriteHeader 200 (fold add_values (withoutHopByHopHeaders []) []) [8, 9]), actions)
    \<and> filter records actions = [Act_Traffic ''t1'' 0 2]"
proof -
  have env: "pe_random example_env = Some (replicate 12 0)" "length (replicate 12 (0 :: byte)) = 12"
    "whole_body (pe_reads example_env)" "length (body_of (pe_reads example_env)) \<le> 32 * 2 ^ 20"
    "small_body (pe_reads example_env)" "pe_sends example_env = []"
    by (simp_all add: example_env_def small_body_def requestBodyChunkSize_def body_of_def)
  have wait: "pe_wait example_env = Some (GotResponse \<lparr>res_StatusCode = 200, res_Headers = [], res_Body = [8, 9], res_Error = []\<rparr>)"
    by (simp add: example_env_def)
  show ?thesis
    using public_request_forwarded [OF example_admitted env wait, of "\<lambda>_. []" "[]"]
    by (auto simp: routed_tunnel_def example_request_def)
qed


definition big_env :: public_env where
  "big_env = example_env\<lparr>pe_reads := replicate 1025 (replicate 32768 7, More)\<rparr>"


lemma retry_after_kept:
  "header_Values (rep_Header reply) ''Retry-After'' = [v]"
  if "http_Error (header_Set ''Retry-After'' v w) m status = Replied reply"
proof -
  have "CanonicalMIMEHeaderKey ''Retry-After'' = ''Retry-After''"
    "CanonicalMIMEHeaderKey ''X-Content-Type-Options'' = ''X-Content-Type-Options''"
    "CanonicalMIMEHeaderKey ''Content-Type'' = ''Content-Type''"
    "CanonicalMIMEHeaderKey ''Content-Length'' = ''Content-Length''"
    by code_simp+
  with that show ?thesis
    by (auto simp: http_Error_def WriteHeader_def header_Values_def header_Set_def header_Del_def split: if_splits)
qed

lemma public_limited_reply:
  assumes "ParsePublicHost uni (req_Host r) baseDomain = Some subdomain" "registry_Get subdomain registry = Some tunnel"
    and "public_allow limiter (at_ID tunnel @ '':'' @ requestClientIP r) (pe_now env) = ((False, retryAfter), l)"
  shows "\<exists>reply. fst (public_ServeHTTP uni message baseDomain registry env w r limiter) = (Returned (Replied reply), [])
    \<and> rep_Status reply = 429
    \<and> header_Values (rep_Header reply) ''Retry-After'' = [show_int (max 1 (retryAfter div Second))]"
proof -
  let ?e = "http_Error (header_Set ''Retry-After'' (retry_after_seconds retryAfter) w) ''public request rate limit exceeded'' 429"
  have "fst (public_ServeHTTP uni message baseDomain registry env w r limiter) = (Returned ?e, [])"
    using assms by (simp add: public_ServeHTTP_def)
  moreover obtain reply where "?e = Replied reply" "rep_Status reply = 429"
    by (fastforce simp: http_Error_def WriteHeader_def)
  ultimately show ?thesis
    using retry_after_kept [of "retry_after_seconds retryAfter" w _ 429 reply] by (auto simp: retry_after_seconds_def)
qed

lemma public_unavailable_reply:
  assumes "admitted uni baseDomain registry env r limiter tunnel"
  shows "pe_random env = None \<Longrightarrow> fst (public_ServeHTTP uni message baseDomain registry env w r limiter)
      = (Returned (http_Error w ''request ID generation failed'' 500), [])"
    and "pe_random env = Some b \<Longrightarrow> pe_sends env = False # sends \<Longrightarrow>
      \<exists>actions. fst (public_ServeHTTP uni message baseDomain registry env w r limiter)
        = (Returned (http_Error w ''tunnel agent is unavailable'' 502), actions) \<and> accepted_messages actions = []"
proof -
  show "pe_random env = None \<Longrightarrow> fst (public_ServeHTTP uni message baseDomain registry env w r limiter)
      = (Returned (http_Error w ''request ID generation failed'' 500), [])"
    using assms by (auto simp: admitted_def public_ServeHTTP_def publicRequestID_def split: prod.splits bool.splits)
  show "pe_random env = Some b \<Longrightarrow> pe_sends env = False # sends \<Longrightarrow>
      \<exists>actions. fst (public_ServeHTTP uni message baseDomain registry env w r limiter)
        = (Returned (http_Error w ''tunnel agent is unavailable'' 502), actions) \<and> accepted_messages actions = []"
    using public_ServeHTTP_admitted [OF assms, of b] by (auto simp: forward_def send_message_def act_def Let_def)
qed

text \<open>A request that was forwarded completely, with an agent that kept accepting messages.\<close>

definition uploaded :: "public_env \<Rightarrow> byte list \<Rightarrow> bool" where
  "uploaded env b \<longleftrightarrow> pe_random env = Some b \<and> length b = 12 \<and> whole_body (pe_reads env)
     \<and> length (body_of (pe_reads env)) \<le> 32 * 2 ^ 20 \<and> small_body (pe_reads env) \<and> pe_sends env = []"

lemma public_failed_reply:
  assumes "admitted uni baseDomain registry env r limiter tunnel" "uploaded env b"
  shows "pe_wait env = Some (GotResponse response) \<Longrightarrow> res_Error response \<noteq> [] \<Longrightarrow>
      \<exists>actions. fst (public_ServeHTTP uni message baseDomain registry env w r limiter)
        = (Returned (http_Error w (res_Error response) 502), actions) \<and> \<not> list_ex records actions"
    and "pe_wait env = Some RequestDone \<or> pe_wait env = Some TimedOut \<Longrightarrow>
      \<exists>actions. fst (public_ServeHTTP uni message baseDomain registry env w r limiter)
        = (Returned (http_Error w ''tunnel response timed out'' 504), actions)
        \<and> Act_TrySend (at_SessionID tunnel) (cancel_message (''req_'' @ hex_EncodeToString b)) \<in> set actions"
proof -
  have body: "send_end (MaxBytesReader maxTunnelBodyBytes (pe_reads env)) = Returned None"
    "chunks_of (MaxBytesReader maxTunnelBodyBytes (pe_reads env)) = chunks_of (pe_reads env)"
    using send_end_whole [of "pe_reads env" maxTunnelBodyBytes] assms(2)
    by (simp_all add: maxTunnelBodyBytes_def uploaded_def)
  have none: "\<not> list_ex records (map (\<lambda>m. Act_Send sid m True) ms)" for sid ms
    by (induction ms) auto
  have random: "pe_random env = Some b"
    using assms(2) by (simp add: uploaded_def)
  note run = public_ServeHTTP_admitted [OF assms(1) random, of message w]
    forward_open [of "''req_'' @ hex_EncodeToString b" env, where uni = uni and message = message
      and tunnel = tunnel and r = r and w = w]
  show "pe_wait env = Some (GotResponse response) \<Longrightarrow> res_Error response \<noteq> [] \<Longrightarrow>
      \<exists>actions. fst (public_ServeHTTP uni message baseDomain registry env w r limiter)
        = (Returned (http_Error w (res_Error response) 502), actions) \<and> \<not> list_ex records actions"
    and "pe_wait env = Some RequestDone \<or> pe_wait env = Some TimedOut \<Longrightarrow>
      \<exists>actions. fst (public_ServeHTTP uni message baseDomain registry env w r limiter)
        = (Returned (http_Error w ''tunnel response timed out'' 504), actions)
        \<and> Act_TrySend (at_SessionID tunnel) (cancel_message (''req_'' @ hex_EncodeToString b)) \<in> set actions"
    using assms(2) body none run request_id_ok [of b] by (auto simp: Let_def sendCancel_def act_def uploaded_def)
qed



end
