(* ===== verification/End_To_End.thy ===== *)
theory End_To_End
  imports Agent_Client Agent_Connect Public_Handler
begin

text \<open>
  What each program makes of the messages the other one sends: the decoders of one end
  applied to the whole message sequences of the other. These lemmas carry the properties that
  span both programs.
\<close>

definition wire :: "OutboundMessage \<Rightarrow> MessageType \<times> byte list" where
  "wire m = (om_Type m, om_Data m)"

section \<open>A request on its way to the agent\<close>

definition upload_sequence :: "HTTPRequestPayload \<Rightarrow> byte list list \<Rightarrow> OutboundMessage list" where
  "upload_sequence p cs =
     request_start_message p # upload_messages (hrq_RequestID p) 0 cs @ [request_end_message (hrq_RequestID p)]"

lemma chunk_types: "RequestBodyChunk = requestBodyChunk" "ResponseBodyChunk = responseBodyChunk"
  by (simp_all add: frame_consts)

lemma upload_chunks_decoded:
  assumes "i \<noteq> []" "length i < 65536" "\<forall>c \<in> set cs. length c \<le> requestBodyChunkSize"
  shows "map (agent_decode \<circ> wire) (upload_messages i n cs) = map (Inr \<circ> A_Chunk) (number_chunks requestBodyChunk i n cs)"
  using assms(3)
proof (induction cs arbitrary: n)
  case (Cons c cs)
  let ?f = "\<lparr>frame_Type = RequestBodyChunk, frame_RequestID = i, frame_Sequence = n, frame_Payload = c\<rparr>"
  have "MarshalBinary ?f = Inr (frame_bytes ?f)"
    using assms(1,2) Cons.prems by (simp add: MarshalBinary_iff frame_ok_def frame_consts requestBodyChunkSize_def)
  from agent_decode_chunk [OF this] Cons show ?case
    by (simp add: wire_def chunk_types)
qed simp

lemma upload_decoded:
  assumes "utf8_request p" "hrq_RequestID p \<noteq> []" "length (hrq_RequestID p) < 65536"
    and "\<forall>c \<in> set cs. length c \<le> requestBodyChunkSize"
  shows "map agent_decode (map wire (upload_sequence p cs)) =
    map Inr (A_Start (agent_request p) # map A_Chunk (number_chunks requestBodyChunk (hrq_RequestID p) 0 cs)
      @ [A_End (hrq_RequestID p)])"
proof -
  have "agent_decode (wire (request_start_message p)) = Inr (A_Start (agent_request p))"
    using agent_decode_start [OF assms(1)] by (simp add: wire_def request_start_message_def)
  moreover have "agent_decode (wire (request_end_message (hrq_RequestID p))) = Inr (A_End (hrq_RequestID p))"
    using agent_decode_end assms(1) by (simp add: wire_def request_end_message_def utf8_request_def)
  ultimately show ?thesis
    using upload_chunks_decoded [OF assms(2-4), of 0] by (simp add: upload_sequence_def)
qed

text \<open>The request the agent starts for an upload.\<close>

definition started_request :: "HTTPRequestPayload \<Rightarrow> byte list \<Rightarrow> agent_Request" where
  "started_request p body =
     \<lparr>rq_ID = hrq_RequestID p, rq_Method = hrq_Method p, rq_Path = hrq_Path p,
      rq_Headers = nil_header (map_option (sort_key fst) (hrq_Headers p)), rq_Body = body\<rparr>"

lemma upload_received:
  assumes "utf8_request p" "hrq_RequestID p \<noteq> []" "length (hrq_RequestID p) < 65536"
    and "\<forall>c \<in> set cs. length c \<le> requestBodyChunkSize"
    and "hrq_ContentLength p = -1 \<or> hrq_ContentLength p = int (length (concat cs))"
    and "hrq_ContentLength p \<le> maxAlloc" "0 \<le> maxAlloc"
  shows "run_eff (agent_kstep maxAlloc) None (map wire (upload_sequence p cs))
    = Some (None, [StartJob (started_request p (concat cs))])"
  using agent_receives_request [OF upload_decoded [OF assms(1-4)]] assms(2,5-7)
  by (simp add: agent_request_def started_request_def)

section \<open>A response on its way back\<close>

definition download_sequence :: "httpResponsePayload \<Rightarrow> byte list list \<Rightarrow> OutboundMessage list" where
  "download_sequence p cs =
     response_start_message p # chunk_messages (ars_RequestID p) 0 cs @ [response_end_message (ars_RequestID p)]"

lemma download_chunks_decoded:
  assumes "i \<noteq> []" "length i < 65536" "\<forall>c \<in> set cs. length c \<le> maxBinaryFramePayload"
  shows "map (gateway_decode \<circ> wire) (chunk_messages i n cs) = map (Inr \<circ> G_Chunk) (number_chunks ResponseBodyChunk i n cs)"
  using assms(3)
proof (induction cs arbitrary: n)
  case (Cons c cs)
  have "marshalBinary (response_chunk i n c) = Inr (chunk_bytes i n c)"
    using assms(1,2) Cons.prems
    by (simp add: marshalBinary_def response_chunk_def chunk_bytes_def frame_bytes_def responseBodyChunk_def
        maxBinaryFramePayload_def binaryFrameVersion_def)
  from gateway_decode_chunk [OF this] Cons show ?case
    by (simp add: wire_def response_chunk_def chunk_types)
qed simp

lemma download_decoded:
  assumes "utf8_response p" "ars_RequestID p \<noteq> []" "length (ars_RequestID p) < 65536"
    and "\<forall>c \<in> set cs. length c \<le> maxBinaryFramePayload"
  shows "map gateway_decode (map wire (download_sequence p cs)) =
    map Inr (G_Start (gateway_response p) # map G_Chunk (number_chunks ResponseBodyChunk (ars_RequestID p) 0 cs)
      @ [G_End (ars_RequestID p)])"
proof -
  have "gateway_decode (wire (response_start_message p)) = Inr (G_Start (gateway_response p))"
    using gateway_decode_start [OF assms(1)] by (simp add: wire_def response_start_message_def)
  moreover have "gateway_decode (wire (response_end_message (ars_RequestID p))) = Inr (G_End (ars_RequestID p))"
    using gateway_decode_end assms(1) by (simp add: wire_def response_end_message_def utf8_response_def)
  ultimately show ?thesis
    using download_chunks_decoded [OF assms(2-4), of 0] by (simp add: download_sequence_def)
qed

text \<open>The response the gateway delivers for a download.\<close>

definition delivered_response :: "httpResponsePayload \<Rightarrow> byte list \<Rightarrow> Response" where
  "delivered_response p body =
     \<lparr>res_StatusCode = ars_StatusCode p, res_Headers = nil_header (map_option (sort_key fst) (ars_Headers p)),
      res_Body = body, res_Error = ars_Error p\<rparr>"

lemma download_received:
  assumes "utf8_response p" "ars_RequestID p \<noteq> []" "length (ars_RequestID p) < 65536"
    and "\<forall>c \<in> set cs. length c \<le> maxBinaryFramePayload"
    and "ars_ContentLength p = -1 \<or> ars_ContentLength p = int (length (concat cs))"
    and "int (length (concat cs)) \<le> maxTunnelResponseBodyBytes"
  shows "run_eff gateway_kstep v (map wire (download_sequence p cs))
    = Some (None, [Deliver (ars_RequestID p) (delivered_response p (concat cs))])"
  using gateway_receives_response [OF download_decoded [OF assms(1-4)], of v] assms(2,5,6)
  by (simp add: gateway_response_def delivered_response_def)

section \<open>Heartbeats and the handshake\<close>

lemma agent_decode_ping: "agent_decode (MessageText, ping_message) = Inr A_Ping"
  unfolding ping_message_def agent_decode_text [OF agent_reads_ping] by (simp add: Ping_def)

lemma gateway_reads_pong:
  "Unmarshal raw_struct (Marshal (envelope_json ''pong'' None)) ([], None) = Some (Pong, None)"
proof -
  have ok: "json_ok maxNestingDepth (envelope_json ''pong'' None)"
    by (simp add: envelope_json_def maxNestingDepth_def json_ok.simps)
  have "utf8_valid ''pong''"
    by (simp add: utf8_valid_ascii is_ascii_def)
  then show ?thesis
    unfolding Unmarshal_Marshal [OF ok]
    by (simp add: envelope_json_def decode_struct_def raw_struct_def find_field_def utf8_valid_def Pong_def)
qed

lemma gateway_decode_pong:
  "gateway_decode (MessageText, Marshal (envelope_json ''pong'' None)) = Inr G_Pong"
  by (simp add: gateway_decode_def gateway_reads_pong gateway_types)

lemma gateway_decode_open:
  assumes "utf8_valid i" "utf8_valid a"
  shows "gateway_decode (MessageText, Marshal (envelope_json openTunnelType (Some (openTunnelPayload_json
      \<lparr>aot_RequestID = i, aot_LocalAddress = a\<rparr>)))) = Inr (G_Open \<lparr>otp_RequestID = i, otp_LocalAddress = a\<rparr>)"
  using gateway_reads_open_tunnel [of "\<lparr>aot_RequestID = i, aot_LocalAddress = a\<rparr>"] assms
  by (simp add: gateway_decode_def Unmarshal_raw_def gateway_types)

section \<open>Whole runs\<close>

lemma chunk_sizes: "small_body reads \<Longrightarrow> c \<in> set (chunks_of reads) \<Longrightarrow> length c \<le> requestBodyChunkSize"
  by (auto simp: small_body_def chunks_of_def list_all_iff)

text \<open>The messages a handler gets accepted for a request it uploads completely.\<close>

lemma uploaded_messages:
  assumes "admitted uni baseDomain registry env r limiter tunnel" "uploaded env b"
    and "fst (public_ServeHTTP uni message baseDomain registry env w r limiter) = (result, actions)"
  shows "accepted_messages actions =
    upload_sequence (request_payload uni r (''req_'' @ hex_EncodeToString b)) (chunks_of (pe_reads env))"
proof -
  have body: "send_end (MaxBytesReader maxTunnelBodyBytes (pe_reads env)) = Returned None"
    "chunks_of (MaxBytesReader maxTunnelBodyBytes (pe_reads env)) = chunks_of (pe_reads env)"
    using send_end_whole [of "pe_reads env" maxTunnelBodyBytes] assms(2)
    by (simp_all add: maxTunnelBodyBytes_def uploaded_def)
  have random: "pe_random env = Some b"
    using assms(2) by (simp add: uploaded_def)
  have tail: "accepted_messages (hr_actions (snd (answer tunnel i r w out \<lparr>hr_actions = as, hr_sends = []\<rparr>)))
      = accepted_messages as" for i out as
    by (cases out) (auto simp: act_def sendCancel_def)
  show ?thesis
    using assms(2,3) body request_id_ok [of b]
    unfolding public_ServeHTTP_admitted [OF assms(1) random]
    by (cases "pe_wait env")
      (auto simp: forward_open uploaded_def Let_def upload_sequence_def request_payload_def tail case_prod_unfold)
qed

lemma run_own_keys:
  assumes "map dec ms = map Inr evs" "\<And>ev. ev \<in> set evs \<Longrightarrow> k ev = Some i" "m \<in> set ms"
  shows "\<exists>ev. dec m = Inr ev \<and> k ev = Some i"
proof -
  have "dec m \<in> Inr ` set evs"
    using assms(1,3) by (metis image_eqI set_map)
  with assms(2) show ?thesis by auto
qed

lemma number_chunks_key: "f \<in> set (number_chunks ty i n cs) \<Longrightarrow> frame_RequestID f = i"
  by (induction cs arbitrary: n) auto

lemma upload_keys:
  assumes "utf8_request p" "hrq_RequestID p \<noteq> []" "length (hrq_RequestID p) < 65536"
    and "\<forall>c \<in> set cs. length c \<le> requestBodyChunkSize" "m \<in> set (map wire (upload_sequence p cs))"
  shows "agent_key m = Some (hrq_RequestID p)"
  using run_own_keys [OF upload_decoded [OF assms(1-4)] _ assms(5), of event_key "hrq_RequestID p"]
  by (fastforce simp: agent_key_def agent_request_def dest: number_chunks_key)

lemma download_keys:
  assumes "utf8_response p" "ars_RequestID p \<noteq> []" "length (ars_RequestID p) < 65536"
    and "\<forall>c \<in> set cs. length c \<le> maxBinaryFramePayload" "m \<in> set (map wire (download_sequence p cs))"
  shows "gateway_key m = Some (ars_RequestID p)"
  using run_own_keys [OF download_decoded [OF assms(1-4)] _ assms(5), of gateway_event_key "ars_RequestID p"]
  by (fastforce simp: gateway_key_def gateway_response_def dest: number_chunks_key)

text \<open>One request alone on a fresh session is always received.\<close>

lemma upload_alone:
  assumes "utf8_request p" "hrq_RequestID p \<noteq> []" "length (hrq_RequestID p) < 65536"
    and "\<forall>c \<in> set cs. length c \<le> requestBodyChunkSize"
    and "hrq_ContentLength p = -1 \<or> hrq_ContentLength p = int (length (concat cs))"
    and "hrq_ContentLength p \<le> maxAlloc" "0 \<le> maxAlloc"
  shows "run_eff (agent_step maxAlloc) [] (map wire (upload_sequence p cs)) \<noteq> None"
proof (rule agent_loop.run_enabled)
  let ?ms = "map wire (upload_sequence p cs)"
  note keys = upload_keys [OF assms(1-4)]
  show "pending_inv []" "map_of [] k = None" for k :: string
    by (simp_all add: pending_inv_def)
  show "agent_key m \<noteq> None" if "m \<in> set ?ms" for m
    using keys [OF that] by simp
  show "run_eff (agent_kstep maxAlloc) None (filter (\<lambda>m. agent_key m = Some k) ?ms) \<noteq> None" for k
  proof (cases "k = hrq_RequestID p")
    case True
    then have "filter (\<lambda>m. agent_key m = Some k) ?ms = ?ms"
      using keys by (auto simp: filter_id_conv simp del: set_map)
    with upload_received [OF assms] show ?thesis by simp
  next
    case False
    then have "filter (\<lambda>m. agent_key m = Some k) ?ms = []"
      using keys by (auto simp: filter_empty_conv simp del: set_map)
    then show ?thesis by simp
  qed
  fix ps m qs
  assume "?ms = ps @ m # qs"
  then have "m \<in> set ps \<Longrightarrow> m \<in> set ?ms" for m
    by simp
  then have "agent_loop.opened_after maxAlloc ps \<subseteq> {hrq_RequestID p}"
  proof -
    have "filter (\<lambda>m. agent_key m = Some k) ps = []" if "k \<noteq> hrq_RequestID p" for k
      using that keys \<open>\<And>m. m \<in> set ps \<Longrightarrow> m \<in> set ?ms\<close> by (auto simp: filter_empty_conv simp del: set_map)
    then show ?thesis
      by (fastforce simp: agent_loop.opened_after_def)
  qed
  then have "card (agent_loop.opened_after maxAlloc ps) \<le> 1"
    using card_mono [of "{hrq_RequestID p}" "agent_loop.opened_after maxAlloc ps"] by simp
  then show "card (agent_loop.opened_after maxAlloc ps) < maxPendingRequestStreams"
    by (simp add: maxPendingRequestStreams_def)
qed

lemma whole_reads:
  assumes "whole_body reads"
  shows "reads_end reads = Returned None" "reads_taken reads = reads"
  using assms
proof (induction reads)
  case (Cons r reads)
  obtain d e where r: "r = (d, e)" by (cases r)
  {
    case 1
    with Cons r show ?case by (cases e) auto
  next
    case 2
    with Cons r show ?case by (cases e) auto
  }
qed simp_all

end
