(* ===== verification/Store.thy ===== *)
theory Store
  imports Go_Strings
begin

text \<open>
  The PostgreSQL database of the backend: one record per table of
  \<^verbatim>\<open>backend/migrations/*.up.sql\<close>, and the building blocks of the statements the services
  issue. A statement is a function of \<open>NOW()\<close>, of the value of \<open>gen_random_uuid()\<close> and of the
  tables; it is refused, changing nothing, where a constraint of the schema would be violated.

  PostgreSQL is not part of the sources. How it reads a UUID, an INET and a VARCHAR(n), and the
  text of its errors, are the fields of a record \<open>postgres\<close> that every statement takes; its
  statements are serialised. What happens around a statement is its \<open>step_env\<close>: what the
  statements of other calls did to the tables since the last statement of this call, the time,
  and whether the connection holds. A broken connection may have lost the statement
  (\<open>Db_Fail\<close>) or only its result (\<open>Db_Lost\<close>).
\<close>

section \<open>Tables\<close>

record user_row =
  u_id :: string
  u_email :: string
  u_password_hash :: string
  u_status :: string
  u_created_at :: int
  u_updated_at :: int
  u_last_login_at :: "int option"

record refresh_row =
  rt_id :: string
  rt_user_id :: string
  rt_token_hash :: string
  rt_expires_at :: int
  rt_revoked_at :: "int option"
  rt_created_at :: int
  rt_user_agent :: string
  rt_ip_address :: "string option"

record agent_token_row =
  tk_id :: string
  tk_user_id :: string
  tk_name :: string
  tk_prefix :: string
  tk_hash :: string
  tk_created_at :: int
  tk_last_used_at :: "int option"
  tk_expires_at :: "int option"
  tk_revoked_at :: "int option"

record agent_row =
  ag_id :: string
  ag_user_id :: string
  ag_token_id :: string
  ag_instance_id :: string
  ag_hostname :: string
  ag_os :: string
  ag_arch :: string
  ag_version :: string
  ag_connected :: bool
  ag_connected_at :: "int option"
  ag_disconnected_at :: "int option"
  ag_last_seen_at :: "int option"
  ag_created_at :: int
  ag_updated_at :: int

record tunnel_row =
  tn_id :: string
  tn_user_id :: string
  tn_agent_id :: string
  tn_subdomain :: string
  tn_local_address :: string
  tn_protocol :: string
  tn_status :: string
  tn_opened_at :: "int option"
  tn_closed_at :: "int option"
  tn_created_at :: int
  tn_updated_at :: int

record traffic_row =
  tr_user_id :: string
  tr_requests_total :: int
  tr_request_bytes :: int
  tr_response_bytes :: int
  tr_updated_at :: int

record database =
  db_users :: "user_row list"
  db_refresh_tokens :: "refresh_row list"
  db_agent_tokens :: "agent_token_row list"
  db_agents :: "agent_row list"
  db_tunnels :: "tunnel_row list"
  db_traffic :: "traffic_row list"

definition empty_database :: database where
  "empty_database = \<lparr>db_users = [], db_refresh_tokens = [], db_agent_tokens = [], db_agents = [],
     db_tunnels = [], db_traffic = []\<rparr>"

section \<open>Statements\<close>

record postgres =
  pg_uuid :: "string \<Rightarrow> string option"
  pg_inet :: "string \<Rightarrow> string option"
  pg_varchar :: "nat \<Rightarrow> string \<Rightarrow> string option"
  pg_text :: "string \<Rightarrow> string option"
  pg_refusal :: string

datatype db_error = NoRows | UniqueViolation string | Refused | ConnectionError string

definition db_message :: "postgres \<Rightarrow> db_error \<Rightarrow> string" where
  "db_message pg e =
     (case e of
        NoRows \<Rightarrow> ''no rows in result set''
      | UniqueViolation name \<Rightarrow>
          ''ERROR: duplicate key value violates unique constraint '' @ [CHR 0x22] @ name @ [CHR 0x22] @ '' (SQLSTATE 23505)''
      | Refused \<Rightarrow> pg_refusal pg
      | ConnectionError m \<Rightarrow> m)"

type_synonym 'r statement = "int \<Rightarrow> string \<Rightarrow> database \<Rightarrow> db_error + 'r \<times> database"

datatype db_run = Db_Ok | Db_Fail string | Db_Lost string

record step_env =
  se_others :: "database \<Rightarrow> database"
  se_now :: int
  se_uuid :: string
  se_run :: db_run

definition exec :: "step_env \<Rightarrow> 'r statement \<Rightarrow> database \<Rightarrow> (db_error + 'r) \<times> database" where
  "exec env st db =
     (let db = se_others env db in
      case se_run env of
        Db_Fail m \<Rightarrow> (Inl (ConnectionError m), db)
      | Db_Ok \<Rightarrow> (case st (se_now env) (se_uuid env) db of Inl e \<Rightarrow> (Inl e, db) | Inr (r, db') \<Rightarrow> (Inr r, db'))
      | Db_Lost m \<Rightarrow> (case st (se_now env) (se_uuid env) db of
                        Inl e \<Rightarrow> (Inl (ConnectionError m), db)
                      | Inr (r, db') \<Rightarrow> (Inl (ConnectionError m), db')))"

text \<open>A service call numbers its statements from 0.\<close>

type_synonym call_env = "nat \<Rightarrow> step_env"

definition later :: "nat \<Rightarrow> call_env \<Rightarrow> call_env" where
  "later n env = (\<lambda>i. env (n + i))"

text \<open>An environment without other calls and without failures.\<close>

definition quiet :: "step_env \<Rightarrow> bool" where
  "quiet env \<longleftrightarrow> se_run env = Db_Ok \<and> se_others env = id"

section \<open>Rows\<close>

text \<open>\<open>INSERT\<close> with the unique constraints of the table, and \<open>UPDATE ... WHERE\<close>.\<close>

definition insert_row ::
    "(string \<times> ('row \<Rightarrow> 'row \<Rightarrow> bool)) list \<Rightarrow> 'row \<Rightarrow> 'row list \<Rightarrow> db_error + 'row list" where
  "insert_row constraints row rows =
     (case find (\<lambda>(_, clash). list_ex (clash row) rows) constraints of
        Some (name, _) \<Rightarrow> Inl (UniqueViolation name)
      | None \<Rightarrow> Inr (rows @ [row]))"

definition same :: "('row \<Rightarrow> 'k) \<Rightarrow> 'row \<Rightarrow> 'row \<Rightarrow> bool" where
  "same key a b \<longleftrightarrow> key a = key b"

definition update_rows :: "('row \<Rightarrow> bool) \<Rightarrow> ('row \<Rightarrow> 'row) \<Rightarrow> 'row list \<Rightarrow> 'row list" where
  "update_rows P f rows = map (\<lambda>r. if P r then f r else r) rows"

text \<open>A time as a \<open>TIMESTAMPTZ\<close> column keeps it: to the microsecond.\<close>

definition pg_time :: "int \<Rightarrow> int" where
  "pg_time t = t div 1000 * 1000"

lemma insert_row_Inr:
  "insert_row cs row rows = Inr rows' \<longleftrightarrow>
     rows' = rows @ [row] \<and> (\<forall>(n, clash) \<in> set cs. \<forall>r \<in> set rows. \<not> clash row r)"
proof (cases "find (\<lambda>(_, clash). list_ex (clash row) rows) cs")
  case None
  then have "\<forall>(n, clash) \<in> set cs. \<forall>r \<in> set rows. \<not> clash row r"
    by (auto simp: find_None_iff list_ex_iff)
  with None show ?thesis
    by (auto simp: insert_row_def)
next
  case (Some c)
  with find_holds [OF Some] show ?thesis
    by (cases c) (force simp: insert_row_def list_ex_iff)
qed

lemma insert_row_distinct:
  assumes "insert_row cs row rows = Inr rows'" "(n, same key) \<in> set cs" "distinct (map key rows)"
  shows "distinct (map key rows')"
  using assms by (force simp: insert_row_Inr same_def)

lemma map_update_rows: "(\<And>r. key (f r) = key r) \<Longrightarrow> map key (update_rows P f rows) = map key rows"
  by (simp add: update_rows_def)

lemma set_update_rows: "set (update_rows P f rows) = (\<lambda>r. if P r then f r else r) ` set rows"
  by (simp add: update_rows_def)

lemma filter_update_rows:
  assumes "\<And>r. Q (f r) = Q r"
  shows "filter Q (update_rows P f rows) = update_rows P f (filter Q rows)"
  using assms by (induction rows) (auto simp: update_rows_def)

lemma update_rows_none: "(\<And>r. r \<in> set rows \<Longrightarrow> \<not> P r) \<Longrightarrow> update_rows P f rows = rows"
  by (simp add: update_rows_def map_idI)

lemma exec_quiet:
  "quiet env \<Longrightarrow> exec env st db =
     (case st (se_now env) (se_uuid env) db of Inl e \<Rightarrow> (Inl e, db) | Inr (r, db') \<Rightarrow> (Inr r, db'))"
  by (simp add: exec_def quiet_def)

text \<open>
  What holds of the tables before a statement, whatever the others do, and is kept by the
  statement, holds after it.
\<close>

lemma exec_keeps:
  assumes "I db" "\<And>db. I db \<Longrightarrow> I (se_others env db)"
    and "\<And>db r db'. I db \<Longrightarrow> st (se_now env) (se_uuid env) db = Inr (r, db') \<Longrightarrow> I db'"
    and "exec env st db = (res, db')"
  shows "I db'"
proof -
  have "I (se_others env db)" using assms(1,2) by blast
  with assms(3,4) show ?thesis
    by (auto simp: exec_def Let_def split: db_run.splits sum.splits prod.splits)
qed

lemma exec_Inr:
  "exec env st db = (Inr r, db') \<longleftrightarrow> se_run env = Db_Ok
     \<and> st (se_now env) (se_uuid env) (se_others env db) = Inr (r, db')"
  by (auto simp: exec_def Let_def split: db_run.splits sum.splits prod.splits)

section \<open>Well-formed tables\<close>

text \<open>
  The constraints of the schema, and what the statements keep beyond them: an agent belongs to
  the user of its token and a tunnel to the user of its agent, an open tunnel has an opening
  and no closing time, a connected agent has a connection time and no disconnection time.
\<close>

definition users_ok :: "user_row list \<Rightarrow> bool" where
  "users_ok us \<longleftrightarrow> distinct (map u_id us) \<and> distinct (map u_email us)
     \<and> list_all (\<lambda>u. u_status u \<in> {''active'', ''disabled'', ''deleted''}) us"

definition refresh_ok :: "user_row list \<Rightarrow> refresh_row list \<Rightarrow> bool" where
  "refresh_ok us rs \<longleftrightarrow> distinct (map rt_id rs) \<and> distinct (map rt_token_hash rs)
     \<and> list_all (\<lambda>r. rt_user_id r \<in> u_id ` set us) rs"

definition agent_tokens_ok :: "user_row list \<Rightarrow> agent_token_row list \<Rightarrow> bool" where
  "agent_tokens_ok us ts \<longleftrightarrow> distinct (map tk_id ts) \<and> distinct (map tk_hash ts)
     \<and> list_all (\<lambda>t. tk_user_id t \<in> u_id ` set us) ts"

definition agents_ok :: "agent_token_row list \<Rightarrow> agent_row list \<Rightarrow> bool" where
  "agents_ok ts as \<longleftrightarrow> distinct (map ag_id as) \<and> distinct (map (\<lambda>a. (ag_user_id a, ag_instance_id a)) as)
     \<and> list_all (\<lambda>a. (ag_token_id a, ag_user_id a) \<in> (\<lambda>t. (tk_id t, tk_user_id t)) ` set ts
         \<and> (ag_connected a \<longrightarrow> ag_connected_at a \<noteq> None \<and> ag_disconnected_at a = None)) as"

definition tunnels_ok :: "agent_row list \<Rightarrow> tunnel_row list \<Rightarrow> bool" where
  "tunnels_ok as ts \<longleftrightarrow> distinct (map tn_id ts) \<and> distinct (map tn_subdomain ts)
     \<and> list_all (\<lambda>t. (tn_agent_id t, tn_user_id t) \<in> (\<lambda>a. (ag_id a, ag_user_id a)) ` set as
         \<and> tn_status t \<in> {''open'', ''closed''}
         \<and> (tn_status t = ''open'' \<longrightarrow> tn_opened_at t \<noteq> None \<and> tn_closed_at t = None)) ts"

definition maxBigint :: int where "maxBigint = 9223372036854775807"

definition traffic_ok :: "user_row list \<Rightarrow> traffic_row list \<Rightarrow> bool" where
  "traffic_ok us ts \<longleftrightarrow> distinct (map tr_user_id ts)
     \<and> list_all (\<lambda>t. tr_user_id t \<in> u_id ` set us
         \<and> tr_requests_total t \<in> {0..maxBigint} \<and> tr_request_bytes t \<in> {0..maxBigint}
         \<and> tr_response_bytes t \<in> {0..maxBigint}) ts"

definition db_ok :: "database \<Rightarrow> bool" where
  "db_ok db \<longleftrightarrow> users_ok (db_users db) \<and> refresh_ok (db_users db) (db_refresh_tokens db)
     \<and> agent_tokens_ok (db_users db) (db_agent_tokens db)
     \<and> agents_ok (db_agent_tokens db) (db_agents db)
     \<and> tunnels_ok (db_agents db) (db_tunnels db) \<and> traffic_ok (db_users db) (db_traffic db)"

lemmas table_ok_defs = users_ok_def refresh_ok_def agent_tokens_ok_def agents_ok_def tunnels_ok_def traffic_ok_def

lemma empty_database_ok: "db_ok empty_database"
  by (simp add: empty_database_def db_ok_def table_ok_defs)

text \<open>Growing a table that others refer to keeps the references.\<close>

lemma references_mono:
  "refresh_ok us rs \<Longrightarrow> u_id ` set us \<subseteq> u_id ` set us' \<Longrightarrow> refresh_ok us' rs"
  "agent_tokens_ok us ts \<Longrightarrow> u_id ` set us \<subseteq> u_id ` set us' \<Longrightarrow> agent_tokens_ok us' ts"
  "traffic_ok us tr \<Longrightarrow> u_id ` set us \<subseteq> u_id ` set us' \<Longrightarrow> traffic_ok us' tr"
  by (auto simp: table_ok_defs list_all_iff)

lemma agents_references_mono:
  assumes "agents_ok ts as" "(\<lambda>t. (tk_id t, tk_user_id t)) ` set ts \<subseteq> (\<lambda>t. (tk_id t, tk_user_id t)) ` set ts'"
  shows "agents_ok ts' as"
  using assms unfolding agents_ok_def list_all_iff by blast

lemma tunnels_references_mono:
  assumes "tunnels_ok as ts" "(\<lambda>a. (ag_id a, ag_user_id a)) ` set as \<subseteq> (\<lambda>a. (ag_id a, ag_user_id a)) ` set as'"
  shows "tunnels_ok as' ts"
  using assms unfolding tunnels_ok_def list_all_iff by blast

end
