(* ===== verification/Statements.thy ===== *)
theory Statements
  imports Store
begin

text \<open>
  The SQL statements of the services, one definition for each, on the tables of \<open>Store\<close>. The
  relation \<open>db_step\<close> is one of the statements that change something, with any arguments; every
  service call is a path of \<open>db_steps\<close>, interleaved with those of other calls, and what all
  statements keep (\<open>db_ok\<close>, the users, the tokens and who owns them, that a revoked token stays
  revoked) is proved here once for all services.
\<close>

section \<open>Arguments\<close>

definition with_uuid :: "postgres \<Rightarrow> string \<Rightarrow> (string \<Rightarrow> db_error + 'r) \<Rightarrow> db_error + 'r" where
  "with_uuid pg s f = (case pg_uuid pg s of None \<Rightarrow> Inl Refused | Some i \<Rightarrow> f i)"

definition with_text :: "postgres \<Rightarrow> string \<Rightarrow> (string \<Rightarrow> db_error + 'r) \<Rightarrow> db_error + 'r" where
  "with_text pg s f = (case pg_text pg s of None \<Rightarrow> Inl Refused | Some t \<Rightarrow> f t)"

definition with_varchar :: "postgres \<Rightarrow> nat \<Rightarrow> string \<Rightarrow> (string \<Rightarrow> db_error + 'r) \<Rightarrow> db_error + 'r" where
  "with_varchar pg n s f = (case pg_varchar pg n s of None \<Rightarrow> Inl Refused | Some t \<Rightarrow> f t)"

definition row_of :: "'row option \<Rightarrow> database \<Rightarrow> db_error + 'row \<times> database" where
  "row_of r db = (case r of None \<Rightarrow> Inl NoRows | Some r \<Rightarrow> Inr (r, db))"

definition stored :: "db_error + 'rows \<Rightarrow> ('rows \<Rightarrow> 'r \<times> database) \<Rightarrow> db_error + 'r \<times> database" where
  "stored res f = (case res of Inl e \<Rightarrow> Inl e | Inr rows \<Rightarrow> Inr (f rows))"

section \<open>Users and refresh tokens\<close>

definition insert_user :: "postgres \<Rightarrow> string \<Rightarrow> string \<Rightarrow> (string \<times> string) statement" where
  "insert_user pg email hash now uuid db =
     with_varchar pg 320 email (\<lambda>email. with_text pg hash (\<lambda>hash.
       stored (insert_row [(''users_pkey'', same u_id), (''users_email_key'', same u_email)]
           \<lparr>u_id = uuid, u_email = email, u_password_hash = hash, u_status = ''active'',
            u_created_at = now, u_updated_at = now, u_last_login_at = None\<rparr> (db_users db))
         (\<lambda>us. ((uuid, email), db\<lparr>db_users := us\<rparr>))))"

definition select_user_by_email :: "postgres \<Rightarrow> string \<Rightarrow> user_row statement" where
  "select_user_by_email pg email now uuid db =
     with_text pg email (\<lambda>email. row_of (find (\<lambda>u. u_email u = email) (db_users db)) db)"

definition update_login :: "postgres \<Rightarrow> string \<Rightarrow> unit statement" where
  "update_login pg userID now uuid db =
     with_uuid pg userID (\<lambda>i. Inr ((), db\<lparr>db_users :=
       update_rows (\<lambda>u. u_id u = i) (\<lambda>u. u\<lparr>u_last_login_at := Some now, u_updated_at := now\<rparr>) (db_users db)\<rparr>))"

definition refresh_live :: "string \<Rightarrow> int \<Rightarrow> refresh_row \<Rightarrow> bool" where
  "refresh_live hash now r \<longleftrightarrow> rt_token_hash r = hash \<and> rt_revoked_at r = None \<and> rt_expires_at r > now"

definition active_user :: "database \<Rightarrow> string \<Rightarrow> user_row option" where
  "active_user db i = find (\<lambda>u. u_id u = i \<and> u_status u = ''active'') (db_users db)"

definition select_refresh_user :: "postgres \<Rightarrow> string \<Rightarrow> user_row statement" where
  "select_refresh_user pg hash now uuid db =
     with_text pg hash (\<lambda>hash.
       row_of (case List.map_filter (\<lambda>r. active_user db (rt_user_id r)) (filter (refresh_live hash now) (db_refresh_tokens db)) of
                 [] \<Rightarrow> None | u # _ \<Rightarrow> Some u) db)"

definition revoke_used :: "postgres \<Rightarrow> string \<Rightarrow> unit statement" where
  "revoke_used pg hash now uuid db =
     with_text pg hash (\<lambda>hash. Inr ((), db\<lparr>db_refresh_tokens :=
       update_rows (\<lambda>r. rt_token_hash r = hash) (\<lambda>r. r\<lparr>rt_revoked_at := Some now\<rparr>) (db_refresh_tokens db)\<rparr>))"

definition revoke_refresh :: "postgres \<Rightarrow> string \<Rightarrow> unit statement" where
  "revoke_refresh pg hash now uuid db =
     with_text pg hash (\<lambda>hash. Inr ((), db\<lparr>db_refresh_tokens :=
       update_rows (\<lambda>r. rt_token_hash r = hash \<and> rt_revoked_at r = None) (\<lambda>r. r\<lparr>rt_revoked_at := Some now\<rparr>)
         (db_refresh_tokens db)\<rparr>))"

definition select_active_user :: "postgres \<Rightarrow> string \<Rightarrow> user_row statement" where
  "select_active_user pg userID now uuid db =
     with_uuid pg userID (\<lambda>i. row_of (active_user db i) db)"

definition nullif_inet :: "postgres \<Rightarrow> string \<Rightarrow> string option option" where
  "nullif_inet pg ip = (if ip = [] then Some None else map_option Some (pg_inet pg ip))"

definition insert_refresh ::
    "postgres \<Rightarrow> string \<Rightarrow> string \<Rightarrow> int \<Rightarrow> string \<Rightarrow> string \<Rightarrow> unit statement" where
  "insert_refresh pg userID hash expires userAgent ip now uuid db =
     with_uuid pg userID (\<lambda>i. with_text pg hash (\<lambda>hash. with_text pg userAgent (\<lambda>userAgent.
       case nullif_inet pg ip of
         None \<Rightarrow> Inl Refused
       | Some ip \<Rightarrow>
           if i \<notin> u_id ` set (db_users db) then Inl Refused
           else stored (insert_row [(''refresh_tokens_pkey'', same rt_id), (''refresh_tokens_token_hash_key'', same rt_token_hash)]
               \<lparr>rt_id = uuid, rt_user_id = i, rt_token_hash = hash, rt_expires_at = pg_time expires,
                rt_revoked_at = None, rt_created_at = now, rt_user_agent = userAgent, rt_ip_address = ip\<rparr>
               (db_refresh_tokens db))
             (\<lambda>rs. ((), db\<lparr>db_refresh_tokens := rs\<rparr>)))))"

section \<open>Agent tokens\<close>

definition insert_agent_token ::
    "postgres \<Rightarrow> string \<Rightarrow> string \<Rightarrow> string \<Rightarrow> string \<Rightarrow> agent_token_row statement" where
  "insert_agent_token pg userID name prefix hash now uuid db =
     with_uuid pg userID (\<lambda>i. with_varchar pg 128 name (\<lambda>name. with_varchar pg 32 prefix (\<lambda>prefix.
       with_text pg hash (\<lambda>hash.
         if i \<notin> u_id ` set (db_users db) then Inl Refused
         else
           let row = \<lparr>tk_id = uuid, tk_user_id = i, tk_name = name, tk_prefix = prefix, tk_hash = hash,
                      tk_created_at = now, tk_last_used_at = None, tk_expires_at = None, tk_revoked_at = None\<rparr>
           in stored (insert_row [(''agent_tokens_pkey'', same tk_id), (''agent_tokens_token_hash_key'', same tk_hash)]
                row (db_agent_tokens db)) (\<lambda>ts. (row, db\<lparr>db_agent_tokens := ts\<rparr>))))))"

definition select_agent_tokens :: "postgres \<Rightarrow> string \<Rightarrow> agent_token_row list statement" where
  "select_agent_tokens pg userID now uuid db =
     with_uuid pg userID (\<lambda>i.
       Inr (sort_key (\<lambda>t. - tk_created_at t) (filter (\<lambda>t. tk_user_id t = i) (db_agent_tokens db)), db))"

definition revoke_agent_token :: "postgres \<Rightarrow> string \<Rightarrow> string \<Rightarrow> string statement" where
  "revoke_agent_token pg tokenID userID now uuid db =
     with_uuid pg tokenID (\<lambda>i. with_uuid pg userID (\<lambda>u.
       let hit = (\<lambda>t. tk_id t = i \<and> tk_user_id t = u \<and> tk_revoked_at t = None)
       in case find hit (db_agent_tokens db) of
            None \<Rightarrow> Inl NoRows
          | Some t \<Rightarrow> Inr (tk_hash t, db\<lparr>db_agent_tokens :=
              update_rows hit (\<lambda>t. t\<lparr>tk_revoked_at := Some now\<rparr>) (db_agent_tokens db)\<rparr>)))"

definition token_live :: "string \<Rightarrow> int \<Rightarrow> agent_token_row \<Rightarrow> bool" where
  "token_live hash now t \<longleftrightarrow> tk_hash t = hash \<and> tk_revoked_at t = None
     \<and> (case tk_expires_at t of None \<Rightarrow> True | Some e \<Rightarrow> e > now)"

definition token_exists :: "postgres \<Rightarrow> string \<Rightarrow> bool statement" where
  "token_exists pg hash now uuid db =
     with_text pg hash (\<lambda>hash. Inr (list_ex (token_live hash now) (db_agent_tokens db), db))"

definition select_live_token :: "postgres \<Rightarrow> string \<Rightarrow> agent_token_row statement" where
  "select_live_token pg hash now uuid db =
     with_text pg hash (\<lambda>hash. row_of (find (token_live hash now) (db_agent_tokens db)) db)"

definition touch_agent_token :: "postgres \<Rightarrow> string \<Rightarrow> unit statement" where
  "touch_agent_token pg tokenID now uuid db =
     with_uuid pg tokenID (\<lambda>i. Inr ((), db\<lparr>db_agent_tokens :=
       update_rows (\<lambda>t. tk_id t = i) (\<lambda>t. t\<lparr>tk_last_used_at := Some now\<rparr>) (db_agent_tokens db)\<rparr>))"

section \<open>Agents\<close>

definition upsert_agent ::
    "postgres \<Rightarrow> string \<Rightarrow> string \<Rightarrow> string \<Rightarrow> string \<Rightarrow> string \<Rightarrow> string \<Rightarrow> string \<Rightarrow> string statement" where
  "upsert_agent pg userID tokenID instanceID hostname os arch version now uuid db =
     with_uuid pg userID (\<lambda>u. with_uuid pg tokenID (\<lambda>t.
       with_varchar pg 255 instanceID (\<lambda>instanceID. with_varchar pg 255 hostname (\<lambda>hostname.
       with_varchar pg 64 os (\<lambda>os. with_varchar pg 64 arch (\<lambda>arch. with_varchar pg 64 version (\<lambda>version.
         if u \<notin> u_id ` set (db_users db) \<or> t \<notin> tk_id ` set (db_agent_tokens db) then Inl Refused
         else
           let hit = (\<lambda>a. ag_user_id a = u \<and> ag_instance_id a = instanceID)
           in case find hit (db_agents db) of
                Some a \<Rightarrow> Inr (ag_id a, db\<lparr>db_agents := update_rows hit (\<lambda>a. a\<lparr>ag_token_id := t,
                    ag_hostname := hostname, ag_os := os, ag_arch := arch, ag_version := version,
                    ag_connected := True, ag_connected_at := Some now, ag_disconnected_at := None,
                    ag_last_seen_at := Some now, ag_updated_at := now\<rparr>) (db_agents db)\<rparr>)
              | None \<Rightarrow>
                  stored (insert_row [(''agents_pkey'', same ag_id)]
                      \<lparr>ag_id = uuid, ag_user_id = u, ag_token_id = t, ag_instance_id = instanceID,
                       ag_hostname = hostname, ag_os = os, ag_arch = arch, ag_version = version,
                       ag_connected = True, ag_connected_at = Some now, ag_disconnected_at = None,
                       ag_last_seen_at = Some now, ag_created_at = now, ag_updated_at = now\<rparr> (db_agents db))
                    (\<lambda>as. (uuid, db\<lparr>db_agents := as\<rparr>)))))))))"

definition touch_agent :: "postgres \<Rightarrow> string \<Rightarrow> unit statement" where
  "touch_agent pg agentID now uuid db =
     with_uuid pg agentID (\<lambda>i. Inr ((), db\<lparr>db_agents :=
       update_rows (\<lambda>a. ag_id a = i \<and> ag_connected a)
         (\<lambda>a. a\<lparr>ag_last_seen_at := Some now, ag_updated_at := now\<rparr>) (db_agents db)\<rparr>))"

definition disconnect_agent :: "postgres \<Rightarrow> string \<Rightarrow> unit statement" where
  "disconnect_agent pg agentID now uuid db =
     with_uuid pg agentID (\<lambda>i. Inr ((), db\<lparr>db_agents :=
       update_rows (\<lambda>a. ag_id a = i)
         (\<lambda>a. a\<lparr>ag_connected := False, ag_disconnected_at := Some now, ag_updated_at := now\<rparr>) (db_agents db)\<rparr>))"

definition select_agents :: "postgres \<Rightarrow> string \<Rightarrow> agent_row list statement" where
  "select_agents pg userID now uuid db =
     with_uuid pg userID (\<lambda>i.
       let rows = filter (\<lambda>a. ag_user_id a = i) (db_agents db)
       in Inr (sort_key (\<lambda>a. - the (ag_last_seen_at a)) (filter (\<lambda>a. ag_last_seen_at a \<noteq> None) rows)
               @ filter (\<lambda>a. ag_last_seen_at a = None) rows, db))"

section \<open>Tunnels\<close>

definition close_agent_tunnels :: "postgres \<Rightarrow> string \<Rightarrow> unit statement" where
  "close_agent_tunnels pg agentID now uuid db =
     with_uuid pg agentID (\<lambda>i. Inr ((), db\<lparr>db_tunnels :=
       update_rows (\<lambda>t. tn_agent_id t = i \<and> tn_status t = ''open'')
         (\<lambda>t. t\<lparr>tn_status := ''closed'', tn_closed_at := Some now, tn_updated_at := now\<rparr>) (db_tunnels db)\<rparr>))"

definition reopened :: "int \<Rightarrow> tunnel_row \<Rightarrow> tunnel_row" where
  "reopened now t = t\<lparr>tn_status := ''open'', tn_opened_at := Some now, tn_closed_at := None, tn_updated_at := now\<rparr>"

definition closed_for :: "string \<Rightarrow> string \<Rightarrow> tunnel_row \<Rightarrow> bool" where
  "closed_for agentID address t \<longleftrightarrow> tn_agent_id t = agentID \<and> tn_local_address t = address \<and> tn_status t = ''closed''"

definition reopen_tunnel :: "postgres \<Rightarrow> string \<Rightarrow> string \<Rightarrow> tunnel_row statement" where
  "reopen_tunnel pg agentID address now uuid db =
     with_uuid pg agentID (\<lambda>a. with_text pg address (\<lambda>address.
       case sort_key (\<lambda>t. - tn_updated_at t) (filter (closed_for a address) (db_tunnels db)) of
         [] \<Rightarrow> Inl NoRows
       | t # _ \<Rightarrow> Inr (reopened now t, db\<lparr>db_tunnels :=
           update_rows (\<lambda>r. tn_id r = tn_id t) (reopened now) (db_tunnels db)\<rparr>)))"

definition insert_tunnel :: "postgres \<Rightarrow> string \<Rightarrow> string \<Rightarrow> string \<Rightarrow> tunnel_row statement" where
  "insert_tunnel pg agentID subdomain address now uuid db =
     with_uuid pg agentID (\<lambda>i. with_varchar pg 63 subdomain (\<lambda>subdomain. with_varchar pg 255 address (\<lambda>address.
       case find (\<lambda>a. ag_id a = i) (db_agents db) of
         None \<Rightarrow> Inl NoRows
       | Some a \<Rightarrow>
           let row = \<lparr>tn_id = uuid, tn_user_id = ag_user_id a, tn_agent_id = i, tn_subdomain = subdomain,
                      tn_local_address = address, tn_protocol = ''http'', tn_status = ''open'',
                      tn_opened_at = Some now, tn_closed_at = None, tn_created_at = now, tn_updated_at = now\<rparr>
           in stored (insert_row [(''tunnels_pkey'', same tn_id), (''tunnels_subdomain_key'', same tn_subdomain)]
                row (db_tunnels db)) (\<lambda>ts. (row, db\<lparr>db_tunnels := ts\<rparr>)))))"

definition select_tunnels :: "postgres \<Rightarrow> string \<Rightarrow> tunnel_row list statement" where
  "select_tunnels pg userID now uuid db =
     with_uuid pg userID (\<lambda>i.
       Inr (sort_key (\<lambda>t. - tn_created_at t) (filter (\<lambda>t. tn_user_id t = i) (db_tunnels db)), db))"

section \<open>Traffic totals\<close>

definition bigint :: "int \<Rightarrow> bool" where
  "bigint i \<longleftrightarrow> - maxBigint - 1 \<le> i \<and> i \<le> maxBigint"

definition add_delta :: "postgres \<Rightarrow> string \<Rightarrow> int \<Rightarrow> int \<Rightarrow> int \<Rightarrow> unit statement" where
  "add_delta pg userID requests reqBytes respBytes now uuid db =
     with_uuid pg userID (\<lambda>i.
       if \<not> (bigint requests \<and> bigint reqBytes \<and> bigint respBytes) \<or> i \<notin> u_id ` set (db_users db) then Inl Refused
       else case find (\<lambda>t. tr_user_id t = i) (db_traffic db) of
         None \<Rightarrow> Inr ((), db\<lparr>db_traffic := db_traffic db @ [\<lparr>tr_user_id = i, tr_requests_total = requests,
             tr_request_bytes = reqBytes, tr_response_bytes = respBytes, tr_updated_at = now\<rparr>]\<rparr>)
       | Some t \<Rightarrow>
           if bigint (tr_requests_total t + requests) \<and> bigint (tr_request_bytes t + reqBytes)
              \<and> bigint (tr_response_bytes t + respBytes)
           then Inr ((), db\<lparr>db_traffic := update_rows (\<lambda>t. tr_user_id t = i)
               (\<lambda>t. t\<lparr>tr_requests_total := tr_requests_total t + requests,
                      tr_request_bytes := tr_request_bytes t + reqBytes,
                      tr_response_bytes := tr_response_bytes t + respBytes, tr_updated_at := now\<rparr>) (db_traffic db)\<rparr>)
           else Inl Refused)"

definition select_totals :: "postgres \<Rightarrow> string \<Rightarrow> traffic_row statement" where
  "select_totals pg userID now uuid db =
     with_uuid pg userID (\<lambda>i. row_of (find (\<lambda>t. tr_user_id t = i) (db_traffic db)) db)"

section \<open>All statements\<close>

text \<open>
  One statement that took effect. The agent record is written with the identifiers of a token
  that was read before; the token still exists, since nothing deletes one.
\<close>

definition canonical :: "postgres \<Rightarrow> string \<Rightarrow> bool" where
  "canonical pg i \<longleftrightarrow> pg_uuid pg i = Some i"

inductive db_step :: "postgres \<Rightarrow> database \<Rightarrow> database \<Rightarrow> bool" for pg where
  InsertUser: "canonical pg uuid \<Longrightarrow> insert_user pg email hash now uuid db = Inr (r, db') \<Longrightarrow> db_step pg db db'"
| UpdateLogin: "update_login pg i now uuid db = Inr (r, db') \<Longrightarrow> db_step pg db db'"
| RevokeUsed: "revoke_used pg hash now uuid db = Inr (r, db') \<Longrightarrow> db_step pg db db'"
| RevokeRefresh: "revoke_refresh pg hash now uuid db = Inr (r, db') \<Longrightarrow> db_step pg db db'"
| InsertRefresh: "insert_refresh pg i hash expires agent ip now uuid db = Inr (r, db') \<Longrightarrow> db_step pg db db'"
| InsertAgentToken: "canonical pg uuid \<Longrightarrow>
    insert_agent_token pg i name prefix hash now uuid db = Inr (r, db') \<Longrightarrow> db_step pg db db'"
| RevokeAgentToken: "revoke_agent_token pg t i now uuid db = Inr (r, db') \<Longrightarrow> db_step pg db db'"
| TouchAgentToken: "touch_agent_token pg t now uuid db = Inr (r, db') \<Longrightarrow> db_step pg db db'"
| UpsertAgent: "canonical pg uuid \<Longrightarrow> row \<in> set (db_agent_tokens db) \<Longrightarrow>
    upsert_agent pg (tk_user_id row) (tk_id row) inst hostname os arch version now uuid db = Inr (r, db') \<Longrightarrow>
    db_step pg db db'"
| TouchAgent: "touch_agent pg a now uuid db = Inr (r, db') \<Longrightarrow> db_step pg db db'"
| DisconnectAgent: "disconnect_agent pg a now uuid db = Inr (r, db') \<Longrightarrow> db_step pg db db'"
| CloseAgentTunnels: "close_agent_tunnels pg a now uuid db = Inr (r, db') \<Longrightarrow> db_step pg db db'"
| ReopenTunnel: "reopen_tunnel pg a address now uuid db = Inr (r, db') \<Longrightarrow> db_step pg db db'"
| InsertTunnel: "canonical pg uuid \<Longrightarrow> insert_tunnel pg a sub address now uuid db = Inr (r, db') \<Longrightarrow> db_step pg db db'"
| AddDelta: "0 \<le> n \<Longrightarrow> 0 \<le> p \<Longrightarrow> 0 \<le> q \<Longrightarrow> add_delta pg i n p q now uuid db = Inr (r, db') \<Longrightarrow> db_step pg db db'"

abbreviation db_steps :: "postgres \<Rightarrow> database \<Rightarrow> database \<Rightarrow> bool" where
  "db_steps pg \<equiv> (db_step pg)\<^sup>*\<^sup>*"

lemmas with_defs = with_uuid_def with_text_def with_varchar_def row_of_def stored_def

text \<open>A statement that reads leaves the tables as they are.\<close>

lemma selects_read_only:
  "select_user_by_email pg e now uuid db = Inr (r1, db') \<Longrightarrow> db' = db"
  "select_refresh_user pg e now uuid db = Inr (r1, db') \<Longrightarrow> db' = db"
  "select_active_user pg e now uuid db = Inr (r1, db') \<Longrightarrow> db' = db"
  "token_exists pg e now uuid db = Inr (r2, db') \<Longrightarrow> db' = db"
  "select_live_token pg e now uuid db = Inr (r3, db') \<Longrightarrow> db' = db"
  "select_agent_tokens pg e now uuid db = Inr (r4, db') \<Longrightarrow> db' = db"
  "select_agents pg e now uuid db = Inr (r5, db') \<Longrightarrow> db' = db"
  "select_tunnels pg e now uuid db = Inr (r6, db') \<Longrightarrow> db' = db"
  "select_totals pg e now uuid db = Inr (r7, db') \<Longrightarrow> db' = db"
  by (auto simp: with_defs Let_def select_user_by_email_def select_refresh_user_def select_active_user_def token_exists_def
      select_live_token_def select_agent_tokens_def select_agents_def select_tunnels_def select_totals_def
      split: option.splits)

section \<open>What every statement keeps\<close>

definition ids_ok :: "postgres \<Rightarrow> database \<Rightarrow> bool" where
  "ids_ok pg db \<longleftrightarrow> list_all (canonical pg) (map u_id (db_users db)) \<and> list_all (canonical pg) (map tk_id (db_agent_tokens db))
     \<and> list_all (canonical pg) (map ag_id (db_agents db)) \<and> list_all (canonical pg) (map tn_id (db_tunnels db))"

definition db_inv :: "postgres \<Rightarrow> database \<Rightarrow> bool" where
  "db_inv pg db \<longleftrightarrow> db_ok db \<and> ids_ok pg db"

lemma distinct_update_rows:
  "(\<And>r. key (f r) = key r) \<Longrightarrow> distinct (map key (update_rows P f rows)) = distinct (map key rows)"
  by (simp add: map_update_rows)

lemma image_update_rows: "(\<And>r. key (f r) = key r) \<Longrightarrow> key ` set (update_rows P f rows) = key ` set rows"
  by (metis map_update_rows set_map)

lemma list_all_update_rows:
  "list_all Q rows \<Longrightarrow> (\<And>r. Q r \<Longrightarrow> P r \<Longrightarrow> Q (f r)) \<Longrightarrow> list_all Q (update_rows P f rows)"
  by (auto simp: list_all_iff update_rows_def)

lemma users_update_inv:
  assumes "db_inv pg db" "\<And>u. u_id (f u) = u_id u" "\<And>u. u_email (f u) = u_email u" "\<And>u. u_status (f u) = u_status u"
  shows "db_inv pg (db\<lparr>db_users := update_rows P f (db_users db)\<rparr>)"
  using assms unfolding db_inv_def db_ok_def ids_ok_def users_ok_def
  by (auto simp: distinct_update_rows map_update_rows image_update_rows list_all_update_rows intro: references_mono)

lemma refresh_update_inv:
  assumes "db_inv pg db" "\<And>r. rt_id (f r) = rt_id r" "\<And>r. rt_token_hash (f r) = rt_token_hash r"
    "\<And>r. rt_user_id (f r) = rt_user_id r"
  shows "db_inv pg (db\<lparr>db_refresh_tokens := update_rows P f (db_refresh_tokens db)\<rparr>)"
  using assms unfolding db_inv_def db_ok_def ids_ok_def refresh_ok_def
  by (auto simp: distinct_update_rows list_all_update_rows)

lemma tokens_update_inv:
  assumes "db_inv pg db" "\<And>r. tk_id (f r) = tk_id r" "\<And>r. tk_hash (f r) = tk_hash r"
    "\<And>r. tk_user_id (f r) = tk_user_id r"
  shows "db_inv pg (db\<lparr>db_agent_tokens := update_rows P f (db_agent_tokens db)\<rparr>)"
proof -
  have "(\<lambda>t. (tk_id t, tk_user_id t)) ` set (update_rows P f (db_agent_tokens db))
      = (\<lambda>t. (tk_id t, tk_user_id t)) ` set (db_agent_tokens db)"
    using assms by (intro image_update_rows) simp
  then show ?thesis
    using assms unfolding db_inv_def db_ok_def ids_ok_def agent_tokens_ok_def
    by (auto simp: distinct_update_rows map_update_rows list_all_update_rows intro: agents_references_mono)
qed

lemma agents_update_inv:
  assumes "db_inv pg db" "\<And>a. ag_id (f a) = ag_id a" "\<And>a. ag_user_id (f a) = ag_user_id a"
    "\<And>a. ag_instance_id (f a) = ag_instance_id a"
    "\<And>a. P a \<Longrightarrow> a \<in> set (db_agents db) \<Longrightarrow> (ag_token_id (f a), ag_user_id a) \<in> (\<lambda>t. (tk_id t, tk_user_id t)) ` set (db_agent_tokens db)
       \<and> (ag_connected (f a) \<longrightarrow> ag_connected_at (f a) \<noteq> None \<and> ag_disconnected_at (f a) = None)"
  shows "db_inv pg (db\<lparr>db_agents := update_rows P f (db_agents db)\<rparr>)"
proof -
  have refs: "(\<lambda>a. (ag_id a, ag_user_id a)) ` set (update_rows P f (db_agents db)) = (\<lambda>a. (ag_id a, ag_user_id a)) ` set (db_agents db)"
    using assms by (intro image_update_rows) simp
  have keys: "map ag_id (update_rows P f (db_agents db)) = map ag_id (db_agents db)"
    "map (\<lambda>a. (ag_user_id a, ag_instance_id a)) (update_rows P f (db_agents db)) = map (\<lambda>a. (ag_user_id a, ag_instance_id a)) (db_agents db)"
    using assms by (simp_all add: map_update_rows)
  have "agents_ok (db_agent_tokens db) (update_rows P f (db_agents db))"
    using assms unfolding db_inv_def db_ok_def agents_ok_def keys list_all_iff set_update_rows by auto
  then show ?thesis
    using assms(1) refs keys unfolding db_inv_def db_ok_def ids_ok_def
    by (auto intro: tunnels_references_mono)
qed

lemma tunnels_update_inv:
  assumes "db_inv pg db" "\<And>t. tn_id (f t) = tn_id t" "\<And>t. tn_subdomain (f t) = tn_subdomain t"
    "\<And>t. tn_agent_id (f t) = tn_agent_id t" "\<And>t. tn_user_id (f t) = tn_user_id t"
    "\<And>t. tn_status (f t) \<in> {''open'', ''closed''}"
    "\<And>t. tn_status (f t) = ''open'' \<Longrightarrow> tn_opened_at (f t) \<noteq> None \<and> tn_closed_at (f t) = None"
  shows "db_inv pg (db\<lparr>db_tunnels := update_rows P f (db_tunnels db)\<rparr>)"
proof -
  have keys: "map tn_id (update_rows P f (db_tunnels db)) = map tn_id (db_tunnels db)"
    "map tn_subdomain (update_rows P f (db_tunnels db)) = map tn_subdomain (db_tunnels db)"
    using assms by (simp_all add: map_update_rows)
  have "tunnels_ok (db_agents db) (update_rows P f (db_tunnels db))"
    using assms(1) unfolding db_inv_def db_ok_def tunnels_ok_def keys list_all_iff set_update_rows
    using assms(4-7) by (auto simp del: insert_iff)
  then show ?thesis
    using assms(1) keys unfolding db_inv_def db_ok_def ids_ok_def by simp
qed

lemma image_snoc: "k ` set rows \<subseteq> k ` set (rows @ [row])"
  by auto

lemma insert_user_inv:
  assumes "db_inv pg db" "canonical pg uuid" "insert_user pg email hash now uuid db = Inr (r, db')"
  shows "db_inv pg db'"
proof -
  obtain e h where db': "db' = db\<lparr>db_users := db_users db @ [\<lparr>u_id = uuid, u_email = e, u_password_hash = h, u_status = ''active'',
      u_created_at = now, u_updated_at = now, u_last_login_at = None\<rparr>]\<rparr>"
    and new: "\<forall>u \<in> set (db_users db). uuid \<noteq> u_id u \<and> e \<noteq> u_email u"
    using assms(3) by (auto simp: insert_user_def with_defs insert_row_Inr same_def split: option.splits sum.splits)
  have "users_ok (db_users db')"
    using assms(1) new by (auto simp: db' db_inv_def db_ok_def users_ok_def)
  then show ?thesis
    using assms(1,2) image_snoc unfolding db_inv_def db_ok_def ids_ok_def db'
    by (auto intro: references_mono)
qed

lemma insert_refresh_inv:
  assumes "db_inv pg db" "insert_refresh pg i hash expires agent ip now uuid db = Inr (r, db')"
  shows "db_inv pg db'"
proof -
  obtain row where db': "db' = db\<lparr>db_refresh_tokens := db_refresh_tokens db @ [row]\<rparr>"
    and new: "rt_user_id row \<in> u_id ` set (db_users db)"
      "\<forall>r \<in> set (db_refresh_tokens db). rt_id row \<noteq> rt_id r \<and> rt_token_hash row \<noteq> rt_token_hash r"
    using assms(2)
    by (auto simp: insert_refresh_def with_defs insert_row_Inr same_def split: option.splits sum.splits if_splits)
  have "refresh_ok (db_users db') (db_refresh_tokens db')"
    using assms(1) new by (auto simp: db' db_inv_def db_ok_def refresh_ok_def)
  then show ?thesis
    using assms(1) unfolding db_inv_def db_ok_def ids_ok_def db' by simp
qed

lemma insert_agent_token_inv:
  assumes "db_inv pg db" "canonical pg uuid" "insert_agent_token pg i name prefix hash now uuid db = Inr (r, db')"
  shows "db_inv pg db'"
proof -
  obtain row where db': "db' = db\<lparr>db_agent_tokens := db_agent_tokens db @ [row]\<rparr>" "tk_id row = uuid"
    and new: "tk_user_id row \<in> u_id ` set (db_users db)"
      "\<forall>r \<in> set (db_agent_tokens db). tk_id row \<noteq> tk_id r \<and> tk_hash row \<noteq> tk_hash r"
    using assms(3)
    by (auto simp: insert_agent_token_def with_defs Let_def insert_row_Inr same_def split: option.splits sum.splits if_splits)
  have "agent_tokens_ok (db_users db') (db_agent_tokens db')"
    using assms(1) new by (auto simp: db' db_inv_def db_ok_def agent_tokens_ok_def)
  then show ?thesis
    using assms(1,2) image_snoc unfolding db_inv_def db_ok_def ids_ok_def db'
    by (auto simp: db'(2) intro: agents_references_mono)
qed

lemma insert_tunnel_inv:
  assumes "db_inv pg db" "canonical pg uuid" "insert_tunnel pg a sub address now uuid db = Inr (r, db')"
  shows "db_inv pg db'"
proof -
  obtain i ag where ag: "find (\<lambda>a. ag_id a = i) (db_agents db) = Some ag"
    and db': "db' = db\<lparr>db_tunnels := db_tunnels db @ [r]\<rparr>" "tn_id r = uuid"
    and row: "tn_agent_id r = i" "tn_user_id r = ag_user_id ag" "tn_status r = ''open''"
      "tn_opened_at r \<noteq> None" "tn_closed_at r = None"
      "\<forall>t \<in> set (db_tunnels db). tn_id r \<noteq> tn_id t \<and> tn_subdomain r \<noteq> tn_subdomain t"
    using assms(3)
    by (auto simp: insert_tunnel_def with_defs Let_def insert_row_Inr same_def split: option.splits sum.splits)
  have "(tn_agent_id r, tn_user_id r) \<in> (\<lambda>a. (ag_id a, ag_user_id a)) ` set (db_agents db)"
    using find_holds [OF ag] row by force
  then have "tunnels_ok (db_agents db') (db_tunnels db')"
    using assms(1) row by (auto simp: db' db_inv_def db_ok_def tunnels_ok_def)
  then show ?thesis
    using assms(1,2) unfolding db_inv_def db_ok_def ids_ok_def db' by (simp add: db'(2))
qed

lemma upsert_agent_inv:
  assumes inv: "db_inv pg db" and uuid: "canonical pg uuid" and row: "row \<in> set (db_agent_tokens db)"
    and st: "upsert_agent pg (tk_user_id row) (tk_id row) inst hostname os arch version now uuid db = Inr (r, db')"
  shows "db_inv pg db'"
proof -
  have "canonical pg (tk_id row)" "canonical pg (tk_user_id row)"
    using inv row unfolding db_inv_def ids_ok_def db_ok_def agent_tokens_ok_def list_all_iff by auto
  then have ids: "pg_uuid pg (tk_user_id row) = Some (tk_user_id row)" "pg_uuid pg (tk_id row) = Some (tk_id row)"
    by (simp_all add: canonical_def)
  have tok: "(tk_id row, tk_user_id row) \<in> (\<lambda>t. (tk_id t, tk_user_id t)) ` set (db_agent_tokens db)"
    using row by auto
  obtain inst' where inst': "pg_varchar pg 255 inst = Some inst'"
    using st by (auto simp: upsert_agent_def with_defs ids split: option.splits)
  show ?thesis
  proof (cases "find (\<lambda>a. ag_user_id a = tk_user_id row \<and> ag_instance_id a = inst') (db_agents db)")
    case (Some a)
    then obtain h o' ar v where "db' = db\<lparr>db_agents := update_rows (\<lambda>a. ag_user_id a = tk_user_id row \<and> ag_instance_id a = inst')
        (\<lambda>a. a\<lparr>ag_token_id := tk_id row, ag_hostname := h, ag_os := o', ag_arch := ar, ag_version := v,
            ag_connected := True, ag_connected_at := Some now, ag_disconnected_at := None,
            ag_last_seen_at := Some now, ag_updated_at := now\<rparr>) (db_agents db)\<rparr>"
      using st by (auto simp: upsert_agent_def with_defs ids inst' Let_def split: option.splits if_splits)
    then show ?thesis
      using inv tok by (auto intro!: agents_update_inv)
  next
    case None
    then obtain a where db': "db' = db\<lparr>db_agents := db_agents db @ [a]\<rparr>" "ag_id a = uuid"
      and a: "ag_user_id a = tk_user_id row" "ag_token_id a = tk_id row" "ag_instance_id a = inst'"
        "ag_connected_at a \<noteq> None" "ag_disconnected_at a = None"
        "\<forall>b \<in> set (db_agents db). ag_id a \<noteq> ag_id b"
      using st
      by (auto simp: upsert_agent_def with_defs ids inst' Let_def insert_row_Inr same_def split: option.splits if_splits sum.splits)
    have "\<forall>b \<in> set (db_agents db). (ag_user_id b, ag_instance_id b) \<noteq> (ag_user_id a, ag_instance_id a)"
      using None a by (auto simp: find_None_iff)
    then have "agents_ok (db_agent_tokens db') (db_agents db')"
      using inv a tok by (auto simp: db' db_inv_def db_ok_def agents_ok_def)
    then show ?thesis
      using inv uuid image_snoc unfolding db_inv_def db_ok_def ids_ok_def db'
      by (auto simp: db'(2) intro: tunnels_references_mono)
  qed
qed

lemma add_delta_inv:
  assumes inv: "db_inv pg db" and nonneg: "0 \<le> n" "0 \<le> p" "0 \<le> q"
    and st: "add_delta pg i n p q now uuid db = Inr (r, db')"
  shows "db_inv pg db'"
proof -
  obtain u where u: "pg_uuid pg i = Some u" "u \<in> u_id ` set (db_users db)" "bigint n" "bigint p" "bigint q"
    using st by (auto simp: add_delta_def with_defs split: option.splits if_splits)
  have "\<exists>ts. traffic_ok (db_users db) ts \<and> db' = db\<lparr>db_traffic := ts\<rparr>"
  proof (cases "find (\<lambda>t. tr_user_id t = u) (db_traffic db)")
    case None
    let ?ts = "db_traffic db @ [\<lparr>tr_user_id = u, tr_requests_total = n, tr_request_bytes = p,
        tr_response_bytes = q, tr_updated_at = now\<rparr>]"
    have "db' = db\<lparr>db_traffic := ?ts\<rparr>"
      using None st u by (auto simp: add_delta_def with_defs)
    moreover have "\<forall>t \<in> set (db_traffic db). tr_user_id t \<noteq> u"
      using None by (auto simp: find_None_iff)
    then have "traffic_ok (db_users db) ?ts"
      using inv nonneg u by (auto simp: db_inv_def db_ok_def traffic_ok_def bigint_def)
    ultimately show ?thesis
      by blast
  next
    case (Some t)
    let ?f = "\<lambda>t. t\<lparr>tr_requests_total := tr_requests_total t + n, tr_request_bytes := tr_request_bytes t + p,
        tr_response_bytes := tr_response_bytes t + q, tr_updated_at := now\<rparr>"
    have t: "t \<in> set (db_traffic db)" "tr_user_id t = u"
      using find_holds [OF Some] by auto
    have big: "bigint (tr_requests_total t + n)" "bigint (tr_request_bytes t + p)" "bigint (tr_response_bytes t + q)"
      and db': "db' = db\<lparr>db_traffic := update_rows (\<lambda>t. tr_user_id t = u) ?f (db_traffic db)\<rparr>"
      using st u Some by (auto simp: add_delta_def with_defs split: if_splits)
    have keys: "map tr_user_id (update_rows (\<lambda>t. tr_user_id t = u) ?f (db_traffic db)) = map tr_user_id (db_traffic db)"
      by (simp add: map_update_rows)
    have dist: "distinct (map tr_user_id (db_traffic db))"
      and rows: "\<forall>t \<in> set (db_traffic db). tr_user_id t \<in> u_id ` set (db_users db) \<and> tr_requests_total t \<in> {0..maxBigint}
        \<and> tr_request_bytes t \<in> {0..maxBigint} \<and> tr_response_bytes t \<in> {0..maxBigint}"
      using inv by (auto simp: db_inv_def db_ok_def traffic_ok_def list_all_iff)
    have only: "x = t" if "x \<in> set (db_traffic db)" "tr_user_id x = u" for x
      using dist t that by (auto simp: distinct_map dest: inj_onD)
    let ?ok = "\<lambda>t. tr_user_id t \<in> u_id ` set (db_users db) \<and> tr_requests_total t \<in> {0..maxBigint}
        \<and> tr_request_bytes t \<in> {0..maxBigint} \<and> tr_response_bytes t \<in> {0..maxBigint}"
    have ft: "?ok (?f t)"
      using rows t(1) big nonneg by (simp add: bigint_def)
    have "?ok (if tr_user_id x = u then ?f x else x)" if x: "x \<in> set (db_traffic db)" for x
    proof (cases "tr_user_id x = u")
      case True
      then have "x = t" by (rule only [OF x])
      then show ?thesis using ft t(2) by (simp only: refl if_True)
    next
      case False
      then show ?thesis using rows x by (simp only: if_False)
    qed
    then have "traffic_ok (db_users db) (update_rows (\<lambda>t. tr_user_id t = u) ?f (db_traffic db))"
      unfolding traffic_ok_def keys list_all_iff set_update_rows using dist by blast
    then show ?thesis
      using db' by blast
  qed
  then show ?thesis
    using inv unfolding db_inv_def db_ok_def ids_ok_def by auto
qed

lemma db_step_inv: "db_step pg db db' \<Longrightarrow> db_inv pg db \<Longrightarrow> db_inv pg db'"
proof (induction rule: db_step.induct)
  case InsertUser then show ?case by (blast intro: insert_user_inv)
next
  case UpdateLogin then show ?case
    by (auto simp: update_login_def with_defs split: option.splits intro!: users_update_inv)
next
  case RevokeUsed then show ?case
    by (auto simp: revoke_used_def with_defs split: option.splits intro!: refresh_update_inv)
next
  case RevokeRefresh then show ?case
    by (auto simp: revoke_refresh_def with_defs split: option.splits intro!: refresh_update_inv)
next
  case InsertRefresh then show ?case by (blast intro: insert_refresh_inv)
next
  case InsertAgentToken then show ?case by (blast intro: insert_agent_token_inv)
next
  case RevokeAgentToken then show ?case
    by (auto simp: revoke_agent_token_def with_defs Let_def split: option.splits intro!: tokens_update_inv)
next
  case TouchAgentToken then show ?case
    by (auto simp: touch_agent_token_def with_defs split: option.splits intro!: tokens_update_inv)
next
  case UpsertAgent then show ?case by (blast intro: upsert_agent_inv)
next
  case TouchAgent then show ?case
    by (auto simp: touch_agent_def with_defs split: option.splits intro!: agents_update_inv)
      (auto simp: db_inv_def db_ok_def agents_ok_def list_all_iff)
next
  case DisconnectAgent then show ?case
    by (auto simp: disconnect_agent_def with_defs split: option.splits intro!: agents_update_inv)
      (auto simp: db_inv_def db_ok_def agents_ok_def list_all_iff)
next
  case CloseAgentTunnels then show ?case
    by (auto simp: close_agent_tunnels_def with_defs split: option.splits intro!: tunnels_update_inv)
next
  case ReopenTunnel then show ?case
    by (auto simp: reopen_tunnel_def with_defs reopened_def split: option.splits list.splits intro!: tunnels_update_inv)
next
  case InsertTunnel then show ?case by (blast intro: insert_tunnel_inv)
next
  case AddDelta then show ?case by (blast intro: add_delta_inv)
qed

lemma db_steps_inv: "db_steps pg db db' \<Longrightarrow> db_inv pg db \<Longrightarrow> db_inv pg db'"
  by (induction rule: rtranclp_induct) (auto intro: db_step_inv)

text \<open>Columns that never change once a row is there; rows never go.\<close>

definition user_facts :: "database \<Rightarrow> (string \<times> string \<times> string \<times> string) set" where
  "user_facts db = (\<lambda>u. (u_id u, u_email u, u_password_hash u, u_status u)) ` set (db_users db)"

definition token_facts :: "database \<Rightarrow> (string \<times> string \<times> string \<times> string \<times> int option) set" where
  "token_facts db = (\<lambda>t. (tk_id t, tk_user_id t, tk_hash t, tk_name t, tk_expires_at t)) ` set (db_agent_tokens db)"

definition refresh_facts :: "database \<Rightarrow> (string \<times> string \<times> string \<times> int) set" where
  "refresh_facts db = (\<lambda>r. (rt_id r, rt_user_id r, rt_token_hash r, rt_expires_at r)) ` set (db_refresh_tokens db)"

definition agent_facts :: "database \<Rightarrow> (string \<times> string \<times> string) set" where
  "agent_facts db = (\<lambda>a. (ag_id a, ag_user_id a, ag_instance_id a)) ` set (db_agents db)"

definition tunnel_facts :: "database \<Rightarrow> (string \<times> string \<times> string \<times> string \<times> string) set" where
  "tunnel_facts db = (\<lambda>t. (tn_id t, tn_user_id t, tn_agent_id t, tn_subdomain t, tn_local_address t)) ` set (db_tunnels db)"

definition facts_grow :: "database \<Rightarrow> database \<Rightarrow> bool" where
  "facts_grow db db' \<longleftrightarrow> user_facts db \<subseteq> user_facts db' \<and> refresh_facts db \<subseteq> refresh_facts db' \<and> token_facts db \<subseteq> token_facts db'
     \<and> agent_facts db \<subseteq> agent_facts db' \<and> tunnel_facts db \<subseteq> tunnel_facts db'"

lemma facts_grow_refl [simp]: "facts_grow db db"
  by (simp add: facts_grow_def)

lemma facts_grow_trans: "facts_grow a b \<Longrightarrow> facts_grow b c \<Longrightarrow> facts_grow a c"
  unfolding facts_grow_def by blast

lemmas statement_defs = insert_user_def update_login_def revoke_used_def revoke_refresh_def insert_refresh_def
  insert_agent_token_def revoke_agent_token_def touch_agent_token_def upsert_agent_def touch_agent_def
  disconnect_agent_def close_agent_tunnels_def reopen_tunnel_def reopened_def insert_tunnel_def add_delta_def
lemmas facts_defs = user_facts_def refresh_facts_def token_facts_def agent_facts_def tunnel_facts_def

lemma facts_update:
  "facts_grow db (db\<lparr>db_refresh_tokens := db_refresh_tokens db @ rs\<rparr>)" "facts_grow db (db\<lparr>db_traffic := ts\<rparr>)"
  "facts_grow db (db\<lparr>db_users := db_users db @ us\<rparr>)" "facts_grow db (db\<lparr>db_agent_tokens := db_agent_tokens db @ tks\<rparr>)"
  "facts_grow db (db\<lparr>db_agents := db_agents db @ as\<rparr>)" "facts_grow db (db\<lparr>db_tunnels := db_tunnels db @ tns\<rparr>)"
  by (auto simp: facts_grow_def facts_defs)

lemma facts_update_rows:
  "(\<And>u. (u_id (f u), u_email (f u), u_password_hash (f u), u_status (f u)) = (u_id u, u_email u, u_password_hash u, u_status u)) \<Longrightarrow>
     facts_grow db (db\<lparr>db_users := update_rows P f (db_users db)\<rparr>)"
  "(\<And>r. (rt_id (e r), rt_user_id (e r), rt_token_hash (e r), rt_expires_at (e r))
        = (rt_id r, rt_user_id r, rt_token_hash r, rt_expires_at r)) \<Longrightarrow>
     facts_grow db (db\<lparr>db_refresh_tokens := update_rows O' e (db_refresh_tokens db)\<rparr>)"
  "(\<And>t. (tk_id (g t), tk_user_id (g t), tk_hash (g t), tk_name (g t), tk_expires_at (g t))
        = (tk_id t, tk_user_id t, tk_hash t, tk_name t, tk_expires_at t)) \<Longrightarrow>
     facts_grow db (db\<lparr>db_agent_tokens := update_rows Q g (db_agent_tokens db)\<rparr>)"
  "(\<And>a. (ag_id (h a), ag_user_id (h a), ag_instance_id (h a)) = (ag_id a, ag_user_id a, ag_instance_id a)) \<Longrightarrow>
     facts_grow db (db\<lparr>db_agents := update_rows R h (db_agents db)\<rparr>)"
  "(\<And>t. (tn_id (k t), tn_user_id (k t), tn_agent_id (k t), tn_subdomain (k t), tn_local_address (k t))
        = (tn_id t, tn_user_id t, tn_agent_id t, tn_subdomain t, tn_local_address t)) \<Longrightarrow>
     facts_grow db (db\<lparr>db_tunnels := update_rows S k (db_tunnels db)\<rparr>)"
  by (simp_all add: facts_grow_def facts_defs image_update_rows)

lemma db_step_facts: "db_step pg db db' \<Longrightarrow> facts_grow db db'"
  by (erule db_step.cases; hypsubst)
    (auto simp: statement_defs with_defs Let_def insert_row_Inr facts_update
      split: option.splits sum.splits list.splits if_splits intro!: facts_update_rows)

lemma db_steps_facts: "db_steps pg db db' \<Longrightarrow> facts_grow db db'"
  by (induction rule: rtranclp_induct) (auto intro: facts_grow_trans db_step_facts)

text \<open>A revoked token stays revoked: its row stays and no other can have its hash.\<close>

definition refresh_revoked :: "string \<Rightarrow> database \<Rightarrow> bool" where
  "refresh_revoked hash db \<longleftrightarrow> hash \<in> rt_token_hash ` set (db_refresh_tokens db)
     \<and> list_all (\<lambda>r. rt_token_hash r = hash \<longrightarrow> rt_revoked_at r \<noteq> None) (db_refresh_tokens db)"

definition token_revoked :: "string \<Rightarrow> database \<Rightarrow> bool" where
  "token_revoked hash db \<longleftrightarrow> hash \<in> tk_hash ` set (db_agent_tokens db)
     \<and> list_all (\<lambda>t. tk_hash t = hash \<longrightarrow> tk_revoked_at t \<noteq> None) (db_agent_tokens db)"

lemma refresh_revoked_rows:
  "refresh_revoked hash db \<Longrightarrow> db_refresh_tokens db' = db_refresh_tokens db \<Longrightarrow> refresh_revoked hash db'"
  "refresh_revoked hash db \<Longrightarrow> (\<And>r. rt_token_hash (f r) = rt_token_hash r) \<Longrightarrow> (\<And>r. rt_revoked_at (f r) \<noteq> None)
     \<Longrightarrow> refresh_revoked hash (db\<lparr>db_refresh_tokens := update_rows P f (db_refresh_tokens db)\<rparr>)"
  by (auto simp: refresh_revoked_def image_update_rows intro!: list_all_update_rows)

lemma db_step_refresh_revoked: "db_step pg db db' \<Longrightarrow> refresh_revoked hash db \<Longrightarrow> refresh_revoked hash db'"
proof (induction rule: db_step.induct)
  case InsertRefresh
  then show ?case
    by (force simp: insert_refresh_def with_defs insert_row_Inr same_def refresh_revoked_def
        split: option.splits sum.splits if_splits)
qed (auto simp: statement_defs with_defs Let_def insert_row_Inr split: option.splits sum.splits list.splits if_splits
    intro!: refresh_revoked_rows(2) elim: refresh_revoked_rows(1))

lemma token_revoked_rows:
  "token_revoked hash db \<Longrightarrow> db_agent_tokens db' = db_agent_tokens db \<Longrightarrow> token_revoked hash db'"
  "token_revoked hash db \<Longrightarrow> (\<And>t. tk_hash (f t) = tk_hash t) \<Longrightarrow> (\<And>t. tk_revoked_at t \<noteq> None \<Longrightarrow> tk_revoked_at (f t) \<noteq> None)
     \<Longrightarrow> token_revoked hash (db\<lparr>db_agent_tokens := update_rows P f (db_agent_tokens db)\<rparr>)"
  by (auto simp: token_revoked_def image_update_rows intro!: list_all_update_rows)

lemma db_step_token_revoked: "db_step pg db db' \<Longrightarrow> token_revoked hash db \<Longrightarrow> token_revoked hash db'"
proof (induction rule: db_step.induct)
  case InsertAgentToken
  then show ?case
    by (force simp: insert_agent_token_def with_defs Let_def insert_row_Inr same_def token_revoked_def
        split: option.splits sum.splits if_splits)
qed (auto simp: statement_defs with_defs Let_def insert_row_Inr split: option.splits sum.splits list.splits if_splits
    intro!: token_revoked_rows(2) elim: token_revoked_rows(1))

lemma db_steps_revoked:
  "db_steps pg db db' \<Longrightarrow> refresh_revoked hash db \<Longrightarrow> refresh_revoked hash db'"
  "db_steps pg db db' \<Longrightarrow> token_revoked hash db \<Longrightarrow> token_revoked hash db'"
  by (induction rule: rtranclp_induct) (auto intro: db_step_refresh_revoked db_step_token_revoked)

section \<open>Service calls\<close>

text \<open>
  A call runs its statements one after the other; before each of them the statements of other
  calls may have run. The contract of a service call: its effect on the tables is a path of
  statements. What follows from it is proved once, for every call of every service.
\<close>

definition env_ok :: "postgres \<Rightarrow> step_env \<Rightarrow> bool" where
  "env_ok pg env \<longleftrightarrow> canonical pg (se_uuid env) \<and> (\<forall>db. db_steps pg db (se_others env db))"

definition calls_ok :: "postgres \<Rightarrow> call_env \<Rightarrow> bool" where
  "calls_ok pg env \<longleftrightarrow> (\<forall>n. env_ok pg (env n))"

lemma calls_okD [simp]: "calls_ok pg env \<Longrightarrow> env_ok pg (env n)"
  by (simp add: calls_ok_def)

lemma exec_steps:
  assumes "exec env st db = (res, db')" "env_ok pg env"
    and "\<And>r db db'. st (se_now env) (se_uuid env) db = Inr (r, db') \<Longrightarrow> db = db' \<or> db_step pg db db'"
  shows "db_steps pg db db'"
proof -
  have "db_steps pg db (se_others env db)"
    using assms(2) by (simp add: env_ok_def)
  moreover have "db' = se_others env db \<or> db_step pg (se_others env db) db'"
    using assms(1,3) by (auto simp: exec_def Let_def split: db_run.splits sum.splits prod.splits)
  ultimately show ?thesis
    by (auto intro: rtranclp.rtrancl_into_rtrancl)
qed

lemma quiet_env_ok: "quiet env \<Longrightarrow> canonical pg (se_uuid env) \<Longrightarrow> env_ok pg env"
  by (simp add: quiet_def env_ok_def)

lemma exec_paths:
  "exec env (select_user_by_email pg e) db = (res_select_user_by_email, db') \<Longrightarrow> env_ok pg env \<Longrightarrow> db_steps pg db db'"
  "exec env (select_refresh_user pg e) db = (res_select_refresh_user, db') \<Longrightarrow> env_ok pg env \<Longrightarrow> db_steps pg db db'"
  "exec env (select_active_user pg e) db = (res_select_active_user, db') \<Longrightarrow> env_ok pg env \<Longrightarrow> db_steps pg db db'"
  "exec env (token_exists pg e) db = (res_token_exists, db') \<Longrightarrow> env_ok pg env \<Longrightarrow> db_steps pg db db'"
  "exec env (select_live_token pg e) db = (res_select_live_token, db') \<Longrightarrow> env_ok pg env \<Longrightarrow> db_steps pg db db'"
  "exec env (select_agent_tokens pg e) db = (res_select_agent_tokens, db') \<Longrightarrow> env_ok pg env \<Longrightarrow> db_steps pg db db'"
  "exec env (select_agents pg e) db = (res_select_agents, db') \<Longrightarrow> env_ok pg env \<Longrightarrow> db_steps pg db db'"
  "exec env (select_tunnels pg e) db = (res_select_tunnels, db') \<Longrightarrow> env_ok pg env \<Longrightarrow> db_steps pg db db'"
  "exec env (select_totals pg e) db = (res_select_totals, db') \<Longrightarrow> env_ok pg env \<Longrightarrow> db_steps pg db db'"
  "exec env (insert_user pg email hash) db = (res_insert_user, db') \<Longrightarrow> env_ok pg env \<Longrightarrow> db_steps pg db db'"
  "exec env (update_login pg i) db = (res_update_login, db') \<Longrightarrow> env_ok pg env \<Longrightarrow> db_steps pg db db'"
  "exec env (revoke_used pg hash) db = (res_revoke_used, db') \<Longrightarrow> env_ok pg env \<Longrightarrow> db_steps pg db db'"
  "exec env (revoke_refresh pg hash) db = (res_revoke_refresh, db') \<Longrightarrow> env_ok pg env \<Longrightarrow> db_steps pg db db'"
  "exec env (insert_refresh pg i hash expires agent ip) db = (res_insert_refresh, db') \<Longrightarrow> env_ok pg env \<Longrightarrow> db_steps pg db db'"
  "exec env (insert_agent_token pg i name prefix hash) db = (res_insert_agent_token, db') \<Longrightarrow> env_ok pg env \<Longrightarrow> db_steps pg db db'"
  "exec env (revoke_agent_token pg t i) db = (res_revoke_agent_token, db') \<Longrightarrow> env_ok pg env \<Longrightarrow> db_steps pg db db'"
  "exec env (touch_agent_token pg t) db = (res_touch_agent_token, db') \<Longrightarrow> env_ok pg env \<Longrightarrow> db_steps pg db db'"
  "exec env (touch_agent pg a) db = (res_touch_agent, db') \<Longrightarrow> env_ok pg env \<Longrightarrow> db_steps pg db db'"
  "exec env (disconnect_agent pg a) db = (res_disconnect_agent, db') \<Longrightarrow> env_ok pg env \<Longrightarrow> db_steps pg db db'"
  "exec env (close_agent_tunnels pg a) db = (res_close_agent_tunnels, db') \<Longrightarrow> env_ok pg env \<Longrightarrow> db_steps pg db db'"
  "exec env (reopen_tunnel pg a address) db = (res_reopen_tunnel, db') \<Longrightarrow> env_ok pg env \<Longrightarrow> db_steps pg db db'"
  "exec env (insert_tunnel pg a sub address) db = (res_insert_tunnel, db') \<Longrightarrow> env_ok pg env \<Longrightarrow> db_steps pg db db'"
  by ((erule (1) exec_steps, auto dest: selects_read_only intro: db_step.intros simp: env_ok_def)[1])+

locale db_service =
  fixes pg :: postgres
    and call :: "'a \<Rightarrow> call_env \<Rightarrow> database \<Rightarrow> 'r \<times> database"
  assumes call_steps: "calls_ok pg env \<Longrightarrow> db_steps pg db (snd (call a env db))"
begin

lemma call_keeps:
  assumes "calls_ok pg env"
  shows "db_inv pg db \<Longrightarrow> db_inv pg (snd (call a env db))"
    and "facts_grow db (snd (call a env db))"
    and "refresh_revoked hash db \<Longrightarrow> refresh_revoked hash (snd (call a env db))"
    and "token_revoked hash db \<Longrightarrow> token_revoked hash (snd (call a env db))"
proof -
  have path: "db_steps pg db (snd (call a env db))"
    by (rule call_steps) (rule assms)
  show "db_inv pg db \<Longrightarrow> db_inv pg (snd (call a env db))"
    by (rule db_steps_inv [OF path])
  show "facts_grow db (snd (call a env db))"
    by (rule db_steps_facts [OF path])
  show "refresh_revoked hash db \<Longrightarrow> refresh_revoked hash (snd (call a env db))"
    "token_revoked hash db \<Longrightarrow> token_revoked hash (snd (call a env db))"
    by (rule db_steps_revoked [OF path], assumption)+
qed

end

end
