(* ===== verification/Auth_Service.thy ===== *)
theory Auth_Service
  imports Statements Sha256 Messages
begin

text \<open>
  \<^verbatim>\<open>backend/internal/auth/service.go\<close>: registration, login, refresh tokens and access
  tokens. Access tokens are signed JWTs, computed here byte by byte; refresh tokens are random
  and stored as keyed hashes. Arguments of the model: bcrypt (\<open>generate\<close>, \<open>compare\<close>), the
  Unicode case table, the random source, the clock (\<open>clock n\<close> is the n-th \<open>time.Now()\<close> of a
  call) and the statements' environment.
\<close>

section \<open>Data\<close>

datatype auth_error = ErrInvalidCredentials | ErrEmailTaken | ErrUnauthorized | AuthError string

record User =
  usr_ID :: string
  usr_Email :: string

record Tokens =
  tok_AccessToken :: string
  tok_RefreshToken :: string
  tok_RefreshExpiresAt :: int

record auth_Service =
  as_accessSecret :: "byte list"
  as_refreshSecret :: "byte list"
  as_accessTTL :: int
  as_refreshTTL :: int

definition auth_NewService :: "string \<Rightarrow> string \<Rightarrow> int \<Rightarrow> int \<Rightarrow> auth_Service" where
  "auth_NewService accessSecret refreshSecret accessTTL refreshTTL =
     \<lparr>as_accessSecret = bytes_of accessSecret, as_refreshSecret = bytes_of refreshSecret,
      as_accessTTL = accessTTL, as_refreshTTL = refreshTTL\<rparr>"

definition normalizeEmail :: "(string \<Rightarrow> string) \<Rightarrow> string \<Rightarrow> string" where
  "normalizeEmail uni email = ToLower uni (TrimSpace email)"

definition validEmail :: "string \<Rightarrow> bool" where
  "validEmail email \<longleftrightarrow> length email \<le> 320 \<and> length (filter (\<lambda>c. c = CHR ''@'') email) = 1
     \<and> \<not> HasPrefix email ''@'' \<and> \<not> HasSuffix email ''@''"

definition randomToken :: "string + byte list \<Rightarrow> string + string" where
  "randomToken random = (case random of Inl e \<Rightarrow> Inl e | Inr b \<Rightarrow> Inr (RawURL_EncodeToString b))"

definition hashToken :: "string \<Rightarrow> byte list \<Rightarrow> string" where
  "hashToken raw secret = RawURL_EncodeToString (hmac_sha256 secret (bytes_of raw))"

section \<open>Access tokens\<close>

record claims =
  cl_Subject :: string
  cl_Type :: string
  cl_IssuedAt :: int
  cl_ExpiresAt :: int

definition claims_json :: "claims \<Rightarrow> json" where
  "claims_json c = JObj [(''sub'', JStr (cl_Subject c)), (''type'', JStr (cl_Type c)),
     (''iat'', JNum (show_int (cl_IssuedAt c))), (''exp'', JNum (show_int (cl_ExpiresAt c)))]"

definition claims_struct :: "claims struct" where
  "claims_struct =
     [(''sub'', set_string (\<lambda>x s. s\<lparr>cl_Subject := x\<rparr>)), (''type'', set_string (\<lambda>x s. s\<lparr>cl_Type := x\<rparr>)),
      (''iat'', set_int (\<lambda>x s. s\<lparr>cl_IssuedAt := x\<rparr>)), (''exp'', set_int (\<lambda>x s. s\<lparr>cl_ExpiresAt := x\<rparr>))]"

definition zero_claims :: claims where
  "zero_claims = \<lparr>cl_Subject = [], cl_Type = [], cl_IssuedAt = 0, cl_ExpiresAt = 0\<rparr>"

definition jwt_header :: string where
  "jwt_header = ''{'' @ [quote] @ ''alg'' @ [quote] @ '':'' @ [quote] @ ''HS256'' @ [quote] @ '',''
     @ [quote] @ ''typ'' @ [quote] @ '':'' @ [quote] @ ''JWT'' @ [quote] @ ''}''"

definition signJWT :: "claims \<Rightarrow> byte list \<Rightarrow> string" where
  "signJWT c secret =
     (let header = RawURL_EncodeToString (bytes_of jwt_header);
          payload = Marshal (claims_json c);
          encoded = header @ ''.'' @ RawURL_EncodeToString payload
      in encoded @ ''.'' @ RawURL_EncodeToString (hmac_sha256 secret (bytes_of encoded)))"

definition verifyJWT :: "string \<Rightarrow> byte list \<Rightarrow> claims option" where
  "verifyJWT raw secret =
     (case SplitByte CHR ''.'' raw of
        [p0, p1, p2] \<Rightarrow>
          (let mac = hmac_sha256 secret (bytes_of (p0 @ ''.'' @ p1)) in
           case RawURL_DecodeString p2 of
             None \<Rightarrow> None
           | Some sig \<Rightarrow>
               if mac \<noteq> sig then None
               else
                 (case RawURL_DecodeString p1 of
                    None \<Rightarrow> None
                  | Some data \<Rightarrow> Unmarshal claims_struct data zero_claims))
      | _ \<Rightarrow> None)"

definition time_Unix :: "int \<Rightarrow> int" where
  "time_Unix t = t div Second - 62135596800"

section \<open>Operations\<close>

definition issue ::
    "auth_Service \<Rightarrow> postgres \<Rightarrow> (nat \<Rightarrow> int) \<Rightarrow> string + byte list \<Rightarrow> string \<Rightarrow> string \<Rightarrow> string
      \<Rightarrow> step_env \<Rightarrow> database \<Rightarrow> (auth_error + Tokens) \<times> database" where
  "issue svc pg clock random userID userAgent ip env db =
     (let access = signJWT \<lparr>cl_Subject = userID, cl_Type = ''access'', cl_IssuedAt = time_Unix (clock 0),
                     cl_ExpiresAt = time_Unix (clock 1 + as_accessTTL svc)\<rparr> (as_accessSecret svc)
      in case randomToken random of
           Inl e \<Rightarrow> (Inl (AuthError e), db)
         | Inr refreshRaw \<Rightarrow>
             let expires = clock 2 + as_refreshTTL svc
             in (case exec env (insert_refresh pg userID (hashToken refreshRaw (as_refreshSecret svc)) expires userAgent ip) db of
                   (Inl e, db) \<Rightarrow> (Inl (AuthError (''store refresh token: '' @ db_message pg e)), db)
                 | (Inr _, db) \<Rightarrow> (Inr \<lparr>tok_AccessToken = access, tok_RefreshToken = refreshRaw,
                                      tok_RefreshExpiresAt = expires\<rparr>, db)))"

definition auth_Register ::
    "postgres \<Rightarrow> (string \<Rightarrow> string) \<Rightarrow> (string \<Rightarrow> string + string) \<Rightarrow> string \<Rightarrow> string
      \<Rightarrow> call_env \<Rightarrow> database \<Rightarrow> (auth_error + User) \<times> database" where
  "auth_Register pg uni generate email password env db =
     (let email = normalizeEmail uni email in
      if \<not> validEmail email \<or> length password < 10 then (Inl (AuthError ''invalid registration data''), db)
      else
        case generate password of
          Inl e \<Rightarrow> (Inl (AuthError (''hash password: '' @ e)), db)
        | Inr hash \<Rightarrow>
            (case exec (env 0) (insert_user pg email hash) db of
               (Inl e, db) \<Rightarrow>
                 (if Contains (db_message pg e) ''users_email_key'' then (Inl ErrEmailTaken, db)
                  else (Inl (AuthError (''create user: '' @ db_message pg e)), db))
             | (Inr (i, e), db) \<Rightarrow> (Inr \<lparr>usr_ID = i, usr_Email = e\<rparr>, db)))"

definition auth_Login ::
    "auth_Service \<Rightarrow> postgres \<Rightarrow> (string \<Rightarrow> string) \<Rightarrow> (string \<Rightarrow> string \<Rightarrow> bool) \<Rightarrow> (nat \<Rightarrow> int) \<Rightarrow> string + byte list
      \<Rightarrow> string \<Rightarrow> string \<Rightarrow> string \<Rightarrow> string \<Rightarrow> call_env \<Rightarrow> database \<Rightarrow> (auth_error + User \<times> Tokens) \<times> database" where
  "auth_Login svc pg uni compare clock random email password userAgent ip env db =
     (let email = normalizeEmail uni email in
      case exec (env 0) (select_user_by_email pg email) db of
        (Inl e, db) \<Rightarrow> (Inl ErrInvalidCredentials, db)
      | (Inr u, db) \<Rightarrow>
          if u_status u \<noteq> ''active'' \<or> \<not> compare (u_password_hash u) password then (Inl ErrInvalidCredentials, db)
          else
            (case exec (env 1) (update_login pg (u_id u)) db of
               (Inl e, db) \<Rightarrow> (Inl (AuthError (''update login: '' @ db_message pg e)), db)
             | (Inr _, db) \<Rightarrow>
                 (case issue svc pg clock random (u_id u) userAgent ip (env 2) db of
                    (Inl e, db) \<Rightarrow> (Inl e, db)
                  | (Inr tokens, db) \<Rightarrow> (Inr (\<lparr>usr_ID = u_id u, usr_Email = u_email u\<rparr>, tokens), db))))"

definition auth_Refresh ::
    "auth_Service \<Rightarrow> postgres \<Rightarrow> (nat \<Rightarrow> int) \<Rightarrow> string + byte list \<Rightarrow> string \<Rightarrow> string \<Rightarrow> string
      \<Rightarrow> call_env \<Rightarrow> database \<Rightarrow> (auth_error + User \<times> Tokens) \<times> database" where
  "auth_Refresh svc pg clock random raw userAgent ip env db =
     (if raw = [] then (Inl ErrUnauthorized, db)
      else
        let hash = hashToken raw (as_refreshSecret svc)
        in case exec (env 0) (select_refresh_user pg hash) db of
             (Inl e, db) \<Rightarrow> (Inl ErrUnauthorized, db)
           | (Inr u, db) \<Rightarrow>
               (case exec (env 1) (revoke_used pg hash) db of
                  (Inl e, db) \<Rightarrow> (Inl (AuthError (''revoke used token: '' @ db_message pg e)), db)
                | (Inr _, db) \<Rightarrow>
                    (case issue svc pg clock random (u_id u) userAgent ip (env 2) db of
                       (Inl e, db) \<Rightarrow> (Inl e, db)
                     | (Inr tokens, db) \<Rightarrow> (Inr (\<lparr>usr_ID = u_id u, usr_Email = u_email u\<rparr>, tokens), db))))"

definition auth_Logout ::
    "auth_Service \<Rightarrow> postgres \<Rightarrow> string \<Rightarrow> call_env \<Rightarrow> database \<Rightarrow> db_error option \<times> database" where
  "auth_Logout svc pg raw env db =
     (if raw = [] then (None, db)
      else
        case exec (env 0) (revoke_refresh pg (hashToken raw (as_refreshSecret svc))) db of
          (Inl e, db) \<Rightarrow> (Some e, db)
        | (Inr _, db) \<Rightarrow> (None, db))"

definition UserFromAccessToken ::
    "auth_Service \<Rightarrow> postgres \<Rightarrow> int \<Rightarrow> string \<Rightarrow> step_env \<Rightarrow> database \<Rightarrow> (auth_error + User) \<times> database" where
  "UserFromAccessToken svc pg now token env db =
     (case verifyJWT token (as_accessSecret svc) of
        None \<Rightarrow> (Inl ErrUnauthorized, db)
      | Some c \<Rightarrow>
          if cl_Type c \<noteq> ''access'' \<or> cl_Subject c = [] \<or> cl_ExpiresAt c < time_Unix now then (Inl ErrUnauthorized, db)
          else
            (case exec env (select_active_user pg (cl_Subject c)) db of
               (Inl NoRows, db) \<Rightarrow> (Inl ErrUnauthorized, db)
             | (Inl e, db) \<Rightarrow> (Inl (AuthError (''load current user: '' @ db_message pg e)), db)
             | (Inr u, db) \<Rightarrow> (Inr \<lparr>usr_ID = u_id u, usr_Email = u_email u\<rparr>, db)))"

section \<open>Signing and verifying\<close>

lemma SplitByte_one: "c \<notin> set a \<Longrightarrow> SplitByte c a = [a]"
  by (induction a) auto

lemma SplitByte_first: "c \<notin> set a \<Longrightarrow> SplitByte c (a @ c # b) = a # SplitByte c b"
  by (induction a) auto

lemma RawURL_no_dot: "CHR ''.'' \<notin> set (RawURL_EncodeToString bs)"
  using RawURL_chars [of bs] id_char_plain by (auto simp: list_all_iff)

definition claims_ok :: "claims \<Rightarrow> bool" where
  "claims_ok c \<longleftrightarrow> utf8_valid (cl_Subject c) \<and> utf8_valid (cl_Type c) \<and> int64 (cl_IssuedAt c) \<and> int64 (cl_ExpiresAt c)"

lemma decode_claims:
  assumes "claims_ok c"
  shows "Unmarshal claims_struct (Marshal (claims_json c)) zero_claims = Some c"
proof -
  have ok: "json_ok maxNestingDepth (claims_json c)"
    by (simp add: claims_json_def maxNestingDepth_def)
  show ?thesis
    using assms unfolding Unmarshal_Marshal [OF ok]
    by (simp add: claims_json_def claims_struct_def zero_claims_def decode_struct_def find_field_def
        claims_ok_def utf8_valid_def)
qed

lemma verify_sign: "claims_ok c \<Longrightarrow> verifyJWT (signJWT c secret) secret = Some c"
  by (simp add: verifyJWT_def signJWT_def Let_def SplitByte_first SplitByte_one RawURL_no_dot decode_claims)

lemma verifyJWT_Some:
  "verifyJWT raw secret = Some c \<longleftrightarrow>
     (\<exists>p0 p1 p2 data. SplitByte CHR ''.'' raw = [p0, p1, p2]
        \<and> RawURL_DecodeString p2 = Some (hmac_sha256 secret (bytes_of (p0 @ ''.'' @ p1)))
        \<and> RawURL_DecodeString p1 = Some data \<and> Unmarshal claims_struct data zero_claims = Some c)"
  by (auto simp: verifyJWT_def Let_def split: list.splits option.splits)

section \<open>The calls as database services\<close>

lemma issue_steps:
  "issue svc pg clock random userID userAgent ip env db = (res, db') \<Longrightarrow> env_ok pg env \<Longrightarrow> db_steps pg db db'"
  by (auto simp: issue_def Let_def split: prod.splits sum.splits dest: exec_paths)

interpretation register: db_service pg "\<lambda>(uni, generate, email, password). auth_Register pg uni generate email password" for pg
  by unfold_locales (auto simp: auth_Register_def Let_def split: prod.splits sum.splits if_splits dest: exec_paths)

interpretation login: db_service pg
    "\<lambda>(svc, uni, compare, clock, random, email, password, userAgent, ip).
       auth_Login svc pg uni compare clock random email password userAgent ip" for pg
  by unfold_locales (auto simp: auth_Login_def Let_def split: prod.splits sum.splits if_splits
      dest!: exec_paths issue_steps intro: rtranclp_trans)

interpretation refresh: db_service pg
    "\<lambda>(svc, clock, random, raw, userAgent, ip). auth_Refresh svc pg clock random raw userAgent ip" for pg
  by unfold_locales (auto simp: auth_Refresh_def Let_def split: prod.splits sum.splits if_splits
      dest!: exec_paths issue_steps intro: rtranclp_trans)

interpretation logout: db_service pg "\<lambda>(svc, raw). auth_Logout svc pg raw" for pg
  by unfold_locales (auto simp: auth_Logout_def split: prod.splits sum.splits if_splits dest: exec_paths)

lemma UserFromAccessToken_steps:
  "UserFromAccessToken svc pg now token env db = (res, db') \<Longrightarrow> env_ok pg env \<Longrightarrow> db_steps pg db db'"
  by (auto simp: UserFromAccessToken_def split: option.splits if_splits prod.splits sum.splits db_error.splits dest: exec_paths)

section \<open>Refresh tokens\<close>

lemma refresh_hashes_stay:
  assumes "facts_grow db db'"
  shows "rt_token_hash ` set (db_refresh_tokens db) \<subseteq> rt_token_hash ` set (db_refresh_tokens db')"
proof -
  have "rt_token_hash ` set (db_refresh_tokens d) = (\<lambda>(_, _, h, _). h) ` refresh_facts d" for d
    by (simp add: refresh_facts_def image_image)
  moreover have "refresh_facts db \<subseteq> refresh_facts db'"
    using assms by (simp add: facts_grow_def)
  ultimately show ?thesis
    by (simp only: image_mono)
qed

lemma map_filter_head:
  "List.map_filter f xs = u # us \<Longrightarrow> \<exists>x \<in> set xs. f x = Some u"
  by (metis list.set_intros(1) set_map_filter_iff image_iff)

lemma select_refresh_user_Inr:
  assumes "exec env (select_refresh_user pg hash) db = (Inr u, db')"
  obtains h r where "pg_text pg hash = Some h" "db' = se_others env db" "r \<in> set (db_refresh_tokens db')"
    "refresh_live h (se_now env) r" "active_user db' (rt_user_id r) = Some u"
proof -
  from assms obtain h where h: "pg_text pg hash = Some h" "db' = se_others env db"
    and "\<exists>us. List.map_filter (\<lambda>r. active_user db' (rt_user_id r)) (filter (refresh_live h (se_now env)) (db_refresh_tokens db')) = u # us"
    by (auto simp: exec_Inr select_refresh_user_def with_defs split: option.splits list.splits)
  then show thesis
    using that [OF h] map_filter_head by fastforce
qed

lemma revoked_not_selected:
  assumes "refresh_revoked h (se_others env db)" "pg_text pg hash = Some h"
  shows "\<exists>e. fst (exec env (select_refresh_user pg hash) db) = Inl e"
proof (cases "exec env (select_refresh_user pg hash) db")
  case (Pair res db')
  show ?thesis
  proof (cases res)
    case (Inr u)
    with Pair obtain r where "r \<in> set (db_refresh_tokens (se_others env db))" "refresh_live h (se_now env) r"
      using assms(2) by (auto elim!: select_refresh_user_Inr)
    with assms(1) show ?thesis
      by (auto simp: refresh_revoked_def refresh_live_def list_all_iff)
  qed (simp add: Pair)
qed

lemma select_refresh_user_hashes:
  assumes "exec env (select_refresh_user pg hash) db = (Inr u, db')" "pg_text pg hash = Some h" "facts_grow db' db2"
  shows "h \<in> rt_token_hash ` set (db_refresh_tokens db2)"
proof -
  from assms(1,2) obtain r where "r \<in> set (db_refresh_tokens db')" "refresh_live h (se_now env) r"
    by (auto elim!: select_refresh_user_Inr)
  then have "h \<in> rt_token_hash ` set (db_refresh_tokens db')"
    by (simp add: refresh_live_def image_iff) blast
  then show ?thesis
    using refresh_hashes_stay [OF assms(3)] by blast
qed

lemma revoke_executed:
  assumes "se_run env = Db_Ok \<or> se_run env = Db_Lost m" "pg_text pg hash = Some h"
    "h \<in> rt_token_hash ` set (db_refresh_tokens (se_others env db))"
  shows "refresh_revoked h (snd (exec env (revoke_used pg hash) db))"
proof -
  have db': "db_refresh_tokens (snd (exec env (revoke_used pg hash) db))
      = update_rows (\<lambda>r. rt_token_hash r = h) (\<lambda>r. r\<lparr>rt_revoked_at := Some (se_now env)\<rparr>)
      (db_refresh_tokens (se_others env db))"
    using assms(1,2) by (auto simp: exec_def Let_def revoke_used_def with_defs)
  have "rt_token_hash ` set (db_refresh_tokens (snd (exec env (revoke_used pg hash) db)))
      = rt_token_hash ` set (db_refresh_tokens (se_others env db))"
    unfolding db' by (rule image_update_rows) simp
  moreover have "list_all (\<lambda>r. rt_token_hash r = h \<longrightarrow> rt_revoked_at r \<noteq> None)
      (db_refresh_tokens (snd (exec env (revoke_used pg hash) db)))"
    unfolding db' update_rows_def list.pred_map by (simp add: list_all_iff)
  ultimately show ?thesis
    using assms(3) by (simp add: refresh_revoked_def)
qed

lemma Refresh_revokes:
  assumes ref: "auth_Refresh svc pg clock random raw userAgent ip env db = (res, db')" "res \<noteq> Inl ErrUnauthorized"
    and env: "calls_ok pg env" and run: "se_run (env 1) = Db_Ok \<or> se_run (env 1) = Db_Lost m"
  obtains h where "pg_text pg (hashToken raw (as_refreshSecret svc)) = Some h" "refresh_revoked h db'" "raw \<noteq> []"
proof -
  let ?hash = "hashToken raw (as_refreshSecret svc)"
  have raw: "raw \<noteq> []"
    using ref by (auto simp: auth_Refresh_def)
  obtain r1 db1 where s1: "exec (env 0) (select_refresh_user pg ?hash) db = (r1, db1)"
    by fastforce
  with ref raw obtain u where r1: "r1 = Inr u"
    by (cases r1) (auto simp: auth_Refresh_def Let_def)
  obtain h where h: "pg_text pg ?hash = Some h"
    using s1 r1 by (auto elim: select_refresh_user_Inr)
  have "db_steps pg db1 (se_others (env 1) db1)"
    using calls_okD [OF env] by (simp add: env_ok_def)
  then have "h \<in> rt_token_hash ` set (db_refresh_tokens (se_others (env 1) db1))"
    by (rule select_refresh_user_hashes [OF s1 [unfolded r1] h db_steps_facts])
  then have rev: "refresh_revoked h (snd (exec (env 1) (revoke_used pg ?hash) db1))"
    by (rule revoke_executed [OF run h])
  obtain r2 db2 where s2: "exec (env 1) (revoke_used pg ?hash) db1 = (r2, db2)"
    by fastforce
  have "db_steps pg db2 db'"
    using ref(1) raw s1 r1 s2 calls_okD [OF env, of 2]
    by (auto simp: auth_Refresh_def Let_def split: sum.splits prod.splits dest: issue_steps)
  then have "refresh_revoked h db'"
    using db_steps_revoked(1) rev s2 by simp
  then show thesis
    using that h raw by blast
qed

text \<open>
  C15: A refresh token works once. When a refresh was not refused, even if it failed later on,
  the token it was made with is refused for ever: whatever statements of whatever calls have run
  since, and whatever runs concurrently with the next attempt. The only exception is a
  connection that broke before the statement that revokes the token reached the database.
\<close>

theorem refresh_token_single_use:
  assumes "auth_Refresh svc pg clock random raw userAgent ip env db = (res, db')" "res \<noteq> Inl ErrUnauthorized"
    and "calls_ok pg env" and "se_run (env 1) = Db_Ok \<or> se_run (env 1) = Db_Lost m"
    and "db_steps pg db' later_db" and "calls_ok pg env2"
  shows "fst (auth_Refresh svc pg clock2 random2 raw userAgent2 ip2 env2 later_db) = Inl ErrUnauthorized"
proof -
  obtain h where h: "pg_text pg (hashToken raw (as_refreshSecret svc)) = Some h" "refresh_revoked h db'" "raw \<noteq> []"
    using Refresh_revokes [OF assms(1-4)] by blast
  have "db_steps pg db' (se_others (env2 0) later_db)"
    using assms(5) calls_okD [OF assms(6), of 0] by (auto simp: env_ok_def intro: rtranclp_trans)
  then have "refresh_revoked h (se_others (env2 0) later_db)"
    using db_steps_revoked(1) h(2) by blast
  then obtain e where "fst (exec (env2 0) (select_refresh_user pg (hashToken raw (as_refreshSecret svc))) later_db) = Inl e"
    using revoked_not_selected h(1) by blast
  then show ?thesis
    using h(3) by (auto simp: auth_Refresh_def Let_def split: prod.splits sum.splits)
qed

definition example_pg :: postgres where
  "example_pg = \<lparr>pg_uuid = Some, pg_inet = Some, pg_varchar = (\<lambda>n s. if length s \<le> n then Some s else None),
     pg_text = Some, pg_refusal = ''ERROR: refused''\<rparr>"

definition example_svc :: auth_Service where
  "example_svc = auth_NewService ''access-secret'' ''refresh-secret'' (15 * Minute) (43200 * Minute)"

definition quiet_at :: "int \<Rightarrow> step_env" where
  "quiet_at now = \<lparr>se_others = id, se_now = now, se_uuid = ''b2c1'', se_run = Db_Ok\<rparr>"

lemma quiet_at_ok: "env_ok example_pg (quiet_at now)"
  by (simp add: env_ok_def quiet_at_def canonical_def example_pg_def)

definition example_user :: user_row where
  "example_user = \<lparr>u_id = ''a1'', u_email = ''ann@example.test'', u_password_hash = ''hash'', u_status = ''active'',
     u_created_at = 0, u_updated_at = 0, u_last_login_at = None\<rparr>"

definition example_db :: "string \<Rightarrow> database" where
  "example_db raw = empty_database\<lparr>db_users := [example_user], db_refresh_tokens :=
     [\<lparr>rt_id = ''r1'', rt_user_id = ''a1'', rt_token_hash = hashToken raw (as_refreshSecret example_svc),
       rt_expires_at = 5000, rt_revoked_at = None, rt_created_at = 0, rt_user_agent = [], rt_ip_address = None\<rparr>]\<rparr>"

lemmas example_auth_defs = example_pg_def quiet_at_def example_user_def example_db_def empty_database_def

theorem refresh_token_single_use_witness:
  "fst (auth_Refresh example_svc example_pg (\<lambda>_. 0) (Inl ''no entropy'') ''abc'' [] [] (\<lambda>_. quiet_at 1000) (example_db ''abc''))
     = Inl (AuthError ''no entropy'')
   \<and> fst (auth_Refresh example_svc example_pg (\<lambda>_. 0) (Inr [7]) ''abc'' [] [] (\<lambda>_. quiet_at 2000)
       (snd (auth_Refresh example_svc example_pg (\<lambda>_. 0) (Inl ''no entropy'') ''abc'' [] [] (\<lambda>_. quiet_at 1000) (example_db ''abc''))))
     = Inl ErrUnauthorized"
proof -
  let ?first = "auth_Refresh example_svc example_pg (\<lambda>_. 0) (Inl ''no entropy'') ''abc'' [] [] (\<lambda>_. quiet_at 1000) (example_db ''abc'')"
  have first: "fst ?first = Inl (AuthError ''no entropy'')"
    by (simp add: auth_Refresh_def Let_def exec_def select_refresh_user_def revoke_used_def with_defs refresh_live_def
        List.map_filter_simps active_user_def issue_def randomToken_def example_auth_defs)
  have "?first = (Inl (AuthError ''no entropy''), snd ?first)"
    using first by (metis prod.collapse)
  then have "fst (auth_Refresh example_svc example_pg (\<lambda>_. 0) (Inr [7]) ''abc'' [] [] (\<lambda>_. quiet_at 2000) (snd ?first))
      = Inl ErrUnauthorized"
    by (rule refresh_token_single_use) (simp_all add: quiet_at_ok calls_ok_def, simp add: quiet_at_def)
  with first show ?thesis by blast
qed



section \<open>Signing in\<close>

text \<open>
  What PostgreSQL documents of the types: a VARCHAR(n) keeps a text of at most n bytes that it
  accepts, TEXT keeps every text it accepts, and the text it writes for a UUID reads back.
\<close>

definition pg_keeps :: "postgres \<Rightarrow> bool" where
  "pg_keeps pg \<longleftrightarrow> (\<forall>n s t. pg_varchar pg n s = Some t \<longrightarrow> length s \<le> n \<longrightarrow> t = s \<and> pg_text pg s = Some s)
     \<and> (\<forall>s t. pg_text pg s = Some t \<longrightarrow> t = s) \<and> (\<forall>s i. pg_uuid pg s = Some i \<longrightarrow> canonical pg i)"

lemma find_active:
  assumes "distinct (map u_id us)" "u \<in> set us" "u_status u = ''active''"
  shows "find (\<lambda>v. u_id v = u_id u \<and> u_status v = ''active'') us = Some u"
  using assms by (induction us) (auto simp: image_iff)

lemma UserFromAccessToken_signed:
  assumes "claims_ok c" "cl_Type c = ''access''" "cl_Subject c \<noteq> []" "time_Unix now \<le> cl_ExpiresAt c"
    and "quiet env" "canonical pg (cl_Subject c)" "active_user db (cl_Subject c) = Some u"
  shows "UserFromAccessToken svc pg now (signJWT c (as_accessSecret svc)) env db
      = (Inr \<lparr>usr_ID = u_id u, usr_Email = u_email u\<rparr>, db)"
  using assms
  by (simp add: UserFromAccessToken_def verify_sign exec_quiet select_active_user_def with_defs canonical_def)

lemma insert_user_Inr:
  "insert_user pg email hash now uuid db = Inr ((i, e), db') \<Longrightarrow>
     (\<exists>h. pg_varchar pg 320 email = Some e \<and> pg_text pg hash = Some h
        \<and> (\<forall>u \<in> set (db_users db). u_id u \<noteq> uuid \<and> u_email u \<noteq> e) \<and> i = uuid
        \<and> db' = db\<lparr>db_users := db_users db @ [\<lparr>u_id = uuid, u_email = e, u_password_hash = h, u_status = ''active'',
             u_created_at = now, u_updated_at = now, u_last_login_at = None\<rparr>]\<rparr>)"
  unfolding insert_user_def with_defs
  by (auto simp: insert_row_Inr same_def split: option.splits sum.splits)

lemma Register_Inr:
  assumes "auth_Register pg uni generate email password env db = (Inr user, db')" "quiet (env 0)" "pg_keeps pg"
  obtains hash where "generate password = Inr hash" "10 \<le> length password"
    "length (normalizeEmail uni email) \<le> 320" "pg_text pg (normalizeEmail uni email) = Some (normalizeEmail uni email)"
    "user = \<lparr>usr_ID = se_uuid (env 0), usr_Email = normalizeEmail uni email\<rparr>"
    "\<forall>u \<in> set (db_users db). u_id u \<noteq> se_uuid (env 0) \<and> u_email u \<noteq> normalizeEmail uni email"
    "db' = db\<lparr>db_users := db_users db @ [\<lparr>u_id = se_uuid (env 0), u_email = normalizeEmail uni email,
       u_password_hash = hash, u_status = ''active'', u_created_at = se_now (env 0), u_updated_at = se_now (env 0),
       u_last_login_at = None\<rparr>]\<rparr>"
proof -
  obtain hash i e where g: "generate password = Inr hash" "10 \<le> length password" "validEmail (normalizeEmail uni email)"
    and x: "exec (env 0) (insert_user pg (normalizeEmail uni email) hash) db = (Inr (i, e), db')" "user = \<lparr>usr_ID = i, usr_Email = e\<rparr>"
    using assms(1) by (auto simp: auth_Register_def Let_def split: if_splits sum.splits prod.splits)
  have len: "length (normalizeEmail uni email) \<le> 320"
    using g(3) by (simp add: validEmail_def)
  have ins: "insert_user pg (normalizeEmail uni email) hash (se_now (env 0)) (se_uuid (env 0)) db = Inr ((i, e), db')"
    using x(1) assms(2) by (simp add: exec_Inr quiet_def)
  obtain h where e: "pg_varchar pg 320 (normalizeEmail uni email) = Some e" and h: "pg_text pg hash = Some h"
    and new: "\<forall>u \<in> set (db_users db). u_id u \<noteq> se_uuid (env 0) \<and> u_email u \<noteq> e" "i = se_uuid (env 0)"
      "db' = db\<lparr>db_users := db_users db @ [\<lparr>u_id = se_uuid (env 0), u_email = e,
         u_password_hash = h, u_status = ''active'', u_created_at = se_now (env 0), u_updated_at = se_now (env 0),
         u_last_login_at = None\<rparr>]\<rparr>"
    using insert_user_Inr [OF ins] by blast
  have "e = normalizeEmail uni email" "pg_text pg (normalizeEmail uni email) = Some (normalizeEmail uni email)" "h = hash"
    using assms(3) e h len unfolding pg_keeps_def by blast+
  then show thesis
    using that [OF g(1,2) len] new x(2) by simp
qed

lemma insert_row_fresh:
  assumes "\<And>n clash r. (n, clash) \<in> set cs \<Longrightarrow> r \<in> set rows \<Longrightarrow> \<not> clash row r"
  shows "insert_row cs row rows = Inr (rows @ [row])"
  using assms by (subst insert_row_Inr) auto

lemma find_snoc: "(\<And>x. x \<in> set xs \<Longrightarrow> \<not> P x) \<Longrightarrow> P y \<Longrightarrow> find P (xs @ [y]) = Some y"
  by (induction xs) auto

lemma issue_fresh:
  assumes "quiet env" "canonical pg i" "i \<in> u_id ` set (db_users db)" "random = Inr bytes"
    and "pg_text pg (hashToken (RawURL_EncodeToString bytes) (as_refreshSecret svc)) = Some h"
    and "h \<notin> rt_token_hash ` set (db_refresh_tokens db)" "se_uuid env \<notin> rt_id ` set (db_refresh_tokens db)"
    and "pg_text pg userAgent = Some ua" "nullif_inet pg ip = Some ip'"
  shows "\<exists>row. issue svc pg clock random i userAgent ip env db =
     (Inr \<lparr>tok_AccessToken = signJWT \<lparr>cl_Subject = i, cl_Type = ''access'', cl_IssuedAt = time_Unix (clock 0),
              cl_ExpiresAt = time_Unix (clock 1 + as_accessTTL svc)\<rparr> (as_accessSecret svc),
           tok_RefreshToken = RawURL_EncodeToString bytes, tok_RefreshExpiresAt = clock 2 + as_refreshTTL svc\<rparr>,
      db\<lparr>db_refresh_tokens := db_refresh_tokens db @ [row]\<rparr>)"
proof -
  let ?row = "\<lparr>rt_id = se_uuid env, rt_user_id = i, rt_token_hash = h, rt_expires_at = pg_time (clock 2 + as_refreshTTL svc),
      rt_revoked_at = None, rt_created_at = se_now env, rt_user_agent = ua, rt_ip_address = ip'\<rparr>"
  have "insert_row [(''refresh_tokens_pkey'', same rt_id), (''refresh_tokens_token_hash_key'', same rt_token_hash)]
      ?row (db_refresh_tokens db) = Inr (db_refresh_tokens db @ [?row])"
    using assms(6,7) by (intro insert_row_fresh) (auto simp: same_def)
  then show ?thesis
    using assms(1-5,8,9)
    by (intro exI [of _ ?row])
      (simp add: issue_def randomToken_def exec_quiet insert_refresh_def with_defs canonical_def Let_def)
qed

text \<open>
  C19: Who has registered can sign in, with any spelling of the address that normalises to the
  same, and the access token the login returns identifies that user until it expires. bcrypt is
  assumed to accept the hash it made of a password, for that password.
\<close>

theorem registered_user_signs_in:
  assumes reg: "auth_Register pg uni generate email password envR db = (Inr user, db1)"
    and pg: "pg_keeps pg" "canonical pg (se_uuid (envR 0))" "utf8_valid (se_uuid (envR 0))" "se_uuid (envR 0) \<noteq> []"
    and quiet: "quiet (envR 0)" "\<And>n. quiet (envL n)" "quiet envM"
    and bcrypt: "\<And>p h. generate p = Inr h \<Longrightarrow> compare h p"
    and email: "normalizeEmail uni email2 = normalizeEmail uni email"
    and random: "random = Inr bytes"
      "pg_text pg (hashToken (RawURL_EncodeToString bytes) (as_refreshSecret svc)) = Some h"
      "h \<notin> rt_token_hash ` set (db_refresh_tokens db)" "se_uuid (envL 2) \<notin> rt_id ` set (db_refresh_tokens db)"
    and client: "pg_text pg userAgent = Some ua" "nullif_inet pg ip = Some ip'"
    and times: "int64 (time_Unix (clock 0))" "int64 (time_Unix (clock 1 + as_accessTTL svc))"
      "time_Unix now \<le> time_Unix (clock 1 + as_accessTTL svc)"
  shows "\<exists>tokens db2. auth_Login svc pg uni compare clock random email2 password userAgent ip envL db1 = (Inr (user, tokens), db2)
     \<and> UserFromAccessToken svc pg now (tok_AccessToken tokens) envM db2 = (Inr user, db2)"
proof -
  let ?i = "se_uuid (envR 0)" and ?e = "normalizeEmail uni email"
  obtain hash where hash: "generate password = Inr hash" and e: "pg_text pg ?e = Some ?e"
    and user: "user = \<lparr>usr_ID = ?i, usr_Email = ?e\<rparr>"
    and new: "\<forall>u \<in> set (db_users db). u_id u \<noteq> ?i \<and> u_email u \<noteq> ?e"
    and db1: "db1 = db\<lparr>db_users := db_users db @ [\<lparr>u_id = ?i, u_email = ?e,
       u_password_hash = hash, u_status = ''active'', u_created_at = se_now (envR 0), u_updated_at = se_now (envR 0),
       u_last_login_at = None\<rparr>]\<rparr>"
    using Register_Inr [OF reg quiet(1) pg(1)] by metis
  let ?row = "\<lparr>u_id = ?i, u_email = ?e, u_password_hash = hash, u_status = ''active'',
      u_created_at = se_now (envR 0), u_updated_at = se_now (envR 0), u_last_login_at = None\<rparr>"
  let ?row' = "?row\<lparr>u_last_login_at := Some (se_now (envL 1)), u_updated_at := se_now (envL 1)\<rparr>"
  let ?db2 = "db\<lparr>db_users := db_users db @ [?row']\<rparr>"
  have sel: "exec (envL 0) (select_user_by_email pg ?e) db1 = (Inr ?row, db1)"
    using new by (simp add: exec_quiet quiet(2) select_user_by_email_def with_defs e db1 find_snoc)
  have "update_rows (\<lambda>u. u_id u = ?i) f (db_users db @ [?row]) = db_users db @ [f ?row]" for f
    using new by (simp add: update_rows_def map_idI)
  then have upd: "exec (envL 1) (update_login pg ?i) db1 = (Inr (), ?db2)"
    using pg(2) by (simp add: exec_quiet quiet(2) update_login_def with_defs canonical_def db1)
  obtain row where iss: "issue svc pg clock random ?i userAgent ip (envL 2) ?db2 =
      (Inr \<lparr>tok_AccessToken = signJWT \<lparr>cl_Subject = ?i, cl_Type = ''access'', cl_IssuedAt = time_Unix (clock 0),
              cl_ExpiresAt = time_Unix (clock 1 + as_accessTTL svc)\<rparr> (as_accessSecret svc),
           tok_RefreshToken = RawURL_EncodeToString bytes, tok_RefreshExpiresAt = clock 2 + as_refreshTTL svc\<rparr>,
      ?db2\<lparr>db_refresh_tokens := db_refresh_tokens ?db2 @ [row]\<rparr>)"
    using issue_fresh [of "envL 2" pg ?i ?db2 random bytes svc h userAgent ua ip ip' clock] quiet(2) pg(2) random client by auto
  have "active_user (?db2\<lparr>db_refresh_tokens := db_refresh_tokens ?db2 @ [row]\<rparr>) ?i = Some ?row'"
    using new by (simp add: active_user_def find_snoc)
  then have "UserFromAccessToken svc pg now (signJWT \<lparr>cl_Subject = ?i, cl_Type = ''access'', cl_IssuedAt = time_Unix (clock 0),
              cl_ExpiresAt = time_Unix (clock 1 + as_accessTTL svc)\<rparr> (as_accessSecret svc)) envM
       (?db2\<lparr>db_refresh_tokens := db_refresh_tokens ?db2 @ [row]\<rparr>)
      = (Inr user, ?db2\<lparr>db_refresh_tokens := db_refresh_tokens ?db2 @ [row]\<rparr>)"
    using pg times quiet(3)
    by (subst UserFromAccessToken_signed [where u = ?row'])
      (simp_all add: claims_ok_def utf8_valid_ascii list_all_iff is_ascii_def user)
  then show ?thesis
    using sel upd iss bcrypt [OF hash] by (simp add: auth_Login_def email Let_def user)
qed

definition example_clock :: "nat \<Rightarrow> int" where
  "example_clock n = 62135596800 * Second"

lemma example_email: "normalizeEmail id '' Ann@Example.Test'' = ''ann@example.test''"
  "normalizeEmail id ''ANN@example.test'' = ''ann@example.test''"
  by code_simp+

theorem registered_user_signs_in_witness:
  "\<exists>user db1 tokens db2.
     auth_Register example_pg id (\<lambda>p. Inr (''bcrypt '' @ p)) '' Ann@Example.Test'' ''correct horse'' (\<lambda>_. quiet_at 0) empty_database
       = (Inr user, db1)
   \<and> auth_Login example_svc example_pg id (\<lambda>h p. h = ''bcrypt '' @ p) example_clock (Inr [1, 2, 3]) ''ANN@example.test''
       ''correct horse'' [] [] (\<lambda>_. quiet_at 1) db1 = (Inr (user, tokens), db2)
   \<and> UserFromAccessToken example_svc example_pg (example_clock 0) (tok_AccessToken tokens) (quiet_at 2) db2 = (Inr user, db2)"
proof -
  obtain user db1 where reg: "auth_Register example_pg id (\<lambda>p. Inr (''bcrypt '' @ p)) '' Ann@Example.Test'' ''correct horse''
      (\<lambda>_. quiet_at 0) empty_database = (Inr user, db1)"
    by (simp add: auth_Register_def Let_def example_email validEmail_def HasPrefix_def HasSuffix_def exec_def insert_user_def
        with_defs insert_row_def example_auth_defs)
  have "\<exists>tokens db2. auth_Login example_svc example_pg id (\<lambda>h p. h = ''bcrypt '' @ p) example_clock (Inr [1, 2, 3])
       ''ANN@example.test'' ''correct horse'' [] [] (\<lambda>_. quiet_at 1) db1 = (Inr (user, tokens), db2)
     \<and> UserFromAccessToken example_svc example_pg (example_clock 0) (tok_AccessToken tokens) (quiet_at 2) db2 = (Inr user, db2)"
  proof (rule registered_user_signs_in [OF reg])
    show "pg_keeps example_pg" by (auto simp: pg_keeps_def example_pg_def canonical_def)
    show "utf8_valid (se_uuid (quiet_at 0))"
      by (simp add: quiet_at_def utf8_valid_ascii is_ascii_def)
    show "nullif_inet example_pg [] = Some None" by (simp add: nullif_inet_def)
  qed (auto simp: example_email quiet_def canonical_def example_auth_defs int64_def maxInt64_def time_Unix_def example_clock_def
      example_svc_def auth_NewService_def Minute_def Second_def)
  with reg show ?thesis by blast
qed

end
