(* ===== verification/Web_Api.thy ===== *)
theory Web_Api
  imports Go_Http Store
begin

text \<open>
  What the handlers under \<^verbatim>\<open>/api/v1/\<close> share: the JSON envelopes, reading a JSON body, the
  bearer token, and cookies as \<open>net/http\<close> reads and writes them. The packages \<open>auth\<close>,
  \<open>agenttokens\<close>, \<open>agents\<close>, \<open>tunnels\<close> and \<open>traffic\<close> each have a copy of \<open>writeData\<close> and
  \<open>writeError\<close>; the copies are identical.

  A body is given as its bytes and how it ended. Handlers that read a body do so after it has
  arrived; the model says nothing about a client that never finishes sending.
\<close>

section \<open>Times\<close>

text \<open>\<open>time.Time.UTC().Format(http.TimeFormat)\<close>; a time counts from the first of January of year 1.\<close>

definition day_names :: "string list" where
  "day_names = [''Mon'', ''Tue'', ''Wed'', ''Thu'', ''Fri'', ''Sat'', ''Sun'']"

definition month_names :: "string list" where
  "month_names = [''Jan'', ''Feb'', ''Mar'', ''Apr'', ''May'', ''Jun'', ''Jul'', ''Aug'', ''Sep'', ''Oct'', ''Nov'', ''Dec'']"

definition leap_year :: "nat \<Rightarrow> bool" where
  "leap_year y \<longleftrightarrow> y mod 4 = 0 \<and> (y mod 100 \<noteq> 0 \<or> y mod 400 = 0)"

definition month_lengths :: "nat \<Rightarrow> nat list" where
  "month_lengths y = [31, if leap_year y then 29 else 28, 31, 30, 31, 30, 31, 31, 30, 31, 30, 31]"

fun month_day :: "nat list \<Rightarrow> nat \<Rightarrow> nat \<times> nat" where
  "month_day [] d = (0, d)"
| "month_day (l # ls) d = (if d < l then (0, d) else apfst Suc (month_day ls (d - l)))"

definition year_day :: "nat \<Rightarrow> nat \<times> nat" where
  "year_day days =
     (let n400 = days div 146097; r = days mod 146097;
          n100 = min 3 (r div 36524); r = r - n100 * 36524;
          n4 = r div 1461; r = r mod 1461;
          n1 = min 3 (r div 365); r = r - n1 * 365
      in (400 * n400 + 100 * n100 + 4 * n4 + n1 + 1, r))"

definition pad :: "nat \<Rightarrow> nat \<Rightarrow> string" where
  "pad w n = (let s = show_nat n in replicate (w - length s) CHR ''0'' @ s)"

definition http_time :: "int \<Rightarrow> string" where
  "http_time t =
     (let secs = nat (t div Second); days = secs div 86400; s = secs mod 86400;
          (y, yd) = year_day days; (m, d) = month_day (month_lengths y) yd
      in day_names ! (days mod 7) @ '', '' @ pad 2 (d + 1) @ '' '' @ month_names ! m @ '' '' @ pad 4 y
         @ '' '' @ pad 2 (s div 3600) @ '':'' @ pad 2 (s div 60 mod 60) @ '':'' @ pad 2 (s mod 60) @ '' GMT'')"

section \<open>Cookies\<close>

definition ascii_space :: "char \<Rightarrow> bool" where
  "ascii_space c \<longleftrightarrow> c = CHR 0x20 \<or> c = CHR 0x09 \<or> c = CHR 0x0A \<or> c = CHR 0x0D"

definition TrimString :: "string \<Rightarrow> string" where
  "TrimString s = rev (dropWhile ascii_space (rev (dropWhile ascii_space s)))"

definition Cut :: "char \<Rightarrow> string \<Rightarrow> string \<times> string" where
  "Cut c s = (takeWhile (\<lambda>x. x \<noteq> c) s, tl (dropWhile (\<lambda>x. x \<noteq> c) s))"

definition is_token :: "string \<Rightarrow> bool" where
  "is_token s \<longleftrightarrow> s \<noteq> [] \<and> list_all token_char s"

definition cookie_byte :: "char \<Rightarrow> bool" where
  "cookie_byte c \<longleftrightarrow> 32 \<le> code c \<and> code c < 127 \<and> c \<noteq> quote \<and> c \<noteq> CHR '';'' \<and> c \<noteq> backslash"

definition parse_cookie_value :: "string \<Rightarrow> string option" where
  "parse_cookie_value raw =
     (let v = (if length raw > 1 \<and> hd raw = quote \<and> last raw = quote then butlast (tl raw) else raw)
      in if list_all cookie_byte v then Some v else None)"

definition cookie_of_part :: "string \<Rightarrow> string \<Rightarrow> string option" where
  "cookie_of_part name part =
     (let (n, v) = Cut CHR ''='' (TrimString part)
      in if is_token (TrimString n) \<and> TrimString n = name then parse_cookie_value v else None)"

text \<open>\<open>r.Cookie(name)\<close>\<close>

definition request_Cookie :: "Header \<Rightarrow> string \<Rightarrow> string option" where
  "request_Cookie header name =
     (case List.map_filter (cookie_of_part name)
             (concat (map (\<lambda>line. SplitByte CHR '';'' (TrimString line)) (header_Values header ''Cookie''))) of
        [] \<Rightarrow> None | v # _ \<Rightarrow> Some v)"

record Cookie =
  ck_Name :: string
  ck_Value :: string
  ck_Path :: string
  ck_Expires :: int
  ck_MaxAge :: int
  ck_Secure :: bool
  ck_HttpOnly :: bool
  ck_SameSiteStrict :: bool

definition year_1601 :: int where
  "year_1601 = 584388 * 86400 * Second"

definition cookie_String :: "Cookie \<Rightarrow> string" where
  "cookie_String c =
     (let v = filter cookie_byte (ck_Value c);
          v = (if list_ex (\<lambda>x. x = CHR '' '' \<or> x = CHR '','') v then [quote] @ v @ [quote] else v)
      in if \<not> is_token (ck_Name c) then []
         else ck_Name c @ ''='' @ v
           @ (if ck_Path c \<noteq> [] then ''; Path='' @ filter (\<lambda>x. 32 \<le> code x \<and> code x < 127 \<and> x \<noteq> CHR '';'') (ck_Path c) else [])
           @ (if year_1601 \<le> ck_Expires c then ''; Expires='' @ http_time (ck_Expires c) else [])
           @ (if ck_MaxAge c > 0 then ''; Max-Age='' @ show_int (ck_MaxAge c)
              else if ck_MaxAge c < 0 then ''; Max-Age=0'' else [])
           @ (if ck_HttpOnly c then ''; HttpOnly'' else [])
           @ (if ck_Secure c then ''; Secure'' else [])
           @ (if ck_SameSiteStrict c then ''; SameSite=Strict'' else []))"

definition http_SetCookie :: "Cookie \<Rightarrow> Header \<Rightarrow> Header" where
  "http_SetCookie c w = (if cookie_String c \<noteq> [] then header_Add ''Set-Cookie'' (cookie_String c) w else w)"

section \<open>Envelopes\<close>

definition json_reply :: "Header \<Rightarrow> int \<Rightarrow> json \<Rightarrow> http_outcome" where
  "json_reply w status v =
     WriteHeader status (header_Set ''Content-Type'' ''application/json'' w) (Marshal v @ [0x0A])"

definition error_json :: "string \<Rightarrow> string \<Rightarrow> json" where
  "error_json code' message = JObj [(''error'', JObj [(''code'', JStr code'), (''message'', JStr message)])]"

definition auth_writeData :: "Header \<Rightarrow> int \<Rightarrow> json \<Rightarrow> http_outcome" where
  "auth_writeData w status data = json_reply w status (JObj [(''data'', data)])"

definition auth_writeError :: "Header \<Rightarrow> int \<Rightarrow> string \<Rightarrow> string \<Rightarrow> http_outcome" where
  "auth_writeError w status code' message = json_reply w status (error_json code' message)"

definition agenttokens_writeData :: "Header \<Rightarrow> int \<Rightarrow> json \<Rightarrow> http_outcome" where
  "agenttokens_writeData w status data = json_reply w status (JObj [(''data'', data)])"

definition agenttokens_writeError :: "Header \<Rightarrow> int \<Rightarrow> string \<Rightarrow> string \<Rightarrow> http_outcome" where
  "agenttokens_writeError w status code' message = json_reply w status (error_json code' message)"

definition agents_writeData :: "Header \<Rightarrow> int \<Rightarrow> json \<Rightarrow> http_outcome" where
  "agents_writeData w status data = json_reply w status (JObj [(''data'', data)])"

definition agents_writeError :: "Header \<Rightarrow> int \<Rightarrow> string \<Rightarrow> string \<Rightarrow> http_outcome" where
  "agents_writeError w status code' message = json_reply w status (error_json code' message)"

definition tunnels_writeData :: "Header \<Rightarrow> int \<Rightarrow> json \<Rightarrow> http_outcome" where
  "tunnels_writeData w status data = json_reply w status (JObj [(''data'', data)])"

definition tunnels_writeError :: "Header \<Rightarrow> int \<Rightarrow> string \<Rightarrow> string \<Rightarrow> http_outcome" where
  "tunnels_writeError w status code' message = json_reply w status (error_json code' message)"

definition traffic_writeData :: "Header \<Rightarrow> int \<Rightarrow> json \<Rightarrow> http_outcome" where
  "traffic_writeData w status data = json_reply w status (JObj [(''data'', data)])"

definition traffic_writeError :: "Header \<Rightarrow> int \<Rightarrow> string \<Rightarrow> string \<Rightarrow> http_outcome" where
  "traffic_writeError w status code' message = json_reply w status (error_json code' message)"

lemmas write_defs = auth_writeData_def auth_writeError_def agenttokens_writeData_def agenttokens_writeError_def
  agents_writeData_def agents_writeError_def tunnels_writeData_def tunnels_writeError_def
  traffic_writeData_def traffic_writeError_def

text \<open>The largest JSON body a handler reads.\<close>

definition api_body :: "byte list \<times> read_end \<Rightarrow> byte list" where
  "api_body body = body_of (MaxBytesReader 16384 [body])"

definition api_bearer :: "Header \<Rightarrow> string" where
  "api_bearer header = TrimSpace (TrimPrefix (header_Get header ''Authorization'') ''Bearer '')"

end
