(* ===== verification/Auth_Http.thy ===== *)
theory Auth_Http
  imports Auth_Service Web_Api Rate_Limiter
begin

text \<open>
  \<^verbatim>\<open>backend/internal/auth/http.go\<close>: the handler of \<^verbatim>\<open>/api/v1/auth/\<close>. One call of
  \<open>auth_ServeHTTP\<close> maps the rate limiter and the database before the request to the reply and
  what they are after it. \<open>auth_env\<close> collects what the outside contributes to a request.
\<close>

section \<open>The handler\<close>

definition refreshCookieName :: string where "refreshCookieName = ''refresh_token''"
definition secureRefreshCookieName :: string where "secureRefreshCookieName = ''__Host-refresh_token''"

record auth_HTTPHandler =
  ah_service :: auth_Service
  ah_secureCookies :: bool

record auth_env =
  ae_pg :: postgres
  ae_uni :: "string \<Rightarrow> string"
  ae_generate :: "string \<Rightarrow> string + string"
  ae_compare :: "string \<Rightarrow> string \<Rightarrow> bool"
  ae_now :: int
  ae_clock :: "nat \<Rightarrow> int"
  ae_random :: "string + byte list"
  ae_body :: "byte list \<times> read_end"
  ae_calls :: call_env

record credentials =
  cr_Email :: string
  cr_Password :: string

definition credentials_struct :: "credentials struct" where
  "credentials_struct =
     [(''email'', set_string (\<lambda>x s. s\<lparr>cr_Email := x\<rparr>)), (''password'', set_string (\<lambda>x s. s\<lparr>cr_Password := x\<rparr>))]"

definition auth_decode :: "auth_env \<Rightarrow> credentials option" where
  "auth_decode env = Decode credentials_struct (api_body (ae_body env)) \<lparr>cr_Email = [], cr_Password = []\<rparr>"

definition invalid_json :: "Header \<Rightarrow> http_outcome" where
  "invalid_json w = auth_writeError w 400 ''INVALID_JSON'' ''Request body must be valid JSON''"

definition user_json :: "User \<Rightarrow> json" where
  "user_json user = JObj [(''email'', JStr (usr_Email user)), (''id'', JStr (usr_ID user))]"

definition session_json :: "User \<Rightarrow> Tokens \<Rightarrow> json" where
  "session_json user tokens = JObj [(''accessToken'', JStr (tok_AccessToken tokens)), (''user'', user_json user)]"

definition isRateLimitedRoute :: "HTTPRequest \<Rightarrow> bool" where
  "isRateLimitedRoute r \<longleftrightarrow> req_Method r = ''POST'' \<and> (req_Path r = ''/api/v1/auth/register''
     \<or> req_Path r = ''/api/v1/auth/login'' \<or> req_Path r = ''/api/v1/auth/refresh'')"

definition remoteIP :: "HTTPRequest \<Rightarrow> string" where
  "remoteIP r = (case SplitHostPort (req_RemoteAddr r) of None \<Rightarrow> [] | Some (host, _) \<Rightarrow> host)"

definition auth_bearer :: "HTTPRequest \<Rightarrow> string" where
  "auth_bearer r = TrimSpace (TrimPrefix (header_Get (req_Header r) ''Authorization'') ''Bearer '')"

definition refresh_cookie_name :: "auth_HTTPHandler \<Rightarrow> string" where
  "refresh_cookie_name h = (if ah_secureCookies h then secureRefreshCookieName else refreshCookieName)"

definition setRefreshCookie :: "auth_HTTPHandler \<Rightarrow> Tokens \<Rightarrow> Header \<Rightarrow> Header" where
  "setRefreshCookie h t w = http_SetCookie \<lparr>ck_Name = refresh_cookie_name h, ck_Value = tok_RefreshToken t, ck_Path = ''/'',
     ck_Expires = tok_RefreshExpiresAt t, ck_MaxAge = 0, ck_Secure = ah_secureCookies h, ck_HttpOnly = True,
     ck_SameSiteStrict = True\<rparr> w"

definition clearRefreshCookie :: "auth_HTTPHandler \<Rightarrow> Header \<Rightarrow> Header" where
  "clearRefreshCookie h w = fold (\<lambda>name. http_SetCookie \<lparr>ck_Name = name, ck_Value = [], ck_Path = ''/'', ck_Expires = 0,
     ck_MaxAge = -1, ck_Secure = ah_secureCookies h, ck_HttpOnly = True, ck_SameSiteStrict = True\<rparr>)
     [refreshCookieName, secureRefreshCookieName] w"

definition auth_register :: "auth_HTTPHandler \<Rightarrow> auth_env \<Rightarrow> HTTPRequest \<Rightarrow> Header \<Rightarrow> database \<Rightarrow> http_outcome \<times> database" where
  "auth_register h env r w db =
     (case auth_decode env of
        None \<Rightarrow> (invalid_json w, db)
      | Some c \<Rightarrow>
          (case auth_Register (ae_pg env) (ae_uni env) (ae_generate env) (cr_Email c) (cr_Password c) (ae_calls env) db of
             (Inl ErrEmailTaken, db) \<Rightarrow> (auth_writeError w 409 ''EMAIL_TAKEN'' ''Email is already registered'', db)
           | (Inl e, db) \<Rightarrow> (auth_writeError w 400 ''INVALID_REGISTRATION'' ''Email or password is invalid'', db)
           | (Inr user, db) \<Rightarrow> (auth_writeData w 201 (user_json user), db)))"

definition auth_login :: "auth_HTTPHandler \<Rightarrow> auth_env \<Rightarrow> HTTPRequest \<Rightarrow> Header \<Rightarrow> database \<Rightarrow> http_outcome \<times> database" where
  "auth_login h env r w db =
     (case auth_decode env of
        None \<Rightarrow> (invalid_json w, db)
      | Some c \<Rightarrow>
          (case auth_Login (ah_service h) (ae_pg env) (ae_uni env) (ae_compare env) (ae_clock env) (ae_random env)
                  (cr_Email c) (cr_Password c) (header_Get (req_Header r) ''User-Agent'') (remoteIP r) (ae_calls env) db of
             (Inl e, db) \<Rightarrow> (auth_writeError w 401 ''INVALID_CREDENTIALS'' ''Invalid email or password'', db)
           | (Inr (user, tokens), db) \<Rightarrow>
               (auth_writeData (setRefreshCookie h tokens w) 200 (session_json user tokens), db)))"

definition auth_refresh :: "auth_HTTPHandler \<Rightarrow> auth_env \<Rightarrow> HTTPRequest \<Rightarrow> Header \<Rightarrow> database \<Rightarrow> http_outcome \<times> database" where
  "auth_refresh h env r w db =
     (let raw = (case request_Cookie (req_Header r) (refresh_cookie_name h) of None \<Rightarrow> [] | Some v \<Rightarrow> v)
      in case auth_Refresh (ah_service h) (ae_pg env) (ae_clock env) (ae_random env) raw
                (header_Get (req_Header r) ''User-Agent'') (remoteIP r) (ae_calls env) db of
           (Inl e, db) \<Rightarrow> (auth_writeError (clearRefreshCookie h w) 401 ''UNAUTHORIZED'' ''Authentication required'', db)
         | (Inr (user, tokens), db) \<Rightarrow>
             (auth_writeData (setRefreshCookie h tokens w) 200 (session_json user tokens), db))"

definition auth_logout :: "auth_HTTPHandler \<Rightarrow> auth_env \<Rightarrow> HTTPRequest \<Rightarrow> Header \<Rightarrow> database \<Rightarrow> http_outcome \<times> database" where
  "auth_logout h env r w db =
     (let db = (case request_Cookie (req_Header r) ''refresh_token'' of
                  None \<Rightarrow> db
                | Some v \<Rightarrow> snd (auth_Logout (ah_service h) (ae_pg env) v (ae_calls env) db))
      in (WriteHeader 204 (clearRefreshCookie h w) [], db))"

definition auth_me :: "auth_HTTPHandler \<Rightarrow> auth_env \<Rightarrow> HTTPRequest \<Rightarrow> Header \<Rightarrow> database \<Rightarrow> http_outcome \<times> database" where
  "auth_me h env r w db =
     (case UserFromAccessToken (ah_service h) (ae_pg env) (ae_now env) (auth_bearer r) (ae_calls env 0) db of
        (Inl e, db) \<Rightarrow> (auth_writeError w 401 ''UNAUTHORIZED'' ''Authentication required'', db)
      | (Inr user, db) \<Rightarrow> (auth_writeData w 200 (user_json user), db))"

definition auth_route :: "auth_HTTPHandler \<Rightarrow> auth_env \<Rightarrow> HTTPRequest \<Rightarrow> Header \<Rightarrow> database \<Rightarrow> http_outcome \<times> database" where
  "auth_route h env r w db =
     (let route = req_Method r @ '' '' @ req_Path r in
      if route = ''POST /api/v1/auth/register'' then auth_register h env r w db
      else if route = ''POST /api/v1/auth/login'' then auth_login h env r w db
      else if route = ''POST /api/v1/auth/refresh'' then auth_refresh h env r w db
      else if route = ''POST /api/v1/auth/logout'' then auth_logout h env r w db
      else if route = ''GET /api/v1/auth/me'' then auth_me h env r w db
      else (auth_writeError w 404 ''NOT_FOUND'' ''Route not found'', db))"

definition auth_ServeHTTP ::
    "auth_HTTPHandler \<Rightarrow> auth_env \<Rightarrow> HTTPRequest \<Rightarrow> Header \<Rightarrow> rateLimiter \<times> database \<Rightarrow> http_outcome \<times> rateLimiter \<times> database" where
  "auth_ServeHTTP h env r w = (\<lambda>(limiter, db).
     if isRateLimitedRoute r then
       (case auth_allow limiter (remoteIP r) (ae_now env) of
          ((False, retryAfter), limiter) \<Rightarrow>
            (auth_writeError (header_Set ''Retry-After'' (show_int (max 1 (retryAfter div Second))) w)
               429 ''RATE_LIMITED'' ''Too many authentication attempts'', limiter, db)
        | ((True, _), limiter) \<Rightarrow> (case auth_route h env r w db of (reply, db) \<Rightarrow> (reply, limiter, db)))
     else (case auth_route h env r w db of (reply, db) \<Rightarrow> (reply, limiter, db)))"

section \<open>What a request does to the database\<close>

lemma snd_handlers:
  "snd (auth_register h env r w db) = (case auth_decode env of None \<Rightarrow> db
     | Some c \<Rightarrow> snd (auth_Register (ae_pg env) (ae_uni env) (ae_generate env) (cr_Email c) (cr_Password c) (ae_calls env) db))"
  "snd (auth_login h env r w db) = (case auth_decode env of None \<Rightarrow> db
     | Some c \<Rightarrow> snd (auth_Login (ah_service h) (ae_pg env) (ae_uni env) (ae_compare env) (ae_clock env) (ae_random env)
         (cr_Email c) (cr_Password c) (header_Get (req_Header r) ''User-Agent'') (remoteIP r) (ae_calls env) db))"
  "snd (auth_refresh h env r w db) = snd (auth_Refresh (ah_service h) (ae_pg env) (ae_clock env) (ae_random env)
     (case request_Cookie (req_Header r) (refresh_cookie_name h) of None \<Rightarrow> [] | Some v \<Rightarrow> v)
     (header_Get (req_Header r) ''User-Agent'') (remoteIP r) (ae_calls env) db)"
  "snd (auth_me h env r w db) = snd (UserFromAccessToken (ah_service h) (ae_pg env) (ae_now env) (auth_bearer r) (ae_calls env 0) db)"
  unfolding auth_register_def auth_login_def auth_refresh_def auth_me_def Let_def
  by (simp_all split: option.split prod.split sum.split auth_error.split)

lemma auth_route_steps:
  assumes "calls_ok (ae_pg env) (ae_calls env)"
  shows "db_steps (ae_pg env) db (snd (auth_route h env r w db))"
proof -
  have "db_steps (ae_pg env) db (snd (auth_register h env r w db))"
    using register.call_steps [OF assms, of db "(ae_uni env, ae_generate env, cr_Email c, cr_Password c)" for c :: credentials]
    by (cases "auth_decode env") (simp_all add: snd_handlers)
  moreover have "db_steps (ae_pg env) db (snd (auth_login h env r w db))"
    using login.call_steps [OF assms, of db "(ah_service h, ae_uni env, ae_compare env, ae_clock env, ae_random env,
        cr_Email c, cr_Password c, header_Get (req_Header r) ''User-Agent'', remoteIP r)" for c :: credentials]
    by (cases "auth_decode env") (simp_all add: snd_handlers)
  moreover have "db_steps (ae_pg env) db (snd (auth_refresh h env r w db))"
    using refresh.call_steps [OF assms, of db "(ah_service h, ae_clock env, ae_random env, raw,
        header_Get (req_Header r) ''User-Agent'', remoteIP r)" for raw]
    by (simp add: snd_handlers)
  moreover have "db_steps (ae_pg env) db (snd (auth_logout h env r w db))"
    using logout.call_steps [OF assms, of db "(ah_service h, raw)" for raw]
    by (simp add: auth_logout_def Let_def split: option.split)
  moreover have "db_steps (ae_pg env) db (snd (auth_me h env r w db))"
    using calls_okD [OF assms, of 0] by (simp add: snd_handlers) (metis UserFromAccessToken_steps prod.collapse)
  ultimately show ?thesis
    by (simp add: auth_route_def Let_def)
qed

interpretation auth_http: db_service pg "\<lambda>(h, env, r, w) calls. auth_route h (env\<lparr>ae_pg := pg, ae_calls := calls\<rparr>) r w" for pg
proof
  fix env :: call_env and db a
  assume "calls_ok pg env"
  then show "db_steps pg db (snd ((case a of (h, env', r, w) \<Rightarrow> \<lambda>calls. auth_route h (env'\<lparr>ae_pg := pg, ae_calls := calls\<rparr>) r w) env db))"
    using auth_route_steps [of "e\<lparr>ae_pg := pg, ae_calls := env\<rparr>" for e] by (cases a) simp
qed

section \<open>Cookies and logging out\<close>

lemma Logout_revokes:
  assumes "se_run (env 0) = Db_Ok" "pg_text pg (hashToken raw (as_refreshSecret svc)) = Some h"
    "h \<in> rt_token_hash ` set (db_refresh_tokens (se_others (env 0) db))" "raw \<noteq> []"
  shows "refresh_revoked h (snd (auth_Logout svc pg raw env db))"
proof -
  have db': "db_refresh_tokens (snd (auth_Logout svc pg raw env db))
      = update_rows (\<lambda>r. rt_token_hash r = h \<and> rt_revoked_at r = None) (\<lambda>r. r\<lparr>rt_revoked_at := Some (se_now (env 0))\<rparr>)
          (db_refresh_tokens (se_others (env 0) db))"
    using assms(1,2,4) by (simp add: auth_Logout_def exec_def Let_def revoke_refresh_def with_defs)
  have "rt_token_hash ` set (db_refresh_tokens (snd (auth_Logout svc pg raw env db)))
      = rt_token_hash ` set (db_refresh_tokens (se_others (env 0) db))"
    unfolding db' by (rule image_update_rows) simp
  moreover have "list_all (\<lambda>r. rt_token_hash r = h \<longrightarrow> rt_revoked_at r \<noteq> None) (db_refresh_tokens (snd (auth_Logout svc pg raw env db)))"
    unfolding db' update_rows_def list.pred_map by (simp add: list_all_iff)
  ultimately show ?thesis
    using assms(3) by (simp add: refresh_revoked_def)
qed

lemma id_char_cookie: "id_char c \<Longrightarrow> cookie_byte c \<and> \<not> ascii_space c \<and> c \<noteq> CHR ''='' \<and> c \<noteq> CHR '';''"
proof -
  assume c: "id_char c"
  then have "code c \<noteq> 34 \<and> code c \<noteq> 92"
    by (auto simp: id_char_def is_lower_def is_upper_def is_digit_def)
  then have "c \<noteq> quote \<and> c \<noteq> backslash"
    by (auto simp: quote_def backslash_def)
  with c show ?thesis
    by (auto simp: id_char_def cookie_byte_def ascii_space_def is_lower_def is_upper_def is_digit_def)
qed

lemma id_char_token: "id_char c \<Longrightarrow> token_char c"
  unfolding id_char_def token_char_def by (elim disjE) simp_all

lemma TrimString_plain:
  assumes "list_all (\<lambda>c. \<not> ascii_space c) s"
  shows "TrimString s = s"
proof -
  have drop: "dropWhile ascii_space t = t" if "list_all (\<lambda>c. \<not> ascii_space c) t" for t
    using that by (cases t) auto
  have "list_all (\<lambda>c. \<not> ascii_space c) (rev s)"
    using assms by (simp add: list_all_iff)
  then show ?thesis
    by (simp add: TrimString_def drop assms)
qed

text \<open>The cookie a reply sets is the one the next request's lookup finds, and under no other name.\<close>

lemma cookie_roundtrip:
  assumes "list_all id_char v" "list_all id_char n" "n \<noteq> []" "header_Values header ''Cookie'' = [n @ ''='' @ v]"
  shows "request_Cookie header n = Some v" and "m \<noteq> n \<Longrightarrow> request_Cookie header m = None"
proof -
  have plain: "CHR '';'' \<notin> set (n @ ''='' @ v)" "list_all (\<lambda>c. \<not> ascii_space c) (n @ ''='' @ v)"
    using assms(1,2) id_char_cookie by (auto simp: list_all_iff ascii_space_def)
  have n: "takeWhile (\<lambda>x. x \<noteq> CHR ''='') (n @ CHR ''='' # v) = n" "dropWhile (\<lambda>x. x \<noteq> CHR ''='') (n @ CHR ''='' # v) = CHR ''='' # v"
    using assms(2) id_char_cookie by (auto simp: list_all_iff takeWhile_append dropWhile_append)
  have tok: "is_token n"
    using assms(2,3) id_char_token by (auto simp: is_token_def list_all_iff)
  have "TrimString n = n"
    by (rule TrimString_plain) (use assms(2) id_char_cookie in \<open>auto simp: list_all_iff\<close>)
  moreover have "parse_cookie_value v = Some v"
  proof -
    have "v \<noteq> [] \<Longrightarrow> hd v \<noteq> quote"
      using assms(1) id_char_cookie by (cases v) (auto simp: cookie_byte_def)
    then have "\<not> (length v > 1 \<and> hd v = quote \<and> last v = quote)"
      by (cases v) auto
    moreover have "list_all cookie_byte v"
      using assms(1) id_char_cookie by (simp add: list_all_iff)
    ultimately show ?thesis
      unfolding parse_cookie_value_def Let_def by (simp only: if_False if_True)
  qed
  ultimately have part: "cookie_of_part m (n @ CHR ''='' # v) = (if m = n then Some v else None)" for m
    using plain(2) tok n by (simp add: cookie_of_part_def TrimString_plain Cut_def)
  have "request_Cookie header m = (if m = n then Some v else None)" for m
    using plain by (simp add: request_Cookie_def assms(4) TrimString_plain SplitByte_one part List.map_filter_simps)
  then show "request_Cookie header n = Some v" and "m \<noteq> n \<Longrightarrow> request_Cookie header m = None"
    by simp_all
qed

text \<open>
  C32: Logging out revokes the session's refresh token only with the cookie name used in
  development. The client sends back the cookie the login gave it. Without secure cookies the
  token is refused from then on; with secure cookies, as in production, the handler looks for
  the wrong name, the database is unchanged, and the token a client was told to forget stays
  good.
\<close>

theorem logout_revokes_only_in_development:
  assumes route: "req_Method r = ''POST''" "req_Path r = ''/api/v1/auth/logout''"
    and cookie: "header_Values (req_Header r) ''Cookie'' = [refresh_cookie_name h @ ''='' @ raw]"
      "raw = RawURL_EncodeToString bytes" "bytes \<noteq> []"
    and stored: "pg_text (ae_pg env) (hashToken raw (as_refreshSecret (ah_service h))) = Some hash"
      "hash \<in> rt_token_hash ` set (db_refresh_tokens (se_others (ae_calls env 0) db))"
    and run: "se_run (ae_calls env 0) = Db_Ok" and calls: "calls_ok (ae_pg env) calls2"
    and db': "db' = snd (auth_route h env r w db)" "db_steps (ae_pg env) db' later_db"
  shows "if ah_secureCookies h then db' = db
    else fst (auth_Refresh (ah_service h) (ae_pg env) clock random raw userAgent ip calls2 later_db) = Inl ErrUnauthorized"
proof -
  have raw: "list_all id_char raw" "raw \<noteq> []"
    using cookie RawURL_chars RawURL_inj [of bytes "[]"] by auto
  have name: "list_all id_char (refresh_cookie_name h)" "refresh_cookie_name h \<noteq> []"
    by (simp_all add: refresh_cookie_name_def secureRefreshCookieName_def refreshCookieName_def id_char_def
        is_lower_def is_upper_def is_digit_def)
  note read = cookie_roundtrip [OF raw(1) name cookie(1)]
  have db'_eq: "db' = snd (auth_logout h env r w db)"
    by (simp add: db'(1) auth_route_def route)
  show ?thesis
  proof (cases "ah_secureCookies h")
    case True
    then have "request_Cookie (req_Header r) ''refresh_token'' = None"
      by (intro read(2)) (simp add: refresh_cookie_name_def secureRefreshCookieName_def)
    then show ?thesis
      using True by (simp add: db'_eq auth_logout_def)
  next
    case False
    then have "request_Cookie (req_Header r) ''refresh_token'' = Some raw"
      using read(1) by (simp add: refresh_cookie_name_def refreshCookieName_def)
    then have "db' = snd (auth_Logout (ah_service h) (ae_pg env) raw (ae_calls env) db)"
      by (simp add: db'_eq auth_logout_def)
    then have "refresh_revoked hash db'"
      using Logout_revokes [where env = "ae_calls env", OF run stored raw(2)] by simp
    then have "refresh_revoked hash (se_others (calls2 0) later_db)"
      using db_steps_revoked(1) db'(2) calls_okD [OF calls, of 0] unfolding env_ok_def by blast
    then obtain e where "fst (exec (calls2 0) (select_refresh_user (ae_pg env) (hashToken raw (as_refreshSecret (ah_service h)))) later_db) = Inl e"
      using revoked_not_selected stored(1) by blast
    then show ?thesis
      using False raw(2) by (auto simp: auth_Refresh_def Let_def split: prod.splits sum.splits)
  qed
qed

definition example_handler :: "bool \<Rightarrow> auth_HTTPHandler" where
  "example_handler secure = \<lparr>ah_service = example_svc, ah_secureCookies = secure\<rparr>"

definition example_auth_env :: auth_env where
  "example_auth_env = \<lparr>ae_pg = example_pg, ae_uni = id, ae_generate = (\<lambda>p. Inr (''bcrypt '' @ p)),
     ae_compare = (\<lambda>h p. h = ''bcrypt '' @ p), ae_now = 0, ae_clock = example_clock, ae_random = Inr [1, 2, 3],
     ae_body = ([], EOF), ae_calls = (\<lambda>_. quiet_at 1000)\<rparr>"

definition logout_request :: "auth_HTTPHandler \<Rightarrow> string \<Rightarrow> HTTPRequest" where
  "logout_request h raw = \<lparr>req_Method = ''POST'', req_Host = ''tunnel.example.test'', req_RemoteAddr = ''192.0.2.7:4000'',
     req_RequestURI = ''/api/v1/auth/logout'', req_Path = ''/api/v1/auth/logout'',
     req_Header = [(''Cookie'', [refresh_cookie_name h @ ''='' @ raw])], req_TLS = True, req_ContentLength = 0\<rparr>"

lemma canonical_Cookie: "header_Values [(''Cookie'', vs)] ''Cookie'' = vs"
  by (simp add: header_Values_def CanonicalMIMEHeaderKey_def token_char_def is_upper_def is_lower_def is_digit_def
      upper_char_def lower_char_def)

theorem logout_revokes_only_in_development_witness:
  "(let raw = RawURL_EncodeToString [1, 2, 3]; logout = (\<lambda>secure. snd (auth_route (example_handler secure) example_auth_env
        (logout_request (example_handler secure) raw) [] (example_db raw)))
    in logout True = example_db raw
     \<and> fst (auth_Refresh example_svc example_pg example_clock (Inr [4]) raw [] [] (\<lambda>_. quiet_at 2000) (logout False)) = Inl ErrUnauthorized)"
proof -
  let ?raw = "RawURL_EncodeToString [1, 2, 3]"
  let ?logout = "\<lambda>secure. snd (auth_route (example_handler secure) example_auth_env
      (logout_request (example_handler secure) ?raw) [] (example_db ?raw))"
  have "if ah_secureCookies (example_handler secure) then ?logout secure = example_db ?raw
    else fst (auth_Refresh (ah_service (example_handler secure)) (ae_pg example_auth_env) example_clock (Inr [4]) ?raw [] []
      (\<lambda>_. quiet_at 2000) (?logout secure)) = Inl ErrUnauthorized" for secure
    by (rule logout_revokes_only_in_development [where bytes = "[1, 2, 3]" and raw = ?raw
          and hash = "hashToken ?raw (as_refreshSecret example_svc)"])
      (simp_all add: logout_request_def canonical_Cookie example_handler_def example_auth_env_def calls_ok_def quiet_at_ok,
        simp_all add: example_auth_defs)
  from this [of True] this [of False] show ?thesis
    by (simp add: Let_def example_handler_def example_auth_env_def)
qed

end
