(* ===== verification/Agent_Main.thy ===== *)
theory Agent_Main
  imports Agent_Client
begin

text \<open>
  \<^verbatim>\<open>agent/cmd/tunnel-agent/main.go\<close>: the command line of the agent. What it prints on the two
  streams and its exit code are a function of the arguments and of the \<open>gatewayRunner\<close>, the
  interface through which it calls \<open>Client.Run\<close>; \<open>client_runner\<close> is the agent's own client
  behind that interface. The parser of Go's \<^verbatim>\<open>flag\<close> package is modelled for string flags.
\<close>

definition version :: string where "version = ''0.1.0''"

section \<open>Flags\<close>

text \<open>Splits the name of a flag at the first \<open>=\<close> after its first character.\<close>

fun flag_value :: "string \<Rightarrow> string \<times> string option" where
  "flag_value [] = ([], None)"
| "flag_value (c # cs) =
     (if CHR ''='' \<in> set cs then (c # takeWhile (\<lambda>x. x \<noteq> CHR ''='') cs, Some (tl (dropWhile (\<lambda>x. x \<noteq> CHR ''='') cs)))
      else (c # cs, None))"

datatype flag_arg = Positional | Terminator | BadFlag | Flag string "string option"

definition flag_arg :: "string \<Rightarrow> flag_arg" where
  "flag_arg s =
     (if length s < 2 \<or> hd s \<noteq> CHR ''-'' then Positional
      else if s = ''--'' then Terminator
      else
        let name = (if s ! 1 = CHR ''-'' then drop 2 s else drop 1 s)
        in if name = [] \<or> hd name = CHR ''-'' \<or> hd name = CHR ''='' then BadFlag
           else let (n, v) = flag_value name in Flag n v)"

type_synonym flag_set = "(string, string) gomap"

datatype flag_error = BadSyntax string | NotDefined string | NeedsArgument string | HelpRequested

fun flags_Parse :: "flag_set \<Rightarrow> string list \<Rightarrow> flag_error + flag_set \<times> string list" where
  "flags_Parse flags [] = Inr (flags, [])"
| "flags_Parse flags (s # args) =
     (case flag_arg s of
        Positional \<Rightarrow> Inr (flags, s # args)
      | Terminator \<Rightarrow> Inr (flags, args)
      | BadFlag \<Rightarrow> Inl (BadSyntax s)
      | Flag name v \<Rightarrow>
          if map_of flags name = None
          then Inl (if name = ''help'' \<or> name = ''h'' then HelpRequested else NotDefined name)
          else
            case v of
              Some value \<Rightarrow> flags_Parse (map_put name value flags) args
            | None \<Rightarrow>
                (case args of
                   [] \<Rightarrow> Inl (NeedsArgument name)
                 | value # args \<Rightarrow> flags_Parse (map_put name value flags) args))"

fun flag_message :: "flag_error \<Rightarrow> string" where
  "flag_message (BadSyntax s) = ''bad flag syntax: '' @ s"
| "flag_message (NotDefined n) = ''flag provided but not defined: -'' @ n"
| "flag_message (NeedsArgument n) = ''flag needs an argument: -'' @ n"
| "flag_message HelpRequested = ''flag: help requested''"

text \<open>What the parser itself prints: the message unless help was asked for, then the defaults.\<close>

definition flag_output :: "string list \<Rightarrow> flag_error \<Rightarrow> string list" where
  "flag_output defaults e = (if e = HelpRequested then [] else [flag_message e]) @ defaults"

section \<open>Running the client\<close>

datatype callback = OnConnected string | OnMetrics SessionMetrics | OnLost string int

type_synonym gatewayRunner = "Config \<Rightarrow> callback list \<times> string option"

record streams =
  out_lines :: "string list"
  err_lines :: "string list"

definition print_out :: "string list \<Rightarrow> streams \<Rightarrow> streams" where
  "print_out ls w = w\<lparr>out_lines := out_lines w @ ls\<rparr>"

definition print_err :: "string list \<Rightarrow> streams \<Rightarrow> streams" where
  "print_err ls w = w\<lparr>err_lines := err_lines w @ ls\<rparr>"

fun run_callback :: "(int \<Rightarrow> string) \<Rightarrow> callback \<Rightarrow> SessionMetrics \<times> streams \<Rightarrow> SessionMetrics \<times> streams" where
  "run_callback dur (OnConnected sid) (m, w) = (m, print_out [''Connected to gateway'', ''Session: '' @ sid] w)"
| "run_callback dur (OnMetrics m') (m, w) = (m', w)"
| "run_callback dur (OnLost e retryIn) (m, w) =
     (m, print_err [''Connection lost ('' @ e @ ''); reconnecting in '' @ dur retryIn] w)"

definition zero_session_metrics :: SessionMetrics where
  "zero_session_metrics = \<lparr>sme_ActiveSessions = 0, sme_ConnectionsTotal = 0, sme_DisconnectionsTotal = 0\<rparr>"

record cli_env =
  ce_client :: "gatewayRunner option"
  ce_dur :: "int \<Rightarrow> string"
  ce_defaults :: "string list"

definition http_flags :: flag_set where
  "http_flags = [(''token'', []), (''gateway'', ''ws://localhost:8080/api/v1/agent/connect'')]"

definition flag_get :: "string \<Rightarrow> flag_set \<Rightarrow> string" where
  "flag_get n flags = (case map_of flags n of None \<Rightarrow> [] | Some v \<Rightarrow> v)"

text \<open>The command after the arguments have been read: banner, session, summary.\<close>

definition run_tunnel :: "cli_env \<Rightarrow> gatewayRunner \<Rightarrow> string \<Rightarrow> string \<Rightarrow> string \<Rightarrow> streams \<Rightarrow> string option \<times> streams" where
  "run_tunnel env client gateway token localAddress w =
     (let w = print_out [''Tunnel Agent '' @ version, ''Local destination: '' @ localAddress, ''Gateway: '' @ gateway] w;
          (calls, err) = client \<lparr>cfg_GatewayURL = gateway, cfg_Token = token, cfg_Version = version,
            cfg_LocalAddress = localAddress, cfg_MaxConcurrentRequests = 0\<rparr>;
          (m, w) = fold (run_callback (ce_dur env)) calls (zero_session_metrics, w)
      in case err of
           Some e \<Rightarrow> (Some (''gateway connection failed: '' @ e), w)
         | None \<Rightarrow>
             (None, print_out [''Session metrics: connections='' @ show_nat (unat (sme_ConnectionsTotal m))
                @ '' disconnections='' @ show_nat (unat (sme_DisconnectionsTotal m))] w))"

text \<open>Which tunnel the arguments ask for: gateway, token and local address.\<close>

definition http_arguments ::
    "string list \<Rightarrow> (flag_error + string) + string \<times> string \<times> string" where
  "http_arguments args =
     (let moved = (case args of [] \<Rightarrow> False | a # _ \<Rightarrow> a \<noteq> [] \<and> hd a \<noteq> CHR ''-'');
          localAddress = (if moved then hd args else []);
          args = (if moved then tl args else args)
      in case flags_Parse http_flags args of
           Inl e \<Rightarrow> Inl (Inl e)
         | Inr (flags, rest) \<Rightarrow>
             if localAddress = [] \<and> length rest \<noteq> 1 then Inl (Inr ''http requires a local port or host:port'')
             else if localAddress \<noteq> [] \<and> rest \<noteq> [] then Inl (Inr ''http accepts exactly one local port or host:port'')
             else if flag_get ''token'' flags = []
             then Inl (Inr ''--token is required until login/config support is implemented'')
             else Inr (flag_get ''gateway'' flags, flag_get ''token'' flags, if localAddress = [] then hd rest else localAddress))"

definition runHTTP :: "cli_env \<Rightarrow> string list \<Rightarrow> streams \<Rightarrow> string option \<times> streams" where
  "runHTTP env args w =
     (case ce_client env of
        None \<Rightarrow> (Some ''gateway client is required'', w)
      | Some client \<Rightarrow>
          case http_arguments args of
            Inl (Inl e) \<Rightarrow> (Some (flag_message e), print_err (flag_output (ce_defaults env) e) w)
          | Inl (Inr e) \<Rightarrow> (Some e, w)
          | Inr (gateway, token, localAddress) \<Rightarrow> run_tunnel env client gateway token localAddress w)"

definition usage :: "string list" where
  "usage = [''Usage: tunnel-agent <command> [options]'', ''Commands: version, http'']"

definition run :: "cli_env \<Rightarrow> string list \<Rightarrow> streams \<Rightarrow> int \<times> streams" where
  "run env args w =
     (case args of
        program # command # rest \<Rightarrow>
          if command = ''version'' then (0, print_out [''tunnel-agent '' @ version] w)
          else if command = ''http'' then
            (case runHTTP env rest w of
               (Some e, w) \<Rightarrow> (2, print_err [e] w)
             | (None, w) \<Rightarrow> (0, w))
          else (2, print_err usage w)
      | _ \<Rightarrow> (2, print_err usage w))"

text \<open>
  The agent's client as a \<open>gatewayRunner\<close>: the sessions it goes through, the id each was given
  and the text of its errors. \<open>Run\<close> returns no error once the context is done.
\<close>

fun callbacks :: "(agent_error \<Rightarrow> string) \<Rightarrow> string list \<Rightarrow> run_event list \<Rightarrow> callback list" where
  "callbacks msg sids [] = []"
| "callbacks msg sids (OnSessionMetrics m # evs) =
     (if sme_ActiveSessions m = 1
      then (case sids of [] \<Rightarrow> OnMetrics m # callbacks msg [] evs
            | sid # sids \<Rightarrow> OnMetrics m # OnConnected sid # callbacks msg sids evs)
      else OnMetrics m # callbacks msg sids evs)"
| "callbacks msg sids (Retrying e d # evs) = OnLost (msg e) d # callbacks msg sids evs"

definition client_runner :: "(agent_error \<Rightarrow> string) \<Rightarrow> string list \<Rightarrow> session_outcome list \<Rightarrow> gatewayRunner" where
  "client_runner msg sids os cfg =
     (callbacks msg sids (snd (Run New_Client (cl_reconnectInitialDelay New_Client) zero_session_metrics os)), None)"

section \<open>The two forms of the command\<close>

lemma flag_arg_address: "hd a \<noteq> CHR ''-'' \<Longrightarrow> flag_arg a = Positional"
  by (simp add: flag_arg_def)

lemma flags_Parse_append:
  assumes "flags_Parse flags xs = Inr (flags', [])" "flag_arg a = Positional"
  shows "flags_Parse flags (xs @ [a]) = Inr (flags', [a])"
  using assms
proof (induction flags xs rule: flags_Parse.induct)
  case (2 flags s args)
  then show ?case
    by (auto split: flag_arg.splits if_splits option.splits list.splits)
qed simp

lemma http_arguments_forms:
  assumes "flags_Parse http_flags flags = Inr (flags', [])" "a \<noteq> []" "hd a \<noteq> CHR ''-''"
  shows "http_arguments (a # flags) = http_arguments (flags @ [a])"
proof (cases flags)
  case (Cons f fs)
  have "hd f = CHR ''-''"
    using assms(1) Cons flag_arg_address [of f] by (cases "hd f = CHR ''-''") auto
  moreover have "flags_Parse http_flags (flags @ [a]) = Inr (flags', [a])"
    by (rule flags_Parse_append [OF assms(1) flag_arg_address [OF assms(3)]])
  ultimately show ?thesis
    using assms Cons by (simp add: http_arguments_def)
qed simp

text \<open>
  \<open>tunnel-agent http <address> <flags>\<close> and \<open>tunnel-agent http <flags> <address>\<close> do the
  same, whatever flags the command accepts: same session, same output, same exit code.
\<close>

theorem cli_argument_forms:
  assumes "flags_Parse http_flags flags = Inr (flags', [])" "a \<noteq> []" "hd a \<noteq> CHR ''-''"
  shows "run env (program # ''http'' # a # flags) w = run env (program # ''http'' # flags @ [a]) w"
  using http_arguments_forms [OF assms] by (cases "ce_client env") (simp_all add: run_def runHTTP_def)

definition example_cli :: cli_env where
  "example_cli = \<lparr>ce_client = Some (client_runner (\<lambda>_. ''lost'') [''s1'']
       [\<lparr>so_connected = True, so_error = None, so_ctxDone = True, so_waitCancelled = False\<rparr>]),
     ce_dur = (\<lambda>_. ''1s''), ce_defaults = []\<rparr>"

theorem cli_argument_forms_witness:
  "run example_cli [''tunnel-agent'', ''http'', ''3000'', ''--token=t'', ''-gateway'', ''ws://g''] \<lparr>out_lines = [], err_lines = []\<rparr> =
   run example_cli [''tunnel-agent'', ''http'', ''--token=t'', ''-gateway'', ''ws://g'', ''3000''] \<lparr>out_lines = [], err_lines = []\<rparr>
   \<and> run example_cli [''tunnel-agent'', ''http'', ''--token=t'', ''-gateway'', ''ws://g'', ''3000''] \<lparr>out_lines = [], err_lines = []\<rparr> =
     (0, \<lparr>out_lines = [''Tunnel Agent 0.1.0'', ''Local destination: 3000'', ''Gateway: ws://g'', ''Connected to gateway'',
        ''Session: s1'', ''Session metrics: connections=1 disconnections=1''], err_lines = []\<rparr>)"
  using cli_argument_forms [where flags = "[''--token=t'', ''-gateway'', ''ws://g'']" and a = "''3000''"
      and env = example_cli and program = "''tunnel-agent''" and w = "\<lparr>out_lines = [], err_lines = []\<rparr>"
      and flags' = "[(''token'', ''t''), (''gateway'', ''ws://g'')]"]
  by code_simp

end
