(* ===== verification/Agent_Tokens.thy ===== *)
theory Agent_Tokens
  imports Auth_Http Session_Manager
begin

text \<open>
  \<^verbatim>\<open>backend/internal/agenttokens/service.go\<close> and \<^verbatim>\<open>http.go\<close>: the tokens agents connect
  with. A token is shown once, when it is created; the database has its SHA-256. Revoking it
  also cancels the sessions that were authenticated with it, which the session manager holds.
  \<open>api_env\<close> is what the outside contributes to a request of the four listing APIs; \<open>ap_time\<close> is
  how a time is written in JSON.
\<close>

section \<open>Service\<close>

record api_env =
  ap_svc :: auth_Service
  ap_pg :: postgres
  ap_now :: int
  ap_time :: "int \<Rightarrow> json"
  ap_random :: "string + byte list"
  ap_body :: "byte list \<times> read_end"
  ap_calls :: call_env

definition token_generate :: "string + byte list \<Rightarrow> string + string" where
  "token_generate random =
     (case random of Inl e \<Rightarrow> Inl (''generate token: '' @ e) | Inr b \<Rightarrow> Inr (''tkn_'' @ RawURL_EncodeToString b))"

definition token_hash :: "string \<Rightarrow> string" where
  "token_hash raw = hex_EncodeToString (Sum256 (bytes_of raw))"

definition visiblePrefix :: "string \<Rightarrow> string" where
  "visiblePrefix raw = (if length raw \<le> 12 then raw else take 12 raw)"

definition tokens_Create ::
    "postgres \<Rightarrow> string + byte list \<Rightarrow> string \<Rightarrow> string \<Rightarrow> call_env \<Rightarrow> database
      \<Rightarrow> (string + agent_token_row \<times> string) \<times> database" where
  "tokens_Create pg random userID name env db =
     (let name = TrimSpace name in
      if name = [] \<or> length name > 128 then (Inl ''token name must be 1-128 characters'', db)
      else
        case token_generate random of
          Inl e \<Rightarrow> (Inl e, db)
        | Inr raw \<Rightarrow>
            (case exec (env 0) (insert_agent_token pg userID name (visiblePrefix raw) (token_hash raw)) db of
               (Inl e, db) \<Rightarrow> (Inl (''create agent token: '' @ db_message pg e), db)
             | (Inr row, db) \<Rightarrow> (Inr (row, raw), db)))"

definition tokens_List ::
    "postgres \<Rightarrow> string \<Rightarrow> call_env \<Rightarrow> database \<Rightarrow> (string + agent_token_row list) \<times> database" where
  "tokens_List pg userID env db =
     (case exec (env 0) (select_agent_tokens pg userID) db of
        (Inl e, db) \<Rightarrow> (Inl (''list agent tokens: '' @ db_message pg e), db)
      | (Inr rows, db) \<Rightarrow> (Inr rows, db))"

definition tokens_Revoke ::
    "postgres \<Rightarrow> string \<Rightarrow> string \<Rightarrow> call_env \<Rightarrow> database \<Rightarrow> (string + string option) \<times> database" where
  "tokens_Revoke pg userID tokenID env db =
     (case exec (env 0) (revoke_agent_token pg tokenID userID) db of
        (Inl NoRows, db) \<Rightarrow> (Inr None, db)
      | (Inl e, db) \<Rightarrow> (Inl (''revoke agent token: '' @ db_message pg e), db)
      | (Inr tokenHash, db) \<Rightarrow> (Inr (Some tokenHash), db))"

section \<open>Handler\<close>

definition opt_time :: "(int \<Rightarrow> json) \<Rightarrow> int option \<Rightarrow> json" where
  "opt_time time t = (case t of None \<Rightarrow> JNull | Some t \<Rightarrow> time t)"

definition Token_json :: "(int \<Rightarrow> json) \<Rightarrow> agent_token_row \<Rightarrow> json" where
  "Token_json time t = JObj [(''id'', JStr (tk_id t)), (''name'', JStr (tk_name t)), (''prefix'', JStr (tk_prefix t)),
     (''createdAt'', time (tk_created_at t)), (''lastUsedAt'', opt_time time (tk_last_used_at t)),
     (''expiresAt'', opt_time time (tk_expires_at t)), (''revokedAt'', opt_time time (tk_revoked_at t))]"

definition agenttokens_bearer :: "HTTPRequest \<Rightarrow> string" where
  "agenttokens_bearer r = TrimSpace (TrimPrefix (header_Get (req_Header r) ''Authorization'') ''Bearer '')"

definition tokens_list :: "api_env \<Rightarrow> User \<Rightarrow> Header \<Rightarrow> database \<Rightarrow> http_outcome \<times> database" where
  "tokens_list env user w db =
     (case tokens_List (ap_pg env) (usr_ID user) (later 1 (ap_calls env)) db of
        (Inl e, db) \<Rightarrow> (agenttokens_writeError w 500 ''INTERNAL_ERROR'' ''Unable to load tokens'', db)
      | (Inr tokens, db) \<Rightarrow> (agenttokens_writeData w 200 (JArr (map (Token_json (ap_time env)) tokens)), db))"

definition name_struct :: "string struct" where
  "name_struct = [(''name'', set_string (\<lambda>x _. x))]"

definition tokens_create :: "api_env \<Rightarrow> User \<Rightarrow> Header \<Rightarrow> database \<Rightarrow> http_outcome \<times> database" where
  "tokens_create env user w db =
     (case Decode name_struct (api_body (ap_body env)) [] of
        None \<Rightarrow> (agenttokens_writeError w 400 ''INVALID_JSON'' ''Request body must be valid JSON'', db)
      | Some name \<Rightarrow>
          (case tokens_Create (ap_pg env) (ap_random env) (usr_ID user) name (later 1 (ap_calls env)) db of
             (Inl e, db) \<Rightarrow> (agenttokens_writeError w 400 ''INVALID_TOKEN_NAME'' e, db)
           | (Inr (t, plaintext), db) \<Rightarrow>
               (agenttokens_writeData w 201 (JObj [(''createdAt'', ap_time env (tk_created_at t)), (''id'', JStr (tk_id t)),
                  (''name'', JStr (tk_name t)), (''prefix'', JStr (tk_prefix t)), (''token'', JStr plaintext)]), db)))"

definition tokens_path :: string where "tokens_path = ''/api/v1/agent-tokens''"

definition tokens_revoke ::
    "api_env \<Rightarrow> User \<Rightarrow> HTTPRequest \<Rightarrow> Header \<Rightarrow> database \<times> gateway_state \<Rightarrow> http_outcome \<times> database \<times> gateway_state" where
  "tokens_revoke env user r w = (\<lambda>(db, s).
     let i = TrimPrefix (req_Path r) ''/api/v1/agent-tokens/'' in
     if i = [] \<or> CHR ''/'' \<in> set i then (agenttokens_writeError w 404 ''NOT_FOUND'' ''Route not found'', db, s)
     else
       case tokens_Revoke (ap_pg env) (usr_ID user) i (later 1 (ap_calls env)) db of
         (Inl e, db) \<Rightarrow> (agenttokens_writeError w 500 ''INTERNAL_ERROR'' ''Unable to revoke token'', db, s)
       | (Inr None, db) \<Rightarrow> (agenttokens_writeError w 404 ''NOT_FOUND'' ''Token not found'', db, s)
       | (Inr (Some tokenHash), db) \<Rightarrow> (WriteHeader 204 w [], db, DisconnectTokenHash tokenHash s))"

definition tokens_ServeHTTP ::
    "api_env \<Rightarrow> HTTPRequest \<Rightarrow> Header \<Rightarrow> database \<times> gateway_state \<Rightarrow> http_outcome \<times> database \<times> gateway_state" where
  "tokens_ServeHTTP env r w = (\<lambda>(db, s).
     case UserFromAccessToken (ap_svc env) (ap_pg env) (ap_now env) (agenttokens_bearer r) (ap_calls env 0) db of
       (Inl e, db) \<Rightarrow> (agenttokens_writeError w 401 ''UNAUTHORIZED'' ''Authentication required'', db, s)
     | (Inr user, db) \<Rightarrow>
         if req_Path r = tokens_path \<and> req_Method r = ''GET'' then
           (case tokens_list env user w db of (reply, db) \<Rightarrow> (reply, db, s))
         else if req_Path r = tokens_path \<and> req_Method r = ''POST'' then
           (case tokens_create env user w db of (reply, db) \<Rightarrow> (reply, db, s))
         else if HasPrefix (req_Path r) ''/api/v1/agent-tokens/'' \<and> req_Method r = ''DELETE'' then
           tokens_revoke env user r w (db, s)
         else (agenttokens_writeError w 404 ''NOT_FOUND'' ''Route not found'', db, s))"

section \<open>What a request does to the database\<close>

interpretation create_token: db_service pg "\<lambda>(random, userID, name). tokens_Create pg random userID name" for pg
  by unfold_locales (auto simp: tokens_Create_def Let_def split: prod.splits sum.splits if_splits dest: exec_paths)

interpretation list_tokens: db_service pg "tokens_List pg" for pg
  by unfold_locales (auto simp: tokens_List_def split: prod.splits sum.splits dest: exec_paths)

interpretation revoke_token: db_service pg "\<lambda>(userID, tokenID). tokens_Revoke pg userID tokenID" for pg
  by unfold_locales (auto simp: tokens_Revoke_def split: prod.splits sum.splits db_error.splits dest: exec_paths)

lemma calls_ok_later [simp]: "calls_ok pg env \<Longrightarrow> calls_ok pg (later n env)"
  by (simp add: calls_ok_def later_def)

text \<open>Every API handler looks the user up first and then makes at most one call of its service.\<close>

lemma user_then_steps:
  assumes "calls_ok pg env" "db_steps pg (snd (UserFromAccessToken svc pg now token (env 0) db)) db'"
  shows "db_steps pg db db'"
  using assms UserFromAccessToken_steps [of svc pg now token "env 0" db] by (metis calls_okD prod.collapse rtranclp_trans)

lemma snd_tokens_handlers:
  "snd (tokens_list env user w db) = snd (tokens_List (ap_pg env) (usr_ID user) (later 1 (ap_calls env)) db)"
  "snd (tokens_create env user w db) = (case Decode name_struct (api_body (ap_body env)) [] of None \<Rightarrow> db
     | Some name \<Rightarrow> snd (tokens_Create (ap_pg env) (ap_random env) (usr_ID user) name (later 1 (ap_calls env)) db))"
  "fst (snd (tokens_revoke env user r w (db, s))) =
     (let i = TrimPrefix (req_Path r) ''/api/v1/agent-tokens/'' in
      if i = [] \<or> CHR ''/'' \<in> set i then db
      else snd (tokens_Revoke (ap_pg env) (usr_ID user) i (later 1 (ap_calls env)) db))"
  unfolding tokens_list_def tokens_create_def tokens_revoke_def Let_def
  by (simp_all split: option.split prod.split sum.split)

lemma tokens_ServeHTTP_steps:
  assumes "calls_ok (ap_pg env) (ap_calls env)"
  shows "db_steps (ap_pg env) db (fst (snd (tokens_ServeHTTP env r w (db, s))))"
proof -
  note later = calls_ok_later [OF assms, of 1]
  obtain res db1 where user: "UserFromAccessToken (ap_svc env) (ap_pg env) (ap_now env) (agenttokens_bearer r) (ap_calls env 0) db
      = (res, db1)" by fastforce
  have "db_steps (ap_pg env) db1 (snd (tokens_list env u w db1))" for u
    using list_tokens.call_steps [OF later] by (simp add: snd_tokens_handlers)
  moreover have "db_steps (ap_pg env) db1 (snd (tokens_create env u w db1))" for u
    using create_token.call_steps [OF later, of db1 "(ap_random env, usr_ID u, name)" for name]
    by (simp add: snd_tokens_handlers split: option.split)
  moreover have "db_steps (ap_pg env) db1 (fst (snd (tokens_revoke env u r w (db1, s))))" for u
    using revoke_token.call_steps [OF later, of db1 "(usr_ID u, i)" for i]
    by (simp add: snd_tokens_handlers Let_def)
  ultimately have "db_steps (ap_pg env) db1 (fst (snd (tokens_ServeHTTP env r w (db, s))))"
    unfolding tokens_ServeHTTP_def by (simp add: user case_prod_unfold split: sum.split)
  then show ?thesis
    using user_then_steps [OF assms] user by (metis snd_conv)
qed

end
