(* ===== verification/Agents.thy ===== *)
theory Agents
  imports Agent_Tokens
begin

text \<open>
  \<^verbatim>\<open>backend/internal/agents\<close>: the persistent record of an agent. \<open>agents_Connect\<close> writes it when
  a session starts, \<open>agents_Touch\<close> on every heartbeat, \<open>agents_Disconnect\<close> when a session ends.
\<close>

definition agents_Connect ::
    "postgres \<Rightarrow> string \<Rightarrow> ClientHelloPayload \<Rightarrow> call_env \<Rightarrow> database \<Rightarrow> (string + string) \<times> database" where
  "agents_Connect pg rawToken hello env db =
     (if TrimSpace (chp_InstanceID hello) = [] \<or> TrimSpace (chp_Hostname hello) = []
      then (Inl ''agent instance ID and hostname are required'', db)
      else
        case exec (env 0) (select_live_token pg (hex_EncodeToString (Sum256 (bytes_of rawToken)))) db of
          (Inl e, db) \<Rightarrow> (Inl (''find agent token: '' @ db_message pg e), db)
        | (Inr t, db) \<Rightarrow>
            (case exec (env 1) (upsert_agent pg (tk_user_id t) (tk_id t) (chp_InstanceID hello) (chp_Hostname hello)
                    (chp_OS hello) (chp_Arch hello) (chp_AgentVersion hello)) db of
               (Inl e, db) \<Rightarrow> (Inl (''upsert agent: '' @ db_message pg e), db)
             | (Inr agentID, db) \<Rightarrow> (Inr agentID, snd (exec (env 2) (touch_agent_token pg (tk_id t)) db))))"

definition agents_Touch :: "postgres \<Rightarrow> string \<Rightarrow> step_env \<Rightarrow> database \<Rightarrow> database" where
  "agents_Touch pg i env db = snd (exec env (touch_agent pg i) db)"

definition agents_Disconnect :: "postgres \<Rightarrow> string \<Rightarrow> step_env \<Rightarrow> database \<Rightarrow> database" where
  "agents_Disconnect pg i env db = snd (exec env (disconnect_agent pg i) db)"

definition agents_List :: "postgres \<Rightarrow> string \<Rightarrow> call_env \<Rightarrow> database \<Rightarrow> (string + agent_row list) \<times> database" where
  "agents_List pg userID env db =
     (case exec (env 0) (select_agents pg userID) db of
        (Inl e, db) \<Rightarrow> (Inl (''list agents: '' @ db_message pg e), db)
      | (Inr rows, db) \<Rightarrow> (Inr rows, db))"

definition Agent_json :: "(int \<Rightarrow> json) \<Rightarrow> agent_row \<Rightarrow> json" where
  "Agent_json time a = JObj [(''id'', JStr (ag_id a)), (''instanceID'', JStr (ag_instance_id a)),
     (''hostname'', JStr (ag_hostname a)), (''os'', JStr (ag_os a)), (''arch'', JStr (ag_arch a)),
     (''version'', JStr (ag_version a)), (''connected'', JBool (ag_connected a)),
     (''connectedAt'', opt_time time (ag_connected_at a)), (''disconnectedAt'', opt_time time (ag_disconnected_at a)),
     (''lastSeenAt'', opt_time time (ag_last_seen_at a))]"

definition agents_ServeHTTP :: "api_env \<Rightarrow> HTTPRequest \<Rightarrow> Header \<Rightarrow> database \<Rightarrow> http_outcome \<times> database" where
  "agents_ServeHTTP env r w db =
     (case UserFromAccessToken (ap_svc env) (ap_pg env) (ap_now env) (api_bearer (req_Header r)) (ap_calls env 0) db of
        (Inl e, db) \<Rightarrow> (agents_writeError w 401 ''UNAUTHORIZED'' ''Authentication required'', db)
      | (Inr user, db) \<Rightarrow>
          if req_Path r \<noteq> ''/api/v1/agents'' \<or> req_Method r \<noteq> ''GET''
          then (agents_writeError w 404 ''NOT_FOUND'' ''Route not found'', db)
          else
            (case agents_List (ap_pg env) (usr_ID user) (later 1 (ap_calls env)) db of
               (Inl e, db) \<Rightarrow> (agents_writeError w 500 ''INTERNAL_ERROR'' ''Unable to load agents'', db)
             | (Inr items, db) \<Rightarrow> (agents_writeData w 200 (JArr (map (Agent_json (ap_time env)) items)), db)))"

section \<open>What a call does to the database\<close>

lemma select_live_token_row:
  "exec env (select_live_token pg hash) db = (Inr t, db') \<Longrightarrow> t \<in> set (db_agent_tokens db')"
  by (auto simp: exec_def Let_def select_live_token_def with_defs find_Some_iff in_set_conv_nth
      split: db_run.splits sum.splits prod.splits option.splits)

text \<open>The token read before is still there, with its owner, when the agent's record is written.\<close>

lemma upsert_agent_steps:
  assumes "exec env (upsert_agent pg (tk_user_id t) (tk_id t) inst hostname os arch version) db = (res, db')"
    and "t \<in> set (db_agent_tokens db)" "env_ok pg env"
  shows "db_steps pg db db'"
proof -
  let ?db = "se_others env db"
  have path: "db_steps pg db ?db" and uuid: "canonical pg (se_uuid env)"
    using assms(3) by (auto simp: env_ok_def)
  from db_steps_facts [OF path] assms(2)
  obtain t' where t': "t' \<in> set (db_agent_tokens ?db)" "tk_id t' = tk_id t" "tk_user_id t' = tk_user_id t"
    unfolding facts_grow_def token_facts_def by (smt (verit) Pair_inject image_iff subset_iff)
  have "db' = ?db \<or> db_step pg ?db db'"
    using assms(1) db_step.UpsertAgent [OF uuid t'(1)] t'(2,3)
    by (auto simp: exec_def Let_def split: db_run.splits sum.splits prod.splits)
  with path show ?thesis by (auto intro: rtranclp.rtrancl_into_rtrancl)
qed

interpretation connect_agent: db_service pg "\<lambda>(rawToken, hello). agents_Connect pg rawToken hello" for pg
proof
  fix a :: "string \<times> ClientHelloPayload" and env db
  assume ok: "calls_ok pg env"
  obtain raw hello where a: "a = (raw, hello)" by (cases a)
  obtain res1 db1 where e1: "exec (env 0) (select_live_token pg (hex_EncodeToString (Sum256 (bytes_of raw)))) db = (res1, db1)"
    by fastforce
  have p1: "db_steps pg db db1" by (rule exec_paths(5) [OF e1]) (simp add: ok)
  show "db_steps pg db (snd ((case a of (rawToken, hello) \<Rightarrow> agents_Connect pg rawToken hello) env db))"
  proof (cases res1)
    case Inl
    with e1 p1 show ?thesis by (simp add: a agents_Connect_def)
  next
    case (Inr t)
    obtain res2 db2 where e2: "exec (env 1) (upsert_agent pg (tk_user_id t) (tk_id t) (chp_InstanceID hello) (chp_Hostname hello)
        (chp_OS hello) (chp_Arch hello) (chp_AgentVersion hello)) db1 = (res2, db2)" by fastforce
    have p2: "db_steps pg db1 db2"
      using upsert_agent_steps [OF e2] select_live_token_row e1 Inr ok by simp
    obtain res3 db3 where e3: "exec (env 2) (touch_agent_token pg (tk_id t)) db2 = (res3, db3)" by fastforce
    have "db_steps pg db2 db3" using exec_paths(17) [OF e3] ok by simp
    with e1 e2 e3 p1 p2 Inr show ?thesis
      by (auto simp: a agents_Connect_def split: sum.split intro: rtranclp_trans)
  qed
qed

lemma agents_Touch_steps: "env_ok pg env \<Longrightarrow> db_steps pg db (agents_Touch pg i env db)"
  unfolding agents_Touch_def by (metis exec_paths(18) prod.collapse)

lemma agents_Disconnect_steps: "env_ok pg env \<Longrightarrow> db_steps pg db (agents_Disconnect pg i env db)"
  unfolding agents_Disconnect_def by (metis exec_paths(19) prod.collapse)

interpretation list_agents: db_service pg "agents_List pg" for pg
  by unfold_locales (auto simp: agents_List_def split: prod.splits sum.splits dest: exec_paths)

lemma agents_ServeHTTP_steps:
  assumes "calls_ok (ap_pg env) (ap_calls env)"
  shows "db_steps (ap_pg env) db (snd (agents_ServeHTTP env r w db))"
proof (rule user_then_steps [OF assms])
  show "db_steps (ap_pg env) (snd (UserFromAccessToken (ap_svc env) (ap_pg env) (ap_now env) (api_bearer (req_Header r))
      (ap_calls env 0) db)) (snd (agents_ServeHTTP env r w db))"
    using list_agents.call_steps [OF calls_ok_later [OF assms, of 1]]
    unfolding agents_ServeHTTP_def by (simp add: case_prod_unfold split: sum.split)
qed

end
