(* ===== verification/Tunnel_Service.thy ===== *)
theory Tunnel_Service
  imports Agent_Tokens Public_Host
begin

text \<open>
  \<^verbatim>\<open>backend/internal/tunnels/service.go\<close> and \<^verbatim>\<open>http.go\<close>: the persistent record of tunnels. A
  tunnel whose session ended is closed and reopened, with its subdomain, when the agent asks for
  the same local address again.
\<close>

definition CloseAgentTunnels :: "postgres \<Rightarrow> string \<Rightarrow> step_env \<Rightarrow> database \<Rightarrow> database" where
  "CloseAgentTunnels pg agentID env db =
     (if agentID = [] then db else snd (exec env (close_agent_tunnels pg agentID) db))"

definition ReopenForSession ::
    "postgres \<Rightarrow> string + string \<Rightarrow> string \<Rightarrow> string \<Rightarrow> call_env \<Rightarrow> database \<Rightarrow> (string + tunnel_row) \<times> database" where
  "ReopenForSession pg generated agentID localAddress env db =
     (case exec (env 0) (reopen_tunnel pg agentID localAddress) db of
        (Inr t, db) \<Rightarrow> (Inr t, db)
      | (Inl e, db) \<Rightarrow>
          if e \<noteq> NoRows then (Inl (''reopen tunnel: '' @ db_message pg e), db)
          else
            case generated of
              Inl e \<Rightarrow> (Inl e, db)
            | Inr subdomain \<Rightarrow>
                (case exec (env 1) (insert_tunnel pg agentID subdomain localAddress) db of
                   (Inl e, db) \<Rightarrow> (Inl (''create tunnel: '' @ db_message pg e), db)
                 | (Inr t, db) \<Rightarrow> (Inr t, db)))"

definition tunnels_List :: "postgres \<Rightarrow> string \<Rightarrow> call_env \<Rightarrow> database \<Rightarrow> (string + tunnel_row list) \<times> database" where
  "tunnels_List pg userID env db =
     (case exec (env 0) (select_tunnels pg userID) db of
        (Inl e, db) \<Rightarrow> (Inl (''list tunnels: '' @ db_message pg e), db)
      | (Inr rows, db) \<Rightarrow> (Inr rows, db))"

definition Tunnel_json :: "(int \<Rightarrow> json) \<Rightarrow> tunnel_row \<Rightarrow> json" where
  "Tunnel_json time t = JObj [(''id'', JStr (tn_id t)), (''subdomain'', JStr (tn_subdomain t)),
     (''localAddress'', JStr (tn_local_address t)), (''status'', JStr (tn_status t)),
     (''openedAt'', opt_time time (tn_opened_at t)), (''closedAt'', opt_time time (tn_closed_at t)),
     (''agentId'', JStr (tn_agent_id t))]"

definition tunnels_ServeHTTP :: "api_env \<Rightarrow> HTTPRequest \<Rightarrow> Header \<Rightarrow> database \<Rightarrow> http_outcome \<times> database" where
  "tunnels_ServeHTTP env r w db =
     (case UserFromAccessToken (ap_svc env) (ap_pg env) (ap_now env) (api_bearer (req_Header r)) (ap_calls env 0) db of
        (Inl e, db) \<Rightarrow> (tunnels_writeError w 401 ''UNAUTHORIZED'' ''Authentication required'', db)
      | (Inr user, db) \<Rightarrow>
          if req_Path r \<noteq> ''/api/v1/tunnels'' \<or> req_Method r \<noteq> ''GET''
          then (tunnels_writeError w 404 ''NOT_FOUND'' ''Route not found'', db)
          else
            (case tunnels_List (ap_pg env) (usr_ID user) (later 1 (ap_calls env)) db of
               (Inl e, db) \<Rightarrow> (tunnels_writeError w 500 ''INTERNAL_ERROR'' ''Unable to load tunnels'', db)
             | (Inr items, db) \<Rightarrow> (tunnels_writeData w 200 (JArr (map (Tunnel_json (ap_time env)) items)), db)))"

section \<open>What a call does to the database\<close>

lemma CloseAgentTunnels_steps: "env_ok pg env \<Longrightarrow> db_steps pg db (CloseAgentTunnels pg agentID env db)"
  unfolding CloseAgentTunnels_def by (metis exec_paths(20) prod.collapse rtranclp.rtrancl_refl)

interpretation reopen_session: db_service pg
    "\<lambda>(generated, agentID, localAddress). ReopenForSession pg generated agentID localAddress" for pg
  by unfold_locales (auto simp: ReopenForSession_def split: prod.splits sum.splits if_splits
      dest!: exec_paths intro: rtranclp_trans)

interpretation list_tunnels: db_service pg "tunnels_List pg" for pg
  by unfold_locales (auto simp: tunnels_List_def split: prod.splits sum.splits dest: exec_paths)

lemma tunnels_ServeHTTP_steps:
  assumes "calls_ok (ap_pg env) (ap_calls env)"
  shows "db_steps (ap_pg env) db (snd (tunnels_ServeHTTP env r w db))"
proof (rule user_then_steps [OF assms])
  show "db_steps (ap_pg env) (snd (UserFromAccessToken (ap_svc env) (ap_pg env) (ap_now env) (api_bearer (req_Header r))
      (ap_calls env 0) db)) (snd (tunnels_ServeHTTP env r w db))"
    using list_tunnels.call_steps [OF calls_ok_later [OF assms, of 1]]
    unfolding tunnels_ServeHTTP_def by (simp add: case_prod_unfold split: sum.split)
qed

end
