(* ===== verification/Traffic.thy ===== *)
theory Traffic
  imports Agent_Tokens Tunnel_Registry
begin

text \<open>
  \<^verbatim>\<open>backend/internal/traffic\<close>: the traffic totals of a user.
\<close>

definition AddDelta ::
    "postgres \<Rightarrow> string \<Rightarrow> TrafficMetrics \<Rightarrow> step_env \<Rightarrow> database \<Rightarrow> string option \<times> database" where
  "AddDelta pg userID delta env db =
     (case exec env (add_delta pg userID (uint (tm_RequestsTotal delta)) (uint (tm_RequestBytes delta))
                       (uint (tm_ResponseBytes delta))) db of
        (Inl e, db) \<Rightarrow> (Some (''add traffic delta: '' @ db_message pg e), db)
      | (Inr _, db) \<Rightarrow> (None, db))"

definition GetTotals ::
    "postgres \<Rightarrow> string \<Rightarrow> call_env \<Rightarrow> database \<Rightarrow> (string + int \<times> int \<times> int) \<times> database" where
  "GetTotals pg userID env db =
     (case exec (env 0) (select_totals pg userID) db of
        (Inr t, db) \<Rightarrow> (Inr (tr_requests_total t, tr_request_bytes t, tr_response_bytes t), db)
      | (Inl NoRows, db) \<Rightarrow> (Inr (0, 0, 0), db)
      | (Inl e, db) \<Rightarrow> (Inl (''get traffic totals: '' @ db_message pg e), db))"

definition Totals_json :: "int \<times> int \<times> int \<Rightarrow> json" where
  "Totals_json = (\<lambda>(n, p, q). JObj [(''requestsTotal'', JNum (show_int n)), (''requestBytes'', JNum (show_int p)),
     (''responseBytes'', JNum (show_int q))])"

definition traffic_ServeHTTP :: "api_env \<Rightarrow> HTTPRequest \<Rightarrow> Header \<Rightarrow> database \<Rightarrow> http_outcome \<times> database" where
  "traffic_ServeHTTP env r w db =
     (case UserFromAccessToken (ap_svc env) (ap_pg env) (ap_now env) (api_bearer (req_Header r)) (ap_calls env 0) db of
        (Inl e, db) \<Rightarrow> (traffic_writeError w 401 ''UNAUTHORIZED'' ''Authentication required'', db)
      | (Inr user, db) \<Rightarrow>
          if req_Path r \<noteq> ''/api/v1/traffic'' \<or> req_Method r \<noteq> ''GET''
          then (traffic_writeError w 404 ''NOT_FOUND'' ''Route not found'', db)
          else
            (case GetTotals (ap_pg env) (usr_ID user) (later 1 (ap_calls env)) db of
               (Inl e, db) \<Rightarrow> (traffic_writeError w 500 ''INTERNAL_ERROR'' ''Unable to load traffic totals'', db)
             | (Inr totals, db) \<Rightarrow> (traffic_writeData w 200 (Totals_json totals), db)))"

section \<open>What a call does to the database\<close>

lemma AddDelta_steps: "env_ok pg env \<Longrightarrow> db_steps pg db (snd (AddDelta pg userID delta env db))"
proof -
  assume ok: "env_ok pg env"
  obtain res db' where e: "exec env (add_delta pg userID (uint (tm_RequestsTotal delta)) (uint (tm_RequestBytes delta))
      (uint (tm_ResponseBytes delta))) db = (res, db')" by fastforce
  have "db_steps pg db db'"
    by (rule exec_steps [OF e ok]) (auto intro: db_step.AddDelta)
  with e show ?thesis by (simp add: AddDelta_def split: sum.split)
qed

interpretation get_totals: db_service pg "GetTotals pg" for pg
  by unfold_locales (auto simp: GetTotals_def split: prod.splits sum.splits db_error.splits dest: exec_paths)

lemma traffic_ServeHTTP_steps:
  assumes "calls_ok (ap_pg env) (ap_calls env)"
  shows "db_steps (ap_pg env) db (snd (traffic_ServeHTTP env r w db))"
proof (rule user_then_steps [OF assms])
  show "db_steps (ap_pg env) (snd (UserFromAccessToken (ap_svc env) (ap_pg env) (ap_now env) (api_bearer (req_Header r))
      (ap_calls env 0) db)) (snd (traffic_ServeHTTP env r w db))"
    using get_totals.call_steps [OF calls_ok_later [OF assms, of 1]]
    unfolding traffic_ServeHTTP_def by (simp add: case_prod_unfold split: sum.split)
qed

end
