(* ===== verification/Server.thy ===== *)
theory Server
  imports Web_Api Encodings
begin

text \<open>
  \<^verbatim>\<open>backend/internal/server\<close>: the middleware around the handlers, the routes, and the metrics. A
  handler maps the request, the response header set so far and the state of the process to its
  outcome and the next state; like \<open>NewHandler\<close> itself the model takes the handlers of the other
  packages as arguments, and the state is a record they may extend. \<open>Waiting\<close> is a handler that
  has not returned. What an outside source contributes to one request is a \<open>server_env\<close>.

  Standard library behaviour taken as an argument: how \<open>fmt\<close> prints a quoted string and a
  number of seconds, how the router writes a redirect, and \<open>URL.EscapedPath\<close>.
\<close>

section \<open>State\<close>

record metricValue =
  mv_count :: u64
  mv_duration :: int
  mv_inFlight :: u64

record log_entry =
  le_request_id :: string
  le_method :: string
  le_path :: string
  le_remote_ip :: string
  le_duration_ms :: int

record server_state =
  sv_metrics :: "(string, metricValue) gomap"
  sv_log :: "log_entry list"

type_synonym 's handler = "HTTPRequest \<Rightarrow> Header \<Rightarrow> 's \<Rightarrow> http_outcome progress \<times> 's"

record server_env =
  sn_random :: "byte list option"
  sn_elapsed :: int
  sn_escapedPath :: string

definition reply :: "http_outcome \<Rightarrow> http_outcome progress" where
  "reply x = Returned x"

section \<open>Request identifiers and the log\<close>

definition newRequestID :: "byte list option \<Rightarrow> string" where
  "newRequestID random =
     (case random of None \<Rightarrow> ''req_unavailable'' | Some bytes \<Rightarrow> ''req_'' @ hex_EncodeToString bytes)"

definition validRequestID :: "string \<Rightarrow> bool" where
  "validRequestID i \<longleftrightarrow> \<not> (length i < 8 \<or> length i > 128) \<and> list_all id_char i"

definition requestID :: "server_env \<Rightarrow> (string \<Rightarrow> 's handler) \<Rightarrow> 's handler" where
  "requestID env wrapped r w s =
     (let i = header_Get (req_Header r) ''X-Request-ID'';
          i = (if \<not> validRequestID i then newRequestID (sn_random env) else i)
      in wrapped i r (header_Set ''X-Request-ID'' i w) s)"

definition clientIP :: "string \<Rightarrow> string" where
  "clientIP remoteAddr =
     (case LastIndexByte remoteAddr CHR '':'' of
        Some (Suc i) \<Rightarrow> take (Suc i) remoteAddr
      | _ \<Rightarrow> remoteAddr)"

definition requestLog :: "server_env \<Rightarrow> 'a server_state_scheme handler \<Rightarrow> string \<Rightarrow> 'a server_state_scheme handler" where
  "requestLog env wrapped i r w s =
     (case wrapped r w s of
        (Returned (Replied rep), s) \<Rightarrow>
          (Returned (Replied rep), s\<lparr>sv_log := sv_log s @ [\<lparr>le_request_id = i, le_method = req_Method r, le_path = req_Path r,
             le_remote_ip = clientIP (req_RemoteAddr r), le_duration_ms = sn_elapsed env div 1000000\<rparr>]\<rparr>)
      | other \<Rightarrow> other)"

section \<open>Security headers and CORS\<close>

definition control_plane :: "HTTPRequest \<Rightarrow> bool" where
  "control_plane r \<longleftrightarrow> HasPrefix (req_Path r) ''/api/'' \<or> req_Path r = ''/health/live'' \<or> req_Path r = ''/health/ready''"

definition securityHeaders :: "'s handler \<Rightarrow> 's handler" where
  "securityHeaders wrapped r w s =
     wrapped r
       (if control_plane r then
          (let w = header_Set ''X-Content-Type-Options'' ''nosniff'' w;
               w = header_Set ''X-Frame-Options'' ''DENY'' w;
               w = header_Set ''Referrer-Policy'' ''no-referrer'' w;
               w = header_Set ''Permissions-Policy'' ''camera=(), geolocation=(), microphone=()'' w;
               w = header_Set ''Content-Security-Policy''
                     (''default-src '' @ [CHR 0x27] @ ''none'' @ [CHR 0x27] @ ''; base-uri '' @ [CHR 0x27] @ ''none'' @ [CHR 0x27]
                      @ ''; frame-ancestors '' @ [CHR 0x27] @ ''none'' @ [CHR 0x27] @ ''; form-action '' @ [CHR 0x27] @ ''none'' @ [CHR 0x27]) w;
               w = header_Set ''Cache-Control'' ''no-store'' w
           in if req_TLS r then header_Set ''Strict-Transport-Security'' ''max-age=31536000'' w else w)
        else w) s"

definition cors :: "string list \<Rightarrow> 's handler \<Rightarrow> 's handler" where
  "cors allowedOrigins wrapped r w s =
     (if \<not> HasPrefix (req_Path r) ''/api/'' then wrapped r w s
      else
        let origin = header_Get (req_Header r) ''Origin'' in
        if origin = [] then wrapped r w s
        else if origin \<notin> set allowedOrigins then
          (if req_Method r = ''OPTIONS'' then (reply (WriteHeader 403 w []), s)
           else (reply (http_Error w ''origin is not allowed'' 403), s))
        else
          let w = header_Set ''Access-Control-Allow-Origin'' origin w;
              w = header_Set ''Access-Control-Allow-Credentials'' ''true'' w;
              w = header_Add ''Vary'' ''Origin'' w
          in if req_Method r = ''OPTIONS'' then
               (reply (WriteHeader 204
                  (header_Set ''Access-Control-Max-Age'' ''600''
                    (header_Set ''Access-Control-Allow-Headers'' ''Authorization, Content-Type''
                      (header_Set ''Access-Control-Allow-Methods'' ''GET, POST, DELETE, OPTIONS'' w))) []), s)
             else wrapped r w s)"

section \<open>Metrics\<close>

definition NewMetrics :: "(string, metricValue) gomap" where
  "NewMetrics = []"

definition metricRoute :: "string \<Rightarrow> string" where
  "metricRoute path =
     (if HasPrefix path ''/api/'' then ''api'' else if HasPrefix path ''/health/'' then ''health'' else ''tunnel'')"

definition metric_value :: "string \<Rightarrow> (string, metricValue) gomap \<Rightarrow> metricValue" where
  "metric_value key m =
     (case map_of m key of None \<Rightarrow> \<lparr>mv_count = 0, mv_duration = 0, mv_inFlight = 0\<rparr> | Some v \<Rightarrow> v)"

definition metric_update :: "string \<Rightarrow> (metricValue \<Rightarrow> metricValue) \<Rightarrow> 'a server_state_scheme \<Rightarrow> 'a server_state_scheme" where
  "metric_update key f s = s\<lparr>sv_metrics := map_put key (f (metric_value key (sv_metrics s))) (sv_metrics s)\<rparr>"

definition request_key :: "HTTPRequest \<Rightarrow> string" where
  "request_key r = req_Method r @ '':'' @ metricRoute (req_Path r)"

definition metrics_Middleware :: "server_env \<Rightarrow> 'a server_state_scheme handler \<Rightarrow> 'a server_state_scheme handler" where
  "metrics_Middleware env wrapped r w s =
     (if req_Path r = ''/metrics'' then wrapped r w s
      else
        let key = request_key r;
            s = metric_update key (\<lambda>v. v\<lparr>mv_inFlight := mv_inFlight v + 1\<rparr>) s
        in case wrapped r w s of
             (Returned (Replied rep), s) \<Rightarrow>
               (Returned (Replied rep), metric_update key (\<lambda>v. v\<lparr>mv_inFlight := mv_inFlight v - 1, mv_count := mv_count v + 1,
                  mv_duration := mv_duration v + sn_elapsed env\<rparr>) s)
           | other \<Rightarrow> other)"

record GatewayMetrics =
  gm_ActiveSessions :: u64
  gm_PendingRequests :: u64
  gm_ConnectionsTotal :: u64
  gm_DisconnectionsTotal :: u64

record TunnelTrafficMetrics =
  tt_RequestsTotal :: u64
  tt_RequestBytes :: u64
  tt_ResponseBytes :: u64

definition u64_text :: "u64 \<Rightarrow> string" where
  "u64_text x = show_nat (unat x)"

definition metric_lines :: "(string \<Rightarrow> string) \<Rightarrow> (int \<Rightarrow> string) \<Rightarrow> string \<times> metricValue \<Rightarrow> string list" where
  "metric_lines quoted seconds = (\<lambda>(key, v).
     let (method, route) = Cut CHR '':'' key;
         labels = ''{method='' @ quoted method @ '',route='' @ quoted route @ ''} ''
     in [''myngrok_http_requests_total'' @ labels @ u64_text (mv_count v),
         ''myngrok_http_request_duration_seconds_total'' @ labels @ seconds (mv_duration v),
         ''myngrok_http_requests_in_flight'' @ labels @ u64_text (mv_inFlight v)])"

definition metric_series :: "string \<Rightarrow> string \<Rightarrow> string \<Rightarrow> u64 \<Rightarrow> string list" where
  "metric_series name help kind x =
     [''# HELP '' @ name @ '' '' @ help, ''# TYPE '' @ name @ '' '' @ kind, name @ '' '' @ u64_text x]"

definition metrics_text ::
    "(string \<Rightarrow> string) \<Rightarrow> (int \<Rightarrow> string) \<Rightarrow> GatewayMetrics option \<Rightarrow> TunnelTrafficMetrics option
      \<Rightarrow> (string, metricValue) gomap \<Rightarrow> string list" where
  "metrics_text quoted seconds gateway traffic m =
     [''# HELP myngrok_http_requests_total Completed HTTP requests by method and route group.'',
      ''# TYPE myngrok_http_requests_total counter'',
      ''# HELP myngrok_http_request_duration_seconds_total Total HTTP request duration by method and route group.'',
      ''# TYPE myngrok_http_request_duration_seconds_total counter'',
      ''# HELP myngrok_http_requests_in_flight Current in-flight HTTP requests by method and route group.'',
      ''# TYPE myngrok_http_requests_in_flight gauge'']
     @ concat (map (metric_lines quoted seconds) (sort_key fst m))
     @ (case gateway of None \<Rightarrow> []
        | Some g \<Rightarrow>
            metric_series ''myngrok_gateway_active_sessions'' ''Current active agent sessions.'' ''gauge'' (gm_ActiveSessions g)
            @ metric_series ''myngrok_gateway_pending_requests'' ''Current requests awaiting an agent response.'' ''gauge''
                (gm_PendingRequests g)
            @ metric_series ''myngrok_gateway_connections_total'' ''Agent sessions registered since process start.'' ''counter''
                (gm_ConnectionsTotal g)
            @ metric_series ''myngrok_gateway_disconnections_total'' ''Agent sessions disconnected since process start.''
                ''counter'' (gm_DisconnectionsTotal g))
     @ (case traffic of None \<Rightarrow> []
        | Some t \<Rightarrow>
            metric_series ''myngrok_tunnel_traffic_requests_total'' ''Successfully completed public tunnel requests.''
              ''counter'' (tt_RequestsTotal t)
            @ metric_series ''myngrok_tunnel_traffic_request_bytes_total'' ''Public request body bytes forwarded to agents.''
                ''counter'' (tt_RequestBytes t)
            @ metric_series ''myngrok_tunnel_traffic_response_bytes_total''
                ''Agent response body bytes returned to public clients.'' ''counter'' (tt_ResponseBytes t))"

definition metrics_ServeHTTP ::
    "(string \<Rightarrow> string) \<Rightarrow> (int \<Rightarrow> string) \<Rightarrow> ('a server_state_scheme \<Rightarrow> GatewayMetrics) option
      \<Rightarrow> ('a server_state_scheme \<Rightarrow> TunnelTrafficMetrics) option \<Rightarrow> 'a server_state_scheme handler" where
  "metrics_ServeHTTP quoted seconds gatewayCollector trafficCollector r w s =
     (reply (WriteHeader 200 (header_Set ''Content-Type'' ''text/plain; version=0.0.4; charset=utf-8'' w)
        (bytes_of (concat (map (\<lambda>l. l @ [CHR 0x0A])
           (metrics_text quoted seconds (map_option (\<lambda>c. c s) gatewayCollector) (map_option (\<lambda>c. c s) trafficCollector)
              (sv_metrics s)))))), s)"

section \<open>Routes\<close>

text \<open>
  \<open>http.ServeMux\<close> for the patterns the server registers. The path is cleaned first and matched
  segment by segment, after undoing percent escapes. A pattern that ends in a slash stands for a
  subtree; \<open>GET\<close> patterns also serve \<open>HEAD\<close>; everything else goes to the public handler,
  whatever the host. A path that is not clean, and the root of a subtree without its slash, are
  redirected instead.
\<close>

datatype route = R_Metrics | R_Live | R_Ready | R_Auth | R_Tokens | R_TokensTree | R_Connect
  | R_Agents | R_Tunnels | R_Traffic | R_Public

fun PathUnescape :: "string \<Rightarrow> string option" where
  "PathUnescape [] = Some []"
| "PathUnescape (c # s) =
     (if c = CHR ''%'' then
        (case s of
           a # b # t \<Rightarrow>
             (case (hex_value a, hex_value b) of
                (Some x, Some y) \<Rightarrow> map_option (\<lambda>u. char_of (16 * x + y) # u) (PathUnescape t)
              | _ \<Rightarrow> None)
         | _ \<Rightarrow> None)
      else map_option (\<lambda>u. c # u) (PathUnescape s))"

definition path_segments :: "string \<Rightarrow> string list" where
  "path_segments path =
     map (\<lambda>s. case PathUnescape s of None \<Rightarrow> s | Some t \<Rightarrow> t) (SplitByte CHR ''/'' (tl path))"

definition clean_step :: "string \<Rightarrow> string list \<Rightarrow> string list" where
  "clean_step seg acc = (if seg = [] \<or> seg = ''.'' then acc else if seg = ''..'' then tl acc else seg # acc)"

definition cleanPath :: "string \<Rightarrow> string" where
  "cleanPath p =
     (if p = [] then ''/''
      else
        let p = (if hd p \<noteq> CHR ''/'' then CHR ''/'' # p else p);
            segs = rev (fold clean_step (SplitByte CHR ''/'' (tl p)) []);
            np = (if segs = [] then ''/'' else concat (map (\<lambda>s. CHR ''/'' # s) segs))
        in if last p = CHR ''/'' \<and> np \<noteq> ''/'' then np @ ''/'' else np)"

definition route_of :: "string \<Rightarrow> string list \<Rightarrow> route" where
  "route_of method segs =
     (let get = (method = ''GET'' \<or> method = ''HEAD'') in
      if segs = [''metrics''] \<and> get then R_Metrics
      else if segs = [''health'', ''live''] \<and> get then R_Live
      else if segs = [''health'', ''ready''] \<and> get then R_Ready
      else if take 2 segs = [''api'', ''v1''] then
        (let rest = drop 2 segs in
         if rest = [''agent-tokens''] then R_Tokens
         else if rest = [''agent'', ''connect''] then R_Connect
         else if rest = [''agents''] then R_Agents
         else if rest = [''tunnels''] then R_Tunnels
         else if rest = [''traffic''] then R_Traffic
         else if length rest \<ge> 2 \<and> hd rest = ''auth'' then R_Auth
         else if length rest \<ge> 2 \<and> hd rest = ''agent-tokens'' then R_TokensTree
         else R_Public)
      else R_Public)"

datatype mux_result = To route | RedirectTo string

definition mux_dispatch :: "HTTPRequest \<Rightarrow> string \<Rightarrow> mux_result" where
  "mux_dispatch r escapedPath =
     (let path = (if req_Method r = ''CONNECT'' then escapedPath else cleanPath escapedPath) in
      if path_segments path = [''api'', ''v1'', ''auth''] then RedirectTo (cleanPath (req_Path r) @ ''/'')
      else if req_Method r \<noteq> ''CONNECT'' \<and> path \<noteq> escapedPath then RedirectTo path
      else To (route_of (req_Method r) (path_segments path)))"

definition health :: "'s handler" where
  "health r w s = (reply (json_reply w 200 (JObj [(''status'', JStr ''ok'')])), s)"

definition readiness :: "('s \<Rightarrow> bool) \<Rightarrow> 's handler" where
  "readiness ready r w s =
     (if \<not> ready s then (reply (json_reply w 503 (JObj [(''status'', JStr ''not ready'')])), s) else health r w s)"

record 's handlers =
  hs_metrics :: "'s handler"
  hs_ready :: "'s \<Rightarrow> bool"
  hs_auth :: "'s handler"
  hs_agentToken :: "'s handler"
  hs_agentConnect :: "'s handler"
  hs_agents :: "'s handler"
  hs_tunnels :: "'s handler"
  hs_traffic :: "'s handler"
  hs_public :: "'s handler"
  hs_redirect :: "string \<Rightarrow> 's handler"

definition serve_route :: "'s handlers \<Rightarrow> route \<Rightarrow> 's handler" where
  "serve_route hs rt =
     (case rt of
        R_Metrics \<Rightarrow> hs_metrics hs
      | R_Live \<Rightarrow> health
      | R_Ready \<Rightarrow> readiness (hs_ready hs)
      | R_Auth \<Rightarrow> hs_auth hs
      | R_Tokens \<Rightarrow> hs_agentToken hs
      | R_TokensTree \<Rightarrow> hs_agentToken hs
      | R_Connect \<Rightarrow> hs_agentConnect hs
      | R_Agents \<Rightarrow> hs_agents hs
      | R_Tunnels \<Rightarrow> hs_tunnels hs
      | R_Traffic \<Rightarrow> hs_traffic hs
      | R_Public \<Rightarrow> hs_public hs)"

definition mux_ServeHTTP :: "server_env \<Rightarrow> 's handlers \<Rightarrow> 's handler" where
  "mux_ServeHTTP env hs r w s =
     (case mux_dispatch r (sn_escapedPath env) of
        RedirectTo path \<Rightarrow> hs_redirect hs path r w s
      | To rt \<Rightarrow> serve_route hs rt r w s)"

definition NewHandler ::
    "server_env \<Rightarrow> 'a server_state_scheme handlers \<Rightarrow> string list \<Rightarrow> 'a server_state_scheme handler" where
  "NewHandler env hs corsAllowedOrigins =
     requestID env (requestLog env (securityHeaders (cors corsAllowedOrigins (metrics_Middleware env (mux_ServeHTTP env hs)))))"

section \<open>What a request may do to the state\<close>

text \<open>
  A relation between the state before and after that every handler keeps, and that does not
  look at metrics and log, holds of every request.
\<close>

locale request_relation =
  fixes R :: "'a server_state_scheme \<Rightarrow> 'a server_state_scheme \<Rightarrow> bool"
    and hs :: "'a server_state_scheme handlers"
  assumes R_refl: "R s s"
    and R_trans: "R s s' \<Longrightarrow> R s' s'' \<Longrightarrow> R s s''"
    and R_metrics: "R s (s\<lparr>sv_metrics := m\<rparr>)"
    and R_log: "R s (s\<lparr>sv_log := l\<rparr>)"
    and R_route: "R s (snd (serve_route hs rt r w s))"
    and R_redirect: "R s (snd (hs_redirect hs path r w s))"
begin

lemma R_mux: "R s (snd (mux_ServeHTTP env hs r w s))"
  by (simp add: mux_ServeHTTP_def R_route R_redirect split: mux_result.split)

lemma R_update: "R s (metric_update key f s)"
  by (simp add: metric_update_def R_metrics)

lemma R_Middleware: "R s (snd (metrics_Middleware env (mux_ServeHTTP env hs) r w s))"
proof (cases "req_Path r = ''/metrics''")
  case True
  then show ?thesis by (simp add: metrics_Middleware_def R_mux)
next
  case False
  define s1 where "s1 = metric_update (request_key r) (\<lambda>v. v\<lparr>mv_inFlight := mv_inFlight v + 1\<rparr>) s"
  obtain out s2 where inner: "mux_ServeHTTP env hs r w s1 = (out, s2)" by fastforce
  have "R s s1" unfolding s1_def by (rule R_update)
  moreover have "R s1 s2" using R_mux [of s1 env r w] inner by simp
  ultimately have s2: "R s s2" by (rule R_trans)
  have updated: "R s (metric_update key f s2)" for key f
    by (rule R_trans [OF s2 R_update])
  show ?thesis
    using False inner s2 updated unfolding metrics_Middleware_def Let_def s1_def [symmetric]
    by (simp split: progress.split http_outcome.split)
qed

lemma R_cors: "R s (snd (cors allowed (metrics_Middleware env (mux_ServeHTTP env hs)) r w s))"
  by (simp add: cors_def Let_def R_refl R_Middleware)

lemma R_request: "R s (snd (NewHandler env hs allowed r w s))"
proof -
  let ?inner = "securityHeaders (cors allowed (metrics_Middleware env (mux_ServeHTTP env hs)))"
  have inner: "R s (snd (?inner r w s))" for w
    unfolding securityHeaders_def by (rule R_cors)
  have "R s (snd (requestLog env ?inner i r w s))" for i w
  proof -
    obtain out s1 where run: "?inner r w s = (out, s1)" by fastforce
    then have s1: "R s s1" using inner [of w] by simp
    have "R s (s1\<lparr>sv_log := l\<rparr>)" for l
      by (rule R_trans [OF s1 R_log])
    with s1 show ?thesis
      unfolding requestLog_def run by (simp split: progress.split http_outcome.split)
  qed
  then show ?thesis by (simp add: NewHandler_def requestID_def Let_def)
qed

end

section \<open>Origins\<close>

lemma header_key:
  "CanonicalMIMEHeaderKey ''X-Request-ID'' = ''X-Request-Id''"
  "CanonicalMIMEHeaderKey ''Access-Control-Allow-Origin'' = ''Access-Control-Allow-Origin''"
  "CanonicalMIMEHeaderKey ''X-Content-Type-Options'' = ''X-Content-Type-Options''"
  "CanonicalMIMEHeaderKey ''X-Frame-Options'' = ''X-Frame-Options''"
  "CanonicalMIMEHeaderKey ''Referrer-Policy'' = ''Referrer-Policy''"
  "CanonicalMIMEHeaderKey ''Permissions-Policy'' = ''Permissions-Policy''"
  "CanonicalMIMEHeaderKey ''Content-Security-Policy'' = ''Content-Security-Policy''"
  "CanonicalMIMEHeaderKey ''Cache-Control'' = ''Cache-Control''"
  "CanonicalMIMEHeaderKey ''Strict-Transport-Security'' = ''Strict-Transport-Security''"
  "CanonicalMIMEHeaderKey ''Content-Type'' = ''Content-Type''"
  "CanonicalMIMEHeaderKey ''Content-Length'' = ''Content-Length''"
  by code_simp+

text \<open>
  C30: a browser page of a foreign origin cannot use the API. A request under \<open>/api/\<close> whose
  \<open>Origin\<close> is not on the list is answered 403, without a header that would let the page read the
  answer and with the frame and caching headers; no handler runs and nothing but the log changes.
\<close>

theorem foreign_origin_is_refused:
  assumes "HasPrefix (req_Path r) ''/api/''" "header_Get (req_Header r) ''Origin'' \<noteq> []"
    "header_Get (req_Header r) ''Origin'' \<notin> set allowed"
  shows "\<exists>entry rep. NewHandler env hs allowed r [] s = (Returned (Replied rep), s\<lparr>sv_log := sv_log s @ [entry]\<rparr>)
    \<and> rep_Status rep = 403 \<and> header_Values (rep_Header rep) ''Access-Control-Allow-Origin'' = []
    \<and> header_Values (rep_Header rep) ''X-Frame-Options'' = [''DENY'']
    \<and> header_Values (rep_Header rep) ''Cache-Control'' = [''no-store'']"
proof -
  define i where "i = (let i = header_Get (req_Header r) ''X-Request-ID'' in if \<not> validRequestID i then newRequestID (sn_random env) else i)"
  have served: "NewHandler env hs allowed r [] s = requestLog env (securityHeaders (cors allowed
      (metrics_Middleware env (mux_ServeHTTP env hs)))) i r (header_Set ''X-Request-ID'' i []) s"
    by (simp add: NewHandler_def requestID_def i_def Let_def)
  show ?thesis
    unfolding served using assms
    by (intro exI [of _ "\<lparr>le_request_id = i, le_method = req_Method r, le_path = req_Path r,
          le_remote_ip = clientIP (req_RemoteAddr r), le_duration_ms = sn_elapsed env div 1000000\<rparr>"])
      (simp add: requestLog_def securityHeaders_def control_plane_def cors_def Let_def reply_def
        http_Error_def WriteHeader_def header_Set_def header_Del_def header_Values_def header_key)
qed

definition foreign_request :: HTTPRequest where
  "foreign_request = \<lparr>req_Method = ''POST'', req_Host = ''tunnel.example.test'', req_RemoteAddr = ''192.0.2.7:4000'',
     req_RequestURI = ''/api/v1/auth/login'', req_Path = ''/api/v1/auth/login'',
     req_Header = [(''Origin'', [''https://evil.test''])], req_TLS = True, req_ContentLength = 0\<rparr>"

definition idle_handlers :: "server_state handlers" where
  "idle_handlers = (let h = (\<lambda>r w s. (Waiting, s)) in
     \<lparr>hs_metrics = h, hs_ready = (\<lambda>_. True), hs_auth = h, hs_agentToken = h, hs_agentConnect = h, hs_agents = h, hs_tunnels = h,
      hs_traffic = h, hs_public = h, hs_redirect = (\<lambda>_. h)\<rparr>)"

theorem foreign_origin_is_refused_witness:
  "\<exists>rep entry. NewHandler \<lparr>sn_random = None, sn_elapsed = 0, sn_escapedPath = ''/api/v1/auth/login''\<rparr> idle_handlers
      [''https://app.test''] foreign_request [] \<lparr>sv_metrics = NewMetrics, sv_log = []\<rparr>
      = (Returned (Replied rep), \<lparr>sv_metrics = NewMetrics, sv_log = [entry]\<rparr>) \<and> rep_Status rep = 403"
proof -
  have "header_Get (req_Header foreign_request) ''Origin'' = ''https://evil.test''" "HasPrefix (req_Path foreign_request) ''/api/''"
    by code_simp+
  then show ?thesis
    using foreign_origin_is_refused [of foreign_request "[''https://app.test'']"
        "\<lparr>sn_random = None, sn_elapsed = 0, sn_escapedPath = ''/api/v1/auth/login''\<rparr>" idle_handlers
        "\<lparr>sv_metrics = NewMetrics, sv_log = []\<rparr>"] by auto
qed

end
