(* ===== verification/Config.thy ===== *)
theory Config
  imports Go_Json
begin

text \<open>
  \<^verbatim>\<open>backend/internal/config/config.go\<close>: the configuration of the server from its environment
  variables. \<open>getenv\<close> is the environment (the empty string for an unset variable);
  \<open>time.ParseDuration\<close>, which computes with floating point numbers, and \<open>strings.ToUpper\<close>
  beyond ASCII are arguments.
\<close>

record AuthConfig =
  ac_AccessSecret :: string
  ac_RefreshSecret :: string
  ac_AccessTokenTTL :: int
  ac_RefreshTokenTTL :: int

record Config =
  cfg_Environment :: string
  cfg_HTTPAddr :: string
  cfg_PublicBaseDomain :: string
  cfg_DatabaseURL :: string
  cfg_LogLevel :: int
  cfg_CORSAllowedOrigins :: "string list"
  cfg_Auth :: AuthConfig
  cfg_TunnelRequestTimeout :: int

datatype config_error = EmptyHTTPAddr | EmptyBaseDomain | InvalidLogLevel string
  | InvalidAccessTTL | InvalidRefreshTTL | InvalidTunnelTimeout

definition env_value :: "(string \<Rightarrow> string) \<Rightarrow> string \<Rightarrow> string \<Rightarrow> string" where
  "env_value getenv key fallback = (let v = TrimSpace (getenv key) in if v \<noteq> [] then v else fallback)"

definition commaSeparated :: "string \<Rightarrow> string list" where
  "commaSeparated raw = filter (\<lambda>item. item \<noteq> []) (map TrimSpace (SplitByte CHR '','' raw))"

text \<open>\<open>slog.Level.UnmarshalText\<close>: a name, with an offset after a sign.\<close>

definition parseLogLevel :: "(string \<Rightarrow> string) \<Rightarrow> string \<Rightarrow> config_error + int" where
  "parseLogLevel upper raw =
     (let name = takeWhile (\<lambda>c. c \<noteq> CHR ''+'' \<and> c \<noteq> CHR ''-'') raw;
          rest = drop (length name) raw;
          level = (let n = upper name in
                   if n = ''DEBUG'' then Some (-4) else if n = ''INFO'' then Some 0
                   else if n = ''WARN'' then Some 4 else if n = ''ERROR'' then Some 8 else None)
      in case (if rest = [] then Some 0 else ParseInt64 rest) of
           None \<Rightarrow> Inl (InvalidLogLevel raw)
         | Some offset \<Rightarrow> (case level of None \<Rightarrow> Inl (InvalidLogLevel raw) | Some l \<Rightarrow> Inr (l + offset)))"

definition positive_duration :: "(string \<Rightarrow> int option) \<Rightarrow> string \<Rightarrow> int option" where
  "positive_duration parse raw = (case parse raw of None \<Rightarrow> None | Some d \<Rightarrow> if d \<le> 0 then None else Some d)"

definition Load ::
    "(string \<Rightarrow> int option) \<Rightarrow> (string \<Rightarrow> string) \<Rightarrow> (string \<Rightarrow> string) \<Rightarrow> config_error + Config" where
  "Load parseDuration upper getenv =
     (let environment = env_value getenv ''APP_ENV'' ''development'';
          httpAddr = env_value getenv ''HTTP_ADDR'' '':8080'';
          baseDomain = env_value getenv ''PUBLIC_BASE_DOMAIN'' ''tunnel.example.test'';
          databaseURL = TrimSpace (getenv ''DATABASE_URL'');
          accessSecret = env_value getenv ''JWT_ACCESS_SECRET'' ''development-access-secret-change-me'';
          refreshSecret = env_value getenv ''JWT_REFRESH_SECRET'' ''development-refresh-secret-change-me''
      in if httpAddr = [] then Inl EmptyHTTPAddr
         else if baseDomain = [] then Inl EmptyBaseDomain
         else
           case parseLogLevel upper (env_value getenv ''LOG_LEVEL'' ''info'') of
             Inl e \<Rightarrow> Inl e
           | Inr level \<Rightarrow>
               let origins = commaSeparated (getenv ''CORS_ALLOWED_ORIGINS'');
                   origins = (if length origins = 0 \<and> environment = ''development''
                              then [''http://localhost:5173'', ''http://127.0.0.1:5173''] else origins)
               in (case positive_duration parseDuration (env_value getenv ''ACCESS_TOKEN_TTL'' ''15m'') of
                     None \<Rightarrow> Inl InvalidAccessTTL
                   | Some accessTTL \<Rightarrow>
                       (case positive_duration parseDuration (env_value getenv ''REFRESH_TOKEN_TTL'' ''720h'') of
                          None \<Rightarrow> Inl InvalidRefreshTTL
                        | Some refreshTTL \<Rightarrow>
                            (case positive_duration parseDuration (env_value getenv ''TUNNEL_REQUEST_TIMEOUT'' ''30s'') of
                               None \<Rightarrow> Inl InvalidTunnelTimeout
                             | Some timeout \<Rightarrow>
                                 Inr \<lparr>cfg_Environment = environment, cfg_HTTPAddr = httpAddr,
                                      cfg_PublicBaseDomain = baseDomain, cfg_DatabaseURL = databaseURL,
                                      cfg_LogLevel = level, cfg_CORSAllowedOrigins = origins,
                                      cfg_Auth = \<lparr>ac_AccessSecret = accessSecret, ac_RefreshSecret = refreshSecret,
                                                  ac_AccessTokenTTL = accessTTL, ac_RefreshTokenTTL = refreshTTL\<rparr>,
                                      cfg_TunnelRequestTimeout = timeout\<rparr>))))"

section \<open>What a configuration satisfies\<close>

lemma env_value_nonempty: "fallback \<noteq> [] \<Longrightarrow> env_value getenv key fallback \<noteq> []"
  by (simp add: env_value_def Let_def)

lemma positive_duration_Some: "positive_duration parse raw = Some d \<longleftrightarrow> parse raw = Some d \<and> 0 < d"
  by (auto simp: positive_duration_def split: option.splits)

definition config_ok :: "Config \<Rightarrow> bool" where
  "config_ok c \<longleftrightarrow> cfg_HTTPAddr c \<noteq> [] \<and> cfg_PublicBaseDomain c \<noteq> [] \<and> cfg_Environment c \<noteq> []
     \<and> ac_AccessSecret (cfg_Auth c) \<noteq> [] \<and> ac_RefreshSecret (cfg_Auth c) \<noteq> []
     \<and> 0 < ac_AccessTokenTTL (cfg_Auth c) \<and> 0 < ac_RefreshTokenTTL (cfg_Auth c) \<and> 0 < cfg_TunnelRequestTimeout c
     \<and> [] \<notin> set (cfg_CORSAllowedOrigins c)
     \<and> (cfg_Environment c = ''development'' \<longrightarrow> cfg_CORSAllowedOrigins c \<noteq> [])"

text \<open>A successful load, field by field.\<close>

lemma Load_Inr:
  assumes "Load parseDuration upper getenv = Inr cfg"
  shows "cfg_HTTPAddr cfg = env_value getenv ''HTTP_ADDR'' '':8080''"
    and "cfg_Environment cfg = env_value getenv ''APP_ENV'' ''development''"
    and "cfg_PublicBaseDomain cfg = env_value getenv ''PUBLIC_BASE_DOMAIN'' ''tunnel.example.test''"
    and "ac_AccessSecret (cfg_Auth cfg) = env_value getenv ''JWT_ACCESS_SECRET'' ''development-access-secret-change-me''"
    and "ac_RefreshSecret (cfg_Auth cfg) = env_value getenv ''JWT_REFRESH_SECRET'' ''development-refresh-secret-change-me''"
    and "0 < ac_AccessTokenTTL (cfg_Auth cfg)" and "0 < ac_RefreshTokenTTL (cfg_Auth cfg)" and "0 < cfg_TunnelRequestTimeout cfg"
    and "cfg_CORSAllowedOrigins cfg =
      (if length (commaSeparated (getenv ''CORS_ALLOWED_ORIGINS'')) = 0 \<and> cfg_Environment cfg = ''development''
       then [''http://localhost:5173'', ''http://127.0.0.1:5173''] else commaSeparated (getenv ''CORS_ALLOWED_ORIGINS''))"
proof -
  obtain level accessTTL refreshTTL timeout
    where d: "positive_duration parseDuration (env_value getenv ''ACCESS_TOKEN_TTL'' ''15m'') = Some accessTTL"
      "positive_duration parseDuration (env_value getenv ''REFRESH_TOKEN_TTL'' ''720h'') = Some refreshTTL"
      "positive_duration parseDuration (env_value getenv ''TUNNEL_REQUEST_TIMEOUT'' ''30s'') = Some timeout"
      "parseLogLevel upper (env_value getenv ''LOG_LEVEL'' ''info'') = Inr level"
    using assms unfolding Load_def Let_def
    by (simp only: split: if_split_asm sum.split_asm option.split_asm) blast+
  let ?origins = "commaSeparated (getenv ''CORS_ALLOWED_ORIGINS'')" and ?env = "env_value getenv ''APP_ENV'' ''development''"
  have cfg: "cfg = \<lparr>cfg_Environment = ?env, cfg_HTTPAddr = env_value getenv ''HTTP_ADDR'' '':8080'',
      cfg_PublicBaseDomain = env_value getenv ''PUBLIC_BASE_DOMAIN'' ''tunnel.example.test'',
      cfg_DatabaseURL = TrimSpace (getenv ''DATABASE_URL''), cfg_LogLevel = level,
      cfg_CORSAllowedOrigins = (if length ?origins = 0 \<and> ?env = ''development''
        then [''http://localhost:5173'', ''http://127.0.0.1:5173''] else ?origins),
      cfg_Auth = \<lparr>ac_AccessSecret = env_value getenv ''JWT_ACCESS_SECRET'' ''development-access-secret-change-me'',
        ac_RefreshSecret = env_value getenv ''JWT_REFRESH_SECRET'' ''development-refresh-secret-change-me'',
        ac_AccessTokenTTL = accessTTL, ac_RefreshTokenTTL = refreshTTL\<rparr>,
      cfg_TunnelRequestTimeout = timeout\<rparr>"
    using assms unfolding Load_def Let_def d option.case sum.case by (simp only: split: if_split_asm) simp_all
  have pos: "0 < accessTTL" "0 < refreshTTL" "0 < timeout"
    using d by (simp_all add: positive_duration_Some)
  show "cfg_HTTPAddr cfg = env_value getenv ''HTTP_ADDR'' '':8080''"
    "cfg_Environment cfg = env_value getenv ''APP_ENV'' ''development''"
    "cfg_PublicBaseDomain cfg = env_value getenv ''PUBLIC_BASE_DOMAIN'' ''tunnel.example.test''"
    "ac_AccessSecret (cfg_Auth cfg) = env_value getenv ''JWT_ACCESS_SECRET'' ''development-access-secret-change-me''"
    "ac_RefreshSecret (cfg_Auth cfg) = env_value getenv ''JWT_REFRESH_SECRET'' ''development-refresh-secret-change-me''"
    "0 < ac_AccessTokenTTL (cfg_Auth cfg)" "0 < ac_RefreshTokenTTL (cfg_Auth cfg)" "0 < cfg_TunnelRequestTimeout cfg"
    "cfg_CORSAllowedOrigins cfg =
      (if length (commaSeparated (getenv ''CORS_ALLOWED_ORIGINS'')) = 0 \<and> cfg_Environment cfg = ''development''
       then [''http://localhost:5173'', ''http://127.0.0.1:5173''] else commaSeparated (getenv ''CORS_ALLOWED_ORIGINS''))"
    unfolding cfg using pos by (simp_all only: Config.simps AuthConfig.simps Config.select_convs AuthConfig.select_convs)
qed

lemma commaSeparated_items: "[] \<notin> set (commaSeparated raw)"
  by (auto simp: commaSeparated_def)

lemma Load_ok:
  assumes "Load parseDuration upper getenv = Inr cfg"
  shows "config_ok cfg"
proof -
  have "[] \<notin> set (cfg_CORSAllowedOrigins cfg)"
    using commaSeparated_items by (simp only: Load_Inr(9) [OF assms] if_split) simp
  moreover have "cfg_Environment cfg = ''development'' \<Longrightarrow> cfg_CORSAllowedOrigins cfg \<noteq> []"
    by (simp only: Load_Inr(9) [OF assms] if_split) simp
  ultimately show ?thesis
    unfolding config_ok_def using Load_Inr(6-8) [OF assms]
    by (simp only: Load_Inr(1-5) [OF assms] env_value_nonempty) (simp add: env_value_nonempty)
qed

text \<open>
  The signing secrets have a default in every environment: production starts with the published
  development secrets when the variables are not set.
\<close>

lemma Load_default_secrets:
  "Load parseDuration upper getenv = Inr cfg \<Longrightarrow> TrimSpace (getenv ''JWT_ACCESS_SECRET'') = [] \<Longrightarrow>
     ac_AccessSecret (cfg_Auth cfg) = ''development-access-secret-change-me''"
  by (simp add: Load_Inr(4) env_value_def)

end
