(* ===== verification/Migrations.thy ===== *)
theory Migrations
  imports Go_Prelude
begin

text \<open>
  \<^verbatim>\<open>backend/migrations/migrations.go\<close> and \<^verbatim>\<open>backend/internal/database/database.go\<close>: opening
  the pool and bringing the schema up to date. The schema and what a migration's SQL does to it
  (\<open>up\<close>, \<open>None\<close> where it fails) are PostgreSQL's and arguments of the model, as are the files
  the build embeds (the tables they create are those of \<open>Store\<close>). Every statement may fail; a commit whose result is lost may still have
  happened. \<open>Migrate\<close> runs under an advisory lock, so two runs follow one another.
\<close>

section \<open>Opening the pool\<close>

datatype open_error = EmptyURL | ParseError string | CreateError string | PingError string

record pool_env =
  po_parse :: "string \<Rightarrow> string option"
  po_create :: "string option"
  po_ping :: "string option"

definition pool_Ping :: "string option \<Rightarrow> open_error option" where
  "pool_Ping failure = map_option (\<lambda>m. PingError (''ping postgres: '' @ m)) failure"

text \<open>The result, and whether a pool that was created has been closed again.\<close>

definition pool_Open :: "pool_env \<Rightarrow> string \<Rightarrow> open_error option \<times> bool" where
  "pool_Open env databaseURL =
     (if databaseURL = [] then (Some EmptyURL, False)
      else
        case po_parse env databaseURL of
          Some m \<Rightarrow> (Some (ParseError (''parse DATABASE_URL: '' @ m)), False)
        | None \<Rightarrow>
            (case po_create env of
               Some m \<Rightarrow> (Some (CreateError (''create postgres pool: '' @ m)), False)
             | None \<Rightarrow>
                 (case pool_Ping (po_ping env) of
                    Some e \<Rightarrow> (Some e, True)
                  | None \<Rightarrow> (None, False))))"

section \<open>Migrations\<close>

record Migration =
  mg_Version :: string
  mg_UpSQL :: string

definition All :: "(string \<Rightarrow> string) \<Rightarrow> Migration list" where
  "All embedded =
     [\<lparr>mg_Version = ''001_enable_pgcrypto'', mg_UpSQL = embedded ''001_enable_pgcrypto.up.sql''\<rparr>,
      \<lparr>mg_Version = ''002_create_auth'', mg_UpSQL = embedded ''002_create_auth.up.sql''\<rparr>,
      \<lparr>mg_Version = ''003_create_agent_tokens'', mg_UpSQL = embedded ''003_create_agent_tokens.up.sql''\<rparr>,
      \<lparr>mg_Version = ''004_create_agents'', mg_UpSQL = embedded ''004_create_agents.up.sql''\<rparr>,
      \<lparr>mg_Version = ''005_create_tunnels'', mg_UpSQL = embedded ''005_create_tunnels.up.sql''\<rparr>,
      \<lparr>mg_Version = ''006_create_traffic_totals'', mg_UpSQL = embedded ''006_create_traffic_totals.up.sql''\<rparr>]"

record 's schema_db =
  sd_versions :: "string list option"
  sd_schema :: 's

datatype point = Acquire | Lock | CreateTable | Check string | Begin string | Up string | Record string | Commit string

datatype fate = Fine | Lost | DoneButLost

datatype migrate_error = AcquireFailed | LockFailed | CreateFailed | CheckFailed string | BeginFailed string
  | ApplyFailed string | CommitFailed string

definition versions :: "'s schema_db \<Rightarrow> string list" where
  "versions db = (case sd_versions db of None \<Rightarrow> [] | Some vs \<Rightarrow> vs)"

fun migrate_each ::
    "(string \<Rightarrow> 's \<Rightarrow> 's option) \<Rightarrow> (point \<Rightarrow> fate) \<Rightarrow> Migration list \<Rightarrow> 's schema_db \<Rightarrow> migrate_error option \<times> 's schema_db" where
  "migrate_each up fates [] db = (None, db)"
| "migrate_each up fates (m # ms) db =
     (let v = mg_Version m in
      if fates (Check v) \<noteq> Fine then (Some (CheckFailed v), db)
      else if v \<in> set (versions db) then migrate_each up fates ms db
      else if fates (Begin v) \<noteq> Fine then (Some (BeginFailed v), db)
      else
        case up (mg_UpSQL m) (sd_schema db) of
          None \<Rightarrow> (Some (ApplyFailed v), db)
        | Some schema \<Rightarrow>
            if fates (Up v) \<noteq> Fine \<or> fates (Record v) \<noteq> Fine then (Some (ApplyFailed v), db)
            else
              let db' = db\<lparr>sd_versions := Some (versions db @ [v]), sd_schema := schema\<rparr>
              in (case fates (Commit v) of
                    Lost \<Rightarrow> (Some (CommitFailed v), db)
                  | DoneButLost \<Rightarrow> (Some (CommitFailed v), db')
                  | Fine \<Rightarrow> migrate_each up fates ms db'))"

definition Migrate ::
    "(string \<Rightarrow> 's \<Rightarrow> 's option) \<Rightarrow> (point \<Rightarrow> fate) \<Rightarrow> Migration list \<Rightarrow> 's schema_db \<Rightarrow> migrate_error option \<times> 's schema_db" where
  "Migrate up fates migrations db =
     (if fates Acquire \<noteq> Fine then (Some AcquireFailed, db)
      else if fates Lock \<noteq> Fine then (Some LockFailed, db)
      else
        let created = db\<lparr>sd_versions := Some (versions db)\<rparr>
        in case fates CreateTable of
             Lost \<Rightarrow> (Some CreateFailed, db)
           | DoneButLost \<Rightarrow> (Some CreateFailed, created)
           | Fine \<Rightarrow> migrate_each up fates migrations created)"

section \<open>Exactly once, in order\<close>

fun apply_all :: "(string \<Rightarrow> 's \<Rightarrow> 's option) \<Rightarrow> Migration list \<Rightarrow> 's \<Rightarrow> 's option" where
  "apply_all up [] s = Some s"
| "apply_all up (m # ms) s = (case up (mg_UpSQL m) s of None \<Rightarrow> None | Some s' \<Rightarrow> apply_all up ms s')"

text \<open>A database that has had the first \<open>k\<close> migrations, each once, and nothing else.\<close>

definition migrated :: "(string \<Rightarrow> 's \<Rightarrow> 's option) \<Rightarrow> Migration list \<Rightarrow> 's \<Rightarrow> nat \<Rightarrow> 's schema_db \<Rightarrow> bool" where
  "migrated up ms s0 k db \<longleftrightarrow> k \<le> length ms \<and> versions db = map mg_Version (take k ms)
     \<and> apply_all up (take k ms) s0 = Some (sd_schema db)"

lemma apply_all_append:
  "apply_all up (xs @ ys) s = (case apply_all up xs s of None \<Rightarrow> None | Some s' \<Rightarrow> apply_all up ys s')"
  by (induction xs arbitrary: s) (auto split: option.splits)

lemma migrated_Suc:
  assumes "migrated up ms s0 k db" "k < length ms" "up (mg_UpSQL (ms ! k)) (sd_schema db) = Some s'"
  shows "migrated up ms s0 (Suc k) (db\<lparr>sd_versions := Some (versions db @ [mg_Version (ms ! k)]), sd_schema := s'\<rparr>)"
  using assms by (auto simp: migrated_def versions_def take_Suc_conv_app_nth apply_all_append)

lemma version_applied:
  assumes "distinct (map mg_Version ms)" "migrated up ms s0 k db" "j < length ms"
  shows "mg_Version (ms ! j) \<in> set (versions db) \<longleftrightarrow> j < k"
proof -
  have "versions db = take k (map mg_Version ms)" and k: "k \<le> length ms"
    using assms(2) by (simp_all add: migrated_def take_map)
  then have "map mg_Version ms ! j \<in> set (versions db) \<longleftrightarrow> (\<exists>i<k. map mg_Version ms ! i = map mg_Version ms ! j)"
    by (auto simp: in_set_conv_nth)
  also have "\<dots> \<longleftrightarrow> j < k"
    using assms(1,3) k nth_eq_iff_index_eq [OF assms(1)] by fastforce
  finally show ?thesis using assms(3) by simp
qed

text \<open>The loop, started at migration \<open>j\<close> on a database that has had \<open>k \<ge> j\<close> of them.\<close>

lemma migrate_each_migrated:
  assumes "distinct (map mg_Version ms)" "migrated up ms s0 k db" "j \<le> k"
    "migrate_each up fates (drop j ms) db = (e, db')"
  shows "\<exists>k' \<ge> k. migrated up ms s0 k' db' \<and> (e = None \<longrightarrow> k' = length ms)"
  using assms
proof (induction "length ms - j" arbitrary: j k db)
  case 0
  then have "drop j ms = []" "k = length ms"
    by (auto simp: migrated_def)
  with 0 show ?case by (intro exI [of _ k]) auto
next
  case (Suc n)
  let ?v = "mg_Version (ms ! j)"
  have j: "j < length ms" and drop: "drop j ms = ms ! j # drop (Suc j) ms"
    using Suc.hyps(2) by (auto simp: Cons_nth_drop_Suc)
  have seen: "?v \<in> set (versions db) \<longleftrightarrow> j < k"
    using version_applied [OF Suc.prems(1,2) j] .
  show ?case
  proof (cases "fates (Check ?v) = Fine")
    case False
    with Suc.prems drop show ?thesis by (auto simp: Let_def)
  next
    case check: True
    show ?thesis
    proof (cases "j < k")
      case True
      with Suc.prems(4) drop seen check have "migrate_each up fates (drop (Suc j) ms) db = (e, db')"
        by (simp add: Let_def)
      then show ?thesis
        using Suc.hyps(1) [of "Suc j" k db] Suc.hyps(2) Suc.prems(1,2) True j by simp
    next
      case False
      then have k: "k = j" using Suc.prems(3) by simp
      have stop: ?thesis if "db' = db" "e \<noteq> None"
        using that Suc.prems(2) by (auto intro: exI [of _ k])
      show ?thesis
      proof (cases "up (mg_UpSQL (ms ! j)) (sd_schema db)")
        case None
        then show ?thesis
          using stop Suc.prems(4) drop seen check False by (auto simp: Let_def split: if_splits)
      next
        case (Some s')
        define new where "new = db\<lparr>sd_versions := Some (versions db @ [?v]), sd_schema := s'\<rparr>"
        have mig: "migrated up ms s0 (Suc j) new"
          using migrated_Suc [OF Suc.prems(2)] j k Some by (simp add: new_def)
        consider (stop) "db' = db" "e \<noteq> None" | (lost) "db' = new" "e \<noteq> None"
          | (step) "migrate_each up fates (drop (Suc j) ms) new = (e, db')"
          using Suc.prems(4) drop seen check False Some
          by (auto simp: Let_def new_def split: if_splits fate.splits)
        then show ?thesis
        proof cases
          case lost
          then show ?thesis using mig k by (intro exI [of _ "Suc j"]) auto
        next
          case step
          have n: "n = length ms - Suc j" using Suc.hyps(2) by simp
          obtain k' where "Suc j \<le> k'" "migrated up ms s0 k' db'" "e = None \<longrightarrow> k' = length ms"
            using Suc.hyps(1) [OF n Suc.prems(1) mig _ step] by auto
          then show ?thesis using k by (intro exI [of _ k']) auto
        qed (rule stop)
      qed
    qed
  qed
qed

lemma Migrate_migrated:
  assumes "distinct (map mg_Version ms)" "migrated up ms s0 k db" "Migrate up fates ms db = (e, db')"
  shows "\<exists>k' \<ge> k. migrated up ms s0 k' db' \<and> (e = None \<longrightarrow> k' = length ms)"
proof -
  let ?created = "db\<lparr>sd_versions := Some (versions db)\<rparr>"
  have created: "migrated up ms s0 k ?created"
    using assms(2) by (simp add: migrated_def versions_def)
  consider "db' = db" "e \<noteq> None" | "db' = ?created" "e \<noteq> None" | "migrate_each up fates ms ?created = (e, db')"
    using assms(3) by (auto simp: Migrate_def Let_def split: if_splits fate.splits)
  then show ?thesis
    using assms(2) created migrate_each_migrated [OF assms(1) created, of 0] by cases auto
qed

text \<open>Without failures, a run over SQL that applies in order completes.\<close>

lemma apply_all_prefix:
  assumes "apply_all up ms s0 = Some s" "apply_all up (take j ms) s0 = Some s1" "j < length ms"
  shows "up (mg_UpSQL (ms ! j)) s1 \<noteq> None"
proof -
  have "apply_all up (take j ms @ ms ! j # drop (Suc j) ms) s0 = Some s"
    using assms(1,3) by (simp add: id_take_nth_drop [symmetric])
  then show ?thesis using assms(2) by (auto simp: apply_all_append split: option.splits)
qed

lemma migrate_each_completes:
  assumes "\<And>p. fates p = Fine" "distinct (map mg_Version ms)" "apply_all up ms s0 = Some s"
    "migrated up ms s0 k db" "j \<le> k"
  shows "fst (migrate_each up fates (drop j ms) db) = None"
  using assms(4,5)
proof (induction "length ms - j" arbitrary: j k db)
  case (Suc n)
  let ?v = "mg_Version (ms ! j)"
  have j: "j < length ms" and drop: "drop j ms = ms ! j # drop (Suc j) ms"
    and n: "n = length ms - Suc j"
    using Suc.hyps(2) by (auto simp: Cons_nth_drop_Suc)
  note seen = version_applied [OF assms(2) Suc.prems(1) j]
  show ?case
  proof (cases "j < k")
    case True
    then show ?thesis
      using Suc.hyps(1) [OF n Suc.prems(1)] drop seen by (simp add: Let_def assms(1))
  next
    case False
    then have k: "k = j" using Suc.prems(2) by simp
    obtain s' where up: "up (mg_UpSQL (ms ! j)) (sd_schema db) = Some s'"
      using apply_all_prefix [OF assms(3) _ j] Suc.prems(1) k by (auto simp: migrated_def)
    have "migrated up ms s0 (Suc j) (db\<lparr>sd_versions := Some (versions db @ [?v]), sd_schema := s'\<rparr>)"
      using migrated_Suc [OF Suc.prems(1)] j k up by simp
    from Suc.hyps(1) [OF n this] show ?thesis
      using drop seen False up by (simp add: Let_def assms(1))
  qed
qed simp

lemma Migrate_completes:
  assumes "\<And>p. fates p = Fine" "distinct (map mg_Version ms)" "apply_all up ms s0 = Some s"
    "migrated up ms s0 k db"
  shows "fst (Migrate up fates ms db) = None"
proof -
  have "migrated up ms s0 k (db\<lparr>sd_versions := Some (versions db)\<rparr>)"
    using assms(4) by (simp add: migrated_def versions_def)
  from migrate_each_completes [where fates = fates, OF assms(1-3) this, of 0] show ?thesis
    by (simp add: Migrate_def assms(1))
qed

lemma All_distinct: "distinct (map mg_Version (All embedded))"
  by (simp add: All_def)

lemma migrate_runs_migrated:
  assumes "distinct (map mg_Version ms)" "migrated up ms s0 k db"
  shows "\<exists>k' \<ge> k. migrated up ms s0 k' (fold (\<lambda>fates db. snd (Migrate up fates ms db)) runs db)"
  using assms(2)
proof (induction runs arbitrary: k db)
  case (Cons fates runs)
  obtain e db' where run: "Migrate up fates ms db = (e, db')" by fastforce
  obtain k1 where "k \<le> k1" "migrated up ms s0 k1 db'"
    using Migrate_migrated [OF assms(1) Cons.prems run] by auto
  then show ?case using Cons.IH [of k1 db'] run by (auto intro: order_trans)
qed auto

text \<open>
  C40: However many runs of \<open>Migrate\<close> failed before, at whatever statement and with whatever was
  lost on the way, an empty database has had a prefix of the migrations, each once and in order,
  with exactly their versions recorded. One more run without a failure then succeeds and leaves
  all of them recorded and applied once, in order.
\<close>

theorem migrations_exactly_once:
  assumes "versions db = []" "apply_all up (All embedded) (sd_schema db) = Some s" "\<forall>p. fates p = Fine"
    and earlier: "earlier = fold (\<lambda>fates db. snd (Migrate up fates (All embedded) db)) runs db"
  shows "(\<exists>k. versions earlier = map mg_Version (take k (All embedded))
        \<and> apply_all up (take k (All embedded)) (sd_schema db) = Some (sd_schema earlier))
    \<and> Migrate up fates (All embedded) earlier =
        (None, \<lparr>sd_versions = Some (map mg_Version (All embedded)), sd_schema = s\<rparr>)"
proof -
  let ?ms = "All embedded" and ?s0 = "sd_schema db"
  have "migrated up ?ms ?s0 0 db" using assms(1) by (simp add: migrated_def)
  from migrate_runs_migrated [OF All_distinct this] obtain k where
    k: "migrated up ?ms ?s0 k earlier" unfolding earlier by blast
  obtain e db' where run: "Migrate up fates ?ms earlier = (e, db')" by fastforce
  have "e = None"
    using Migrate_completes [OF _ All_distinct assms(2) k, of fates] assms(3) run by simp
  then have "migrated up ?ms ?s0 (length ?ms) db'"
    using Migrate_migrated [OF All_distinct k run] by auto
  then have "versions db' = map mg_Version ?ms" "sd_schema db' = s"
    using assms(2) by (simp_all add: migrated_def)
  then have "db' = \<lparr>sd_versions = Some (map mg_Version ?ms), sd_schema = s\<rparr>"
    by (cases db') (auto simp: versions_def All_def split: option.splits)
  with k run \<open>e = None\<close> show ?thesis by (auto simp: migrated_def)
qed

definition example_up :: "string \<Rightarrow> string list \<Rightarrow> string list option" where
  "example_up sql schema = (if sql \<in> set schema then None else Some (schema @ [sql]))"

definition example_fates :: "point \<Rightarrow> fate" where
  "example_fates p = (if p = Commit ''003_create_agent_tokens'' then DoneButLost else Fine)"

theorem migrations_exactly_once_witness:
  "Migrate example_up (\<lambda>_. Fine) (All id) (snd (Migrate example_up example_fates (All id) \<lparr>sd_versions = None, sd_schema = []\<rparr>)) =
     (None, \<lparr>sd_versions = Some (map mg_Version (All id)), sd_schema = map mg_UpSQL (All id)\<rparr>)
   \<and> versions (snd (Migrate example_up example_fates (All id) \<lparr>sd_versions = None, sd_schema = []\<rparr>)) =
     map mg_Version (take 3 (All id))"
  using migrations_exactly_once [where db = "\<lparr>sd_versions = None, sd_schema = []\<rparr>" and up = example_up and embedded = id
      and fates = "\<lambda>_. Fine" and runs = "[example_fates]" and s = "map mg_UpSQL (All id)", OF _ _ _ refl]
  by (simp add: versions_def All_def example_up_def example_fates_def Migrate_def Let_def)

end
