(* ===== verification/Main_Server.thy ===== *)
theory Main_Server
  imports Agents Tunnel_Service Traffic Server Config Migrations Agent_Connect Public_Handler
begin

text \<open>
  \<^verbatim>\<open>backend/cmd/server/main.go\<close>: how the server puts the other packages together. \<open>app\<close> is the
  state of the process; \<open>main_handlers\<close> are the handlers \<open>run\<close> builds, on that state;
  \<open>openTunnel\<close> and \<open>cleanupSession\<close> are the two closures it gives to the gateway. What an agent's
  connection asks of the services are the effects of \<open>Agent_Connect\<close>, carried out by
  \<open>conn_effect_step\<close>. \<open>activity\<close> is everything that reaches the database while the server runs.
\<close>

section \<open>What the gateway asks of the services\<close>

definition valid :: "postgres \<Rightarrow> string \<Rightarrow> step_env \<Rightarrow> database \<Rightarrow> bool \<times> database" where
  "valid pg rawToken env db =
     (case exec env (token_exists pg (hash_hex rawToken)) db of
        (Inl e, db) \<Rightarrow> (False, db)
      | (Inr ok, db) \<Rightarrow> (ok, db))"

definition cleanupSession ::
    "postgres \<Rightarrow> string \<Rightarrow> string \<Rightarrow> (string \<times> string) list \<Rightarrow> step_env \<Rightarrow> database \<times> Registry \<Rightarrow> database \<times> Registry" where
  "cleanupSession pg sessionID agentID order env = (\<lambda>(db, registry).
     (CloseAgentTunnels pg agentID env db, registry_CloseSession order sessionID registry))"

definition openTunnel ::
    "postgres \<Rightarrow> string + string \<Rightarrow> string \<Rightarrow> string \<Rightarrow> string \<Rightarrow> string \<Rightarrow> call_env \<Rightarrow> database \<times> Registry
      \<Rightarrow> (string + TunnelOpenedPayload) \<times> database \<times> Registry" where
  "openTunnel pg generated publicBaseDomain sessionID agentID localAddress env = (\<lambda>(db, registry).
     case ReopenForSession pg generated agentID localAddress env db of
       (Inl e, db) \<Rightarrow> (Inl e, db, registry)
     | (Inr tunnel, db) \<Rightarrow>
         (Inr \<lparr>top_RequestID = [], top_TunnelID = tn_id tunnel, top_Subdomain = tn_subdomain tunnel,
               top_PublicURL = ''https://'' @ tn_subdomain tunnel @ ''.'' @ publicBaseDomain\<rparr>,
          db,
          registry_Open \<lparr>at_ID = tn_id tunnel, at_Subdomain = tn_subdomain tunnel, at_AgentID = agentID,
            at_UserID = tn_user_id tunnel, at_SessionID = sessionID, at_LocalAddress = localAddress\<rparr> registry))"

fun conn_effect_step ::
    "postgres \<Rightarrow> (string \<times> string) list \<Rightarrow> step_env \<Rightarrow> conn_effect \<Rightarrow> database \<times> Registry \<Rightarrow> database \<times> Registry" where
  "conn_effect_step pg order env (CleanupSession sessionID agentID) st = cleanupSession pg sessionID agentID order env st"
| "conn_effect_step pg order env (TouchAgent agentID) (db, registry) = (agents_Touch pg agentID env db, registry)"
| "conn_effect_step pg order env (DisconnectAgent agentID) (db, registry) = (agents_Disconnect pg agentID env db, registry)"
| "conn_effect_step pg order env _ st = st"

section \<open>Flushing traffic\<close>

fun flush_users ::
    "postgres \<Rightarrow> (string \<times> TrafficMetrics) list \<Rightarrow> call_env \<Rightarrow> database \<Rightarrow> (string \<times> string) list \<times> database" where
  "flush_users pg [] env db = ([], db)"
| "flush_users pg ((userID, delta) # ds) env db =
     (let (err, db) = AddDelta pg userID delta (env 0) db;
          (logged, db) = flush_users pg ds (later 1 env) db
      in (case err of None \<Rightarrow> logged | Some e \<Rightarrow> (userID, e) # logged, db))"

text \<open>\<open>ord\<close> is the order in which the range loop takes the entries of the map; the log is what failed.\<close>

type_synonym range_order = "(string, TrafficMetrics) gomap \<Rightarrow> (string \<times> TrafficMetrics) list"

definition flushTraffic ::
    "postgres \<Rightarrow> range_order \<Rightarrow> call_env \<Rightarrow> Registry \<times> database \<Rightarrow> (string \<times> string) list \<times> Registry \<times> database" where
  "flushTraffic pg ord env = (\<lambda>(registry, db).
     let (deltas, registry) = registry_DrainUserDeltas registry;
         (logged, db) = flush_users pg (ord deltas) env db
     in (logged, registry, db))"

section \<open>The handlers\<close>

record app = server_state +
  app_db :: database
  app_gateway :: gateway_state
  app_registry :: Registry
  app_authLimiter :: rateLimiter
  app_publicLimiter :: rateLimiter

text \<open>What the outside contributes to one request.\<close>

record main_env =
  me_pg :: postgres
  me_auth :: auth_env
  me_api :: api_env
  me_public :: public_env
  me_uni :: "string \<Rightarrow> string"
  me_frameMessage :: "frame_error \<Rightarrow> string"
  me_validate :: step_env
  me_ping :: "string option"
  me_quoted :: "string \<Rightarrow> string"
  me_seconds :: "int \<Rightarrow> string"
  me_redirect :: "string \<Rightarrow> HTTPRequest \<Rightarrow> Header \<Rightarrow> http_outcome"

definition gatewayCollector :: "'a app_scheme \<Rightarrow> GatewayMetrics" where
  "gatewayCollector s =
     (let snapshot = session_MetricsSnapshot (app_gateway s)
      in \<lparr>gm_ActiveSessions = ms_ActiveSessions snapshot, gm_PendingRequests = ms_PendingRequests snapshot,
          gm_ConnectionsTotal = ms_ConnectionsTotal snapshot, gm_DisconnectionsTotal = ms_DisconnectionsTotal snapshot\<rparr>)"

definition trafficCollector :: "'a app_scheme \<Rightarrow> TunnelTrafficMetrics" where
  "trafficCollector s =
     (let traffic = registry_TrafficMetrics (app_registry s)
      in \<lparr>tt_RequestsTotal = tm_RequestsTotal traffic, tt_RequestBytes = tm_RequestBytes traffic,
          tt_ResponseBytes = tm_ResponseBytes traffic\<rparr>)"

definition authService :: "Config.Config \<Rightarrow> auth_Service" where
  "authService cfg = auth_NewService (ac_AccessSecret (cfg_Auth cfg)) (ac_RefreshSecret (cfg_Auth cfg))
     (ac_AccessTokenTTL (cfg_Auth cfg)) (ac_RefreshTokenTTL (cfg_Auth cfg))"

definition authHandler :: "Config.Config \<Rightarrow> auth_HTTPHandler" where
  "authHandler cfg = \<lparr>ah_service = authService cfg, ah_secureCookies = cfg_Environment cfg \<noteq> ''development''\<rparr>"

definition api_of :: "Config.Config \<Rightarrow> main_env \<Rightarrow> api_env" where
  "api_of cfg env = (me_api env)\<lparr>ap_svc := authService cfg, ap_pg := me_pg env\<rparr>"

text \<open>The four APIs on the state of the process.\<close>

definition on_db :: "(HTTPRequest \<Rightarrow> Header \<Rightarrow> database \<Rightarrow> http_outcome \<times> database) \<Rightarrow> 'a app_scheme handler" where
  "on_db f r w s = (case f r w (app_db s) of (out, db) \<Rightarrow> (reply out, s\<lparr>app_db := db\<rparr>))"

definition agentTokenHandler :: "api_env \<Rightarrow> 'a app_scheme handler" where
  "agentTokenHandler env r w s =
     (case tokens_ServeHTTP env r w (app_db s, app_gateway s) of
        (out, db, g) \<Rightarrow> (reply out, s\<lparr>app_db := db, app_gateway := g\<rparr>))"

definition main_authHandler :: "Config.Config \<Rightarrow> main_env \<Rightarrow> 'a app_scheme handler" where
  "main_authHandler cfg env r w s =
     (case auth_ServeHTTP (authHandler cfg) ((me_auth env)\<lparr>ae_pg := me_pg env\<rparr>) r w (app_authLimiter s, app_db s) of
        (out, limiter, db) \<Rightarrow> (reply out, s\<lparr>app_authLimiter := limiter, app_db := db\<rparr>))"

text \<open>
  An agent's connection up to the upgrade: refused, or taken over and served by
  \<open>serve_connection\<close>, which does not return while the connection lasts.
\<close>

definition agentConnectHandler :: "main_env \<Rightarrow> 'a app_scheme handler" where
  "agentConnectHandler env r w s =
     (let rawToken = bearer_token (req_Header r) in
      if \<not> HasPrefix rawToken ''tkn_'' then (reply (http_Error w ''unauthorized'' 401), s)
      else
        case valid (me_pg env) rawToken (me_validate env) (app_db s) of
          (ok, db) \<Rightarrow>
            (if \<not> ok then reply (http_Error w ''unauthorized'' 401) else Waiting, s\<lparr>app_db := db\<rparr>))"

fun record_traffic :: "public_action \<Rightarrow> Registry \<Rightarrow> Registry" where
  "record_traffic (Act_Traffic i n m) registry = registry_RecordTraffic i n m registry"
| "record_traffic _ registry = registry"

text \<open>
  The calls a public request makes on the session manager interleave with those of other
  goroutines and are steps of \<open>sm_step\<close>; here it reads the registry and counts its traffic.
\<close>

definition publicHandler :: "Config.Config \<Rightarrow> main_env \<Rightarrow> 'a app_scheme handler" where
  "publicHandler cfg env r w s =
     (case public_ServeHTTP (me_uni env) (me_frameMessage env) (cfg_PublicBaseDomain cfg) (app_registry s) (me_public env)
             w r (app_publicLimiter s) of
        ((out, actions), limiter) \<Rightarrow>
          (out, s\<lparr>app_publicLimiter := limiter, app_registry := fold record_traffic actions (app_registry s)\<rparr>))"

definition main_handlers :: "Config.Config \<Rightarrow> main_env \<Rightarrow> 'a app_scheme handlers" where
  "main_handlers cfg env =
     \<lparr>hs_metrics = metrics_ServeHTTP (me_quoted env) (me_seconds env) (Some gatewayCollector) (Some trafficCollector),
      hs_ready = (\<lambda>_. pool_Ping (me_ping env) = None),
      hs_auth = main_authHandler cfg env,
      hs_agentToken = agentTokenHandler (api_of cfg env),
      hs_agentConnect = agentConnectHandler env,
      hs_agents = on_db (agents_ServeHTTP (api_of cfg env)),
      hs_tunnels = on_db (tunnels_ServeHTTP (api_of cfg env)),
      hs_traffic = on_db (traffic_ServeHTTP (api_of cfg env)),
      hs_public = publicHandler cfg env,
      hs_redirect = (\<lambda>path r w s. (reply (me_redirect env path r w), s))\<rparr>"

definition main_handler :: "Config.Config \<Rightarrow> server_env \<Rightarrow> main_env \<Rightarrow> 'a app_scheme handler" where
  "main_handler cfg senv env = NewHandler senv (main_handlers cfg env) (cfg_CORSAllowedOrigins cfg)"

section \<open>Start\<close>

datatype run_error = DatabaseUnavailable open_error | MigrationFailed migrate_error
  | StoppedUnexpectedly string | ShutdownFailed string

definition run_start ::
    "Config.Config \<Rightarrow> pool_env \<Rightarrow> (string \<Rightarrow> string) \<Rightarrow> (string \<Rightarrow> 's \<Rightarrow> 's option) \<Rightarrow> (point \<Rightarrow> fate) \<Rightarrow> 's schema_db
      \<Rightarrow> run_error option \<times> 's schema_db" where
  "run_start cfg pool embedded up fates schema =
     (case fst (pool_Open pool (cfg_DatabaseURL cfg)) of
        Some e \<Rightarrow> (Some (DatabaseUnavailable e), schema)
      | None \<Rightarrow>
          (case Migrate up fates (All embedded) schema of
             (Some e, schema) \<Rightarrow> (Some (MigrationFailed e), schema)
           | (None, schema) \<Rightarrow> (None, schema)))"

definition new_app :: "database \<Rightarrow> app" where
  "new_app db = \<lparr>sv_metrics = NewMetrics, sv_log = [], app_db = db, app_gateway = new_gateway, app_registry = NewRegistry,
     app_authLimiter = newAuthRateLimiter authRateLimit authRateWindow,
     app_publicLimiter = newPublicRateLimiter publicRateLimit publicRateWindow\<rparr>"

definition app_flush :: "postgres \<Rightarrow> range_order \<Rightarrow> call_env \<Rightarrow> app \<Rightarrow> app" where
  "app_flush pg ord env s =
     (case flushTraffic pg ord env (app_registry s, app_db s) of
        (logged, registry, db) \<Rightarrow> s\<lparr>app_registry := registry, app_db := db\<rparr>)"

section \<open>Everything that reaches the database\<close>

datatype activity =
    Request server_env main_env HTTPRequest
  | ConnectAgent string ClientHelloPayload call_env
  | OpenTunnelFor "string + string" string string string call_env
  | ConnEffect "(string \<times> string) list" step_env conn_effect
  | SessionCall sm_event
  | Flush range_order call_env

fun app_step :: "Config.Config \<Rightarrow> postgres \<Rightarrow> activity \<Rightarrow> app \<Rightarrow> app" where
  "app_step cfg pg (Request senv env r) s = snd (main_handler cfg senv (env\<lparr>me_pg := pg\<rparr>) r [] s)"
| "app_step cfg pg (ConnectAgent rawToken hello env) s = s\<lparr>app_db := snd (agents_Connect pg rawToken hello env (app_db s))\<rparr>"
| "app_step cfg pg (OpenTunnelFor generated sessionID agentID localAddress env) s =
     (case openTunnel pg generated (cfg_PublicBaseDomain cfg) sessionID agentID localAddress env (app_db s, app_registry s) of
        (_, db, registry) \<Rightarrow> s\<lparr>app_db := db, app_registry := registry\<rparr>)"
| "app_step cfg pg (ConnEffect order env e) s =
     (case conn_effect_step pg order env e (app_db s, app_registry s) of
        (db, registry) \<Rightarrow> s\<lparr>app_db := db, app_registry := registry\<rparr>)"
| "app_step cfg pg (SessionCall e) s =
     (case sm_step (app_gateway s) e of None \<Rightarrow> s | Some g \<Rightarrow> s\<lparr>app_gateway := g\<rparr>)"
| "app_step cfg pg (Flush ord env) s = app_flush pg ord env s"

fun activity_ok :: "postgres \<Rightarrow> activity \<Rightarrow> bool" where
  "activity_ok pg (Request senv env r) \<longleftrightarrow>
     calls_ok pg (ae_calls (me_auth env)) \<and> calls_ok pg (ap_calls (me_api env)) \<and> env_ok pg (me_validate env)"
| "activity_ok pg (ConnectAgent rawToken hello env) \<longleftrightarrow> calls_ok pg env"
| "activity_ok pg (OpenTunnelFor generated sessionID agentID localAddress env) \<longleftrightarrow> calls_ok pg env"
| "activity_ok pg (ConnEffect order env e) \<longleftrightarrow> env_ok pg env"
| "activity_ok pg (SessionCall e) \<longleftrightarrow> True"
| "activity_ok pg (Flush ord env) \<longleftrightarrow> calls_ok pg env"

lemma valid_steps: "env_ok pg env \<Longrightarrow> db_steps pg db (snd (valid pg rawToken env db))"
  by (auto simp: valid_def split: prod.split sum.split dest: exec_paths)

lemma flush_users_steps: "calls_ok pg env \<Longrightarrow> db_steps pg db (snd (flush_users pg ds env db))"
proof (induction pg ds env db rule: flush_users.induct)
  case (2 pg userID delta ds env db)
  obtain err db1 where e: "AddDelta pg userID delta (env 0) db = (err, db1)" by fastforce
  obtain logged db2 where rest: "flush_users pg ds (later 1 env) db1 = (logged, db2)" by fastforce
  have "db_steps pg db db1"
    using AddDelta_steps [of pg "env 0" db userID delta] 2 e by simp
  moreover have "db_steps pg db1 db2"
    using 2 e rest by simp
  ultimately show ?case using e rest by simp
qed simp

lemma openTunnel_db:
  "fst (snd (openTunnel pg generated base sid aid addr env (db, registry))) = snd (ReopenForSession pg generated aid addr env db)"
  by (simp add: openTunnel_def split: prod.split sum.split)

lemma auth_ServeHTTP_db:
  "snd (snd (auth_ServeHTTP h env r w (l, db))) \<in> {db, snd (auth_route h env r w db)}"
  by (simp add: auth_ServeHTTP_def case_prod_unfold split: bool.split)

lemma main_route_steps:
  assumes "activity_ok pg (Request senv env r')" "me_pg env = pg"
  shows "db_steps pg (app_db s) (app_db (snd (serve_route (main_handlers cfg env) rt r w s)))"
proof -
  have ok: "calls_ok pg (ae_calls (me_auth env))" "calls_ok pg (ap_calls (me_api env))" "env_ok pg (me_validate env)"
    using assms(1) by simp_all
  have api: "calls_ok (ap_pg (api_of cfg env)) (ap_calls (api_of cfg env))" "ap_pg (api_of cfg env) = pg"
    using ok(2) assms(2) by (simp_all add: api_of_def)
  have auth: "db_steps pg db (snd (snd (auth_ServeHTTP h ((me_auth env)\<lparr>ae_pg := pg\<rparr>) r w (l, db))))" for h l db
    using auth_ServeHTTP_db [of h "(me_auth env)\<lparr>ae_pg := pg\<rparr>" r w l db]
      auth_route_steps [of "(me_auth env)\<lparr>ae_pg := pg\<rparr>" db h r w] ok(1) by auto
  note steps = tokens_ServeHTTP_steps [OF api(1)] agents_ServeHTTP_steps [OF api(1)]
    tunnels_ServeHTTP_steps [OF api(1)] traffic_ServeHTTP_steps [OF api(1)] valid_steps [OF ok(3)] auth
  show ?thesis
    using steps assms(2) api(2)
    by (cases rt) (simp_all add: serve_route_def main_handlers_def metrics_ServeHTTP_def health_def
        readiness_def main_authHandler_def agentTokenHandler_def agentConnectHandler_def on_db_def publicHandler_def
        case_prod_unfold Let_def)
qed

text \<open>Requests: the relation of \<open>request_relation\<close> is a path of the database, if the other calls take one.\<close>

definition request_path :: "postgres \<Rightarrow> main_env \<Rightarrow> app \<Rightarrow> app \<Rightarrow> bool" where
  "request_path pg env s s' \<longleftrightarrow>
     (calls_ok pg (ae_calls (me_auth env)) \<and> calls_ok pg (ap_calls (me_api env)) \<and> env_ok pg (me_validate env)
       \<longrightarrow> db_steps pg (app_db s) (app_db s'))"

interpretation main_request: request_relation "request_path pg env" "main_handlers cfg (env\<lparr>me_pg := pg\<rparr>)" for pg env cfg
proof
  show "request_path pg env s (snd (serve_route (main_handlers cfg (env\<lparr>me_pg := pg\<rparr>)) rt r w s))" for s rt r w
    using main_route_steps [where pg = pg and env = "env\<lparr>me_pg := pg\<rparr>"] by (auto simp: request_path_def)
qed (auto simp: request_path_def main_handlers_def intro: rtranclp_trans)

lemma app_step_steps:
  assumes "activity_ok pg a"
  shows "db_steps pg (app_db s) (app_db (app_step cfg pg a s))"
  using assms
proof (cases a)
  case (Request senv env r)
  then show ?thesis
    using main_request.R_request [of pg env s senv cfg "cfg_CORSAllowedOrigins cfg" r "[]"] assms
    by (simp add: request_path_def main_handler_def)
next
  case (ConnectAgent raw hello env)
  then show ?thesis
    using connect_agent.call_steps [of pg env "app_db s" "(raw, hello)"] assms by simp
next
  case (OpenTunnelFor generated sid aid addr env)
  then show ?thesis
    using reopen_session.call_steps [of pg env "app_db s" "(generated, aid, addr)"] assms
      openTunnel_db [of pg generated "cfg_PublicBaseDomain cfg" sid aid addr env "app_db s" "app_registry s"]
    by (simp add: case_prod_unfold)
next
  case (ConnEffect order env e)
  then show ?thesis
    using assms agents_Touch_steps agents_Disconnect_steps CloseAgentTunnels_steps
    by (cases e) (simp_all add: cleanupSession_def)
next
  case (Flush ord env)
  then show ?thesis
    using flush_users_steps [of pg env "app_db s"] assms
    by (simp add: app_flush_def flushTraffic_def Let_def case_prod_unfold)
qed (simp split: option.split)

lemma app_run_steps:
  "list_all (activity_ok pg) acts \<Longrightarrow> db_steps pg (app_db s) (app_db (fold (app_step cfg pg) acts s))"
proof (induction acts arbitrary: s)
  case (Cons a acts)
  then show ?case
    using app_step_steps [of pg a s cfg] by (auto intro: rtranclp_trans)
qed simp

text \<open>
  C7: the tables are well formed at every moment of the server's life. Whatever requests are
  served, agents connect, tunnels open and close, sessions end and traffic is flushed, in
  whatever order, with whatever other statements between the statements of one call, and however
  the statements fail, the constraints of the schema hold (keys and foreign keys, statuses,
  counters in range), every row keeps its identity, its owner, and its subdomain or token, and a
  revoked agent token or refresh token stays revoked.
\<close>

theorem tables_stay_well_formed:
  assumes "list_all (activity_ok pg) acts" "db_inv pg (app_db s)"
    and "s' = fold (app_step cfg pg) acts s"
  shows "db_inv pg (app_db s') \<and> facts_grow (app_db s) (app_db s')
    \<and> (token_revoked hash (app_db s) \<longrightarrow> token_revoked hash (app_db s'))
    \<and> (refresh_revoked hash (app_db s) \<longrightarrow> refresh_revoked hash (app_db s'))"
proof -
  have path: "db_steps pg (app_db s) (app_db s')"
    unfolding assms(3) by (rule app_run_steps [OF assms(1)])
  show ?thesis
    using db_steps_inv [OF path] db_steps_facts [OF path] db_steps_revoked [OF path] assms(2) by blast
qed

definition example_agent :: agent_row where
  "example_agent = \<lparr>ag_id = ''ag1'', ag_user_id = ''a1'', ag_token_id = ''tk1'', ag_instance_id = ''i1'', ag_hostname = ''host'',
     ag_os = ''linux'', ag_arch = ''amd64'', ag_version = ''0.1.0'', ag_connected = True, ag_connected_at = Some 5,
     ag_disconnected_at = None, ag_last_seen_at = Some 5, ag_created_at = 5, ag_updated_at = 5\<rparr>"

definition example_token :: "string \<Rightarrow> agent_token_row" where
  "example_token hash = \<lparr>tk_id = ''tk1'', tk_user_id = ''a1'', tk_name = ''laptop'', tk_prefix = ''tkn_'', tk_hash = hash,
     tk_created_at = 1, tk_last_used_at = None, tk_expires_at = None, tk_revoked_at = None\<rparr>"

definition example_tables :: "string \<Rightarrow> database" where
  "example_tables hash = empty_database\<lparr>db_users := [example_user], db_agent_tokens := [example_token hash], db_agents := [example_agent]\<rparr>"

lemma example_tables_inv: "db_inv example_pg (example_tables hash)"
  by (simp add: db_inv_def ids_ok_def db_ok_def table_ok_defs example_tables_def example_agent_def example_token_def
      example_user_def empty_database_def canonical_def example_pg_def)

definition example_acts :: "activity list" where
  "example_acts = [OpenTunnelFor (Inr ''abcdefghij'') ''s1'' ''ag1'' ''3000'' (\<lambda>_. quiet_at 10),
     ConnEffect [(''b2c1'', ''abcdefghij'')] (quiet_at 20) (CleanupSession ''s1'' ''ag1''),
     ConnEffect [] (quiet_at 20) (DisconnectAgent ''ag1'')]"

definition example_cfg :: Config.Config where
  "example_cfg = \<lparr>cfg_Environment = ''production'', cfg_HTTPAddr = '':8080'', cfg_PublicBaseDomain = ''example.test'',
     cfg_DatabaseURL = ''postgres://db'', cfg_LogLevel = 0, cfg_CORSAllowedOrigins = [],
     cfg_Auth = \<lparr>ac_AccessSecret = ''a'', ac_RefreshSecret = ''r'', ac_AccessTokenTTL = Minute, ac_RefreshTokenTTL = 60 * Minute\<rparr>,
     cfg_TunnelRequestTimeout = Minute\<rparr>"

lemmas example_tables_defs = example_tables_def example_token_def example_agent_def example_auth_defs
lemmas tunnel_statement_defs = openTunnel_def ReopenForSession_def CloseAgentTunnels_def cleanupSession_def agents_Disconnect_def
  reopen_tunnel_def insert_tunnel_def close_agent_tunnels_def disconnect_agent_def closed_for_def reopened_def

lemma example_acts_ok: "list_all (activity_ok example_pg) example_acts"
  by (simp add: example_acts_def quiet_at_ok calls_ok_def)

lemma example_acts_tunnels:
  "db_tunnels (app_db (fold (app_step example_cfg example_pg) example_acts (new_app (example_tables ''h''))))
     = [\<lparr>tn_id = ''b2c1'', tn_user_id = ''a1'', tn_agent_id = ''ag1'', tn_subdomain = ''abcdefghij'', tn_local_address = ''3000'',
        tn_protocol = ''http'', tn_status = ''closed'', tn_opened_at = Some 10, tn_closed_at = Some 20, tn_created_at = 10,
        tn_updated_at = 20\<rparr>]"
  by (simp add: example_acts_def new_app_def example_tables_defs tunnel_statement_defs exec_def Let_def with_defs
      insert_row_def update_rows_def)

theorem tables_stay_well_formed_witness:
  "db_inv example_pg (app_db (fold (app_step example_cfg example_pg) example_acts (new_app (example_tables ''h''))))
   \<and> map tn_status (db_tunnels (app_db (fold (app_step example_cfg example_pg) example_acts (new_app (example_tables ''h''))))) = [''closed'']"
  using tables_stay_well_formed [OF example_acts_ok _ refl, of "new_app (example_tables ''h'')" example_cfg] example_tables_inv
    example_acts_tunnels by (simp add: new_app_def)

end
