(* ===== verification/Tunnel_Lifecycle.thy ===== *)
theory Tunnel_Lifecycle
  imports Main_Server
begin

text \<open>
  A tunnel from one session of its agent to the next: the row in the database
  (\<open>Tunnel_Service\<close>) together with the route in memory (\<open>Tunnel_Registry\<close>), as the closures of
  \<^verbatim>\<open>main.go\<close> change them.
\<close>

section \<open>Rows of one agent and destination\<close>

definition tunnel_for :: "string \<Rightarrow> string \<Rightarrow> tunnel_row \<Rightarrow> bool" where
  "tunnel_for agentID address t \<longleftrightarrow> tn_agent_id t = agentID \<and> tn_local_address t = address"

text \<open>A statement that succeeds while other calls leave tunnels and agents alone.\<close>

definition undisturbed :: "step_env \<Rightarrow> bool" where
  "undisturbed env \<longleftrightarrow> se_run env = Db_Ok
     \<and> (\<forall>db. db_tunnels (se_others env db) = db_tunnels db \<and> db_agents (se_others env db) = db_agents db)"

lemma undisturbed_simps:
  "undisturbed env \<Longrightarrow> se_run env = Db_Ok" "undisturbed env \<Longrightarrow> db_tunnels (se_others env db) = db_tunnels db"
  "undisturbed env \<Longrightarrow> db_agents (se_others env db) = db_agents db"
  by (simp_all add: undisturbed_def)

lemma closed_for_filter: "filter (closed_for a addr) rows = filter (\<lambda>t. tn_status t = ''closed'') (filter (tunnel_for a addr) rows)"
  by (auto simp: closed_for_def tunnel_for_def intro: filter_cong)

section \<open>Opening and closing\<close>

lemma reopen_closed:
  assumes "undisturbed (env 0)" "canonical pg a" "pg_text pg addr = Some addr"
    and "filter (tunnel_for a addr) (db_tunnels db) = [t]" "tn_status t = ''closed''"
  shows "\<exists>db'. ReopenForSession pg generated a addr env db = (Inr (reopened (se_now (env 0)) t), db')
    \<and> filter (tunnel_for a addr) (db_tunnels db') = [reopened (se_now (env 0)) t]"
proof -
  have "filter (closed_for a addr) (db_tunnels db) = [t]"
    by (simp add: closed_for_filter assms(4,5))
  moreover have "filter (tunnel_for a addr) (update_rows (\<lambda>r. tn_id r = tn_id t) (reopened n) (db_tunnels db)) = [reopened n t]" for n
    using assms(4) by (subst filter_update_rows) (simp_all add: tunnel_for_def reopened_def update_rows_def)
  ultimately show ?thesis
    using assms(2,3) undisturbed_simps [OF assms(1)]
    by (simp add: ReopenForSession_def exec_def Let_def reopen_tunnel_def with_defs canonical_def)
qed

lemma open_new:
  assumes "undisturbed (env 0)" "undisturbed (env 1)" "canonical pg a" "pg_text pg addr = Some addr" "pg_varchar pg 255 addr = Some addr"
    and "filter (tunnel_for a addr) (db_tunnels db) = []"
    and "ReopenForSession pg generated a addr env db = (Inr t, db')"
  shows "filter (tunnel_for a addr) (db_tunnels db') = [t] \<and> tn_status t = ''open''"
proof -
  have none: "filter (closed_for a addr) (db_tunnels db) = []"
    by (simp add: closed_for_filter assms(6))
  show ?thesis
    using assms(3-7) none undisturbed_simps [OF assms(1)] undisturbed_simps [OF assms(2)]
    by (auto simp: ReopenForSession_def exec_def Let_def reopen_tunnel_def insert_tunnel_def with_defs canonical_def
        insert_row_Inr tunnel_for_def split: sum.splits option.splits prod.splits)
qed

lemma opened_row:
  assumes "undisturbed (env 0)" "undisturbed (env 1)" "canonical pg a" "pg_text pg addr = Some addr" "pg_varchar pg 255 addr = Some addr"
    and "filter (tunnel_for a addr) (db_tunnels db) = [] \<or> (\<exists>t. filter (tunnel_for a addr) (db_tunnels db) = [t] \<and> tn_status t = ''closed'')"
    and "ReopenForSession pg generated a addr env db = (Inr t, db')"
  shows "filter (tunnel_for a addr) (db_tunnels db') = [t] \<and> tn_status t = ''open''"
  using assms(6)
proof
  assume "\<exists>t. filter (tunnel_for a addr) (db_tunnels db) = [t] \<and> tn_status t = ''closed''"
  then obtain t0 where "filter (tunnel_for a addr) (db_tunnels db) = [t0]" "tn_status t0 = ''closed''" by blast
  from reopen_closed [where env = env and generated = generated, OF assms(1,3,4) this] assms(7) show ?thesis
    by (auto simp: reopened_def)
next
  assume "filter (tunnel_for a addr) (db_tunnels db) = []"
  from open_new [OF assms(1-5) this assms(7)] show ?thesis .
qed

lemma closed_row:
  assumes "undisturbed env" "canonical pg a" "a \<noteq> []"
    and "filter (tunnel_for a addr) (db_tunnels db) = [t]" "tn_status t = ''open''"
  shows "\<exists>t'. filter (tunnel_for a addr) (db_tunnels (CloseAgentTunnels pg a env db)) = [t'] \<and> tn_status t' = ''closed''
    \<and> tn_id t' = tn_id t \<and> tn_subdomain t' = tn_subdomain t \<and> tn_user_id t' = tn_user_id t"
proof -
  have t: "tn_agent_id t = a"
    using assms(4) by (metis filter_eq_ConsD tunnel_for_def)
  have "filter (tunnel_for a addr) (update_rows P (\<lambda>t. t\<lparr>tn_status := ''closed'', tn_closed_at := Some n, tn_updated_at := n\<rparr>) (db_tunnels db))
      = update_rows P (\<lambda>t. t\<lparr>tn_status := ''closed'', tn_closed_at := Some n, tn_updated_at := n\<rparr>) [t]" for P n
    using assms(4) by (subst filter_update_rows) (simp_all add: tunnel_for_def)
  then show ?thesis
    using assms(2,3,5) t undisturbed_simps [OF assms(1)]
    by (simp add: CloseAgentTunnels_def exec_def Let_def close_agent_tunnels_def with_defs canonical_def update_rows_def)
qed

text \<open>
  C5: a tunnel survives a reconnect with its public address. An agent opens a tunnel to a local
  destination for which it has no other, its session ends, and it asks for the same destination
  from its next session: it gets the same tunnel id, subdomain and public URL, whatever subdomain
  would have been generated, and the address is routed to the new session. Other calls may run
  between the statements as long as they leave tunnels and agents alone; the destination is a
  text the database stores as it is.
\<close>

theorem reconnect_keeps_public_address:
  assumes "canonical pg a" "a \<noteq> []" "pg_text pg addr = Some addr" "pg_varchar pg 255 addr = Some addr"
    and "\<forall>n. undisturbed (env1 n) \<and> undisturbed (env3 n)" "undisturbed env2"
    and "filter (tunnel_for a addr) (db_tunnels db) = []
       \<or> (\<exists>t. filter (tunnel_for a addr) (db_tunnels db) = [t] \<and> tn_status t = ''closed'')"
    and opened: "openTunnel pg generated1 base session1 a addr env1 (db, registry) = (Inr p, db1, registry1)"
    and closed: "cleanupSession pg session1 a order env2 (db1, registry1) = (db2, registry2)"
  shows "\<exists>db3 registry3 tunnel. openTunnel pg generated2 base session2 a addr env3 (db2, registry2) = (Inr p, db3, registry3)
    \<and> registry_Get (top_Subdomain p) registry3 = Some tunnel \<and> at_SessionID tunnel = session2 \<and> at_ID tunnel = top_TunnelID p"
proof -
  obtain t where t: "ReopenForSession pg generated1 a addr env1 db = (Inr t, db1)"
    and p: "p = \<lparr>top_RequestID = [], top_TunnelID = tn_id t, top_Subdomain = tn_subdomain t,
               top_PublicURL = ''https://'' @ tn_subdomain t @ ''.'' @ base\<rparr>"
    using opened by (auto simp: openTunnel_def split: prod.splits sum.splits)
  have env: "undisturbed (env1 0)" "undisturbed (env1 1)" "undisturbed (env3 0)"
    using assms(5) by blast+
  from opened_row [OF env(1,2) assms(1,3,4,7) t]
  have row: "filter (tunnel_for a addr) (db_tunnels db1) = [t]" "tn_status t = ''open''" by blast+
  have "db2 = CloseAgentTunnels pg a env2 db1"
    using closed by (simp add: cleanupSession_def)
  with closed_row [OF assms(6,1,2) row] obtain t' where
    t': "filter (tunnel_for a addr) (db_tunnels db2) = [t']" "tn_status t' = ''closed''"
      "tn_id t' = tn_id t" "tn_subdomain t' = tn_subdomain t"
    by blast
  from reopen_closed [where env = env3 and generated = generated2, OF env(3) assms(1,3) t'(1,2)] t'(3,4)
  show ?thesis
    by (auto simp: openTunnel_def p reopened_def registry_Get_def registry_Open_def)
qed

lemma quiet_at_undisturbed: "undisturbed (quiet_at n)"
  by (simp add: undisturbed_def quiet_at_def)

definition example_opened :: TunnelOpenedPayload where
  "example_opened = \<lparr>top_RequestID = [], top_TunnelID = ''b2c1'', top_Subdomain = ''abcdefghij'',
     top_PublicURL = ''https://abcdefghij.example.test''\<rparr>"

definition example_open :: "string \<Rightarrow> string \<Rightarrow> int \<Rightarrow> database \<times> Registry \<Rightarrow> (string + TunnelOpenedPayload) \<times> database \<times> Registry" where
  "example_open generated session now = openTunnel example_pg (Inr generated) ''example.test'' session ''ag1'' ''3000'' (\<lambda>_. quiet_at now)"

lemma example_open_first: "fst (example_open ''abcdefghij'' ''s1'' 10 (example_tables ''h'', NewRegistry)) = Inr example_opened"
  by (simp add: example_open_def example_opened_def tunnel_statement_defs example_tables_defs exec_def Let_def with_defs insert_row_def)

lemma example_no_tunnels: "db_tunnels (example_tables h) = []"
  by (simp add: example_tables_defs)

theorem reconnect_keeps_public_address_witness:
  "\<exists>db1 registry1 db3 registry3.
     example_open ''abcdefghij'' ''s1'' 10 (example_tables ''h'', NewRegistry) = (Inr example_opened, db1, registry1)
   \<and> example_open ''zzzzzzzzzz'' ''s2'' 30
       (cleanupSession example_pg ''s1'' ''ag1'' [(''b2c1'', ''abcdefghij'')] (quiet_at 20) (db1, registry1))
     = (Inr example_opened, db3, registry3)"
proof -
  obtain res db1 registry1 where open1: "example_open ''abcdefghij'' ''s1'' 10 (example_tables ''h'', NewRegistry)
      = (res, db1, registry1)" by (rule prod_cases3)
  then have first: "example_open ''abcdefghij'' ''s1'' 10 (example_tables ''h'', NewRegistry) = (Inr example_opened, db1, registry1)"
    using example_open_first by simp
  obtain db2 registry2 where second: "cleanupSession example_pg ''s1'' ''ag1'' [(''b2c1'', ''abcdefghij'')] (quiet_at 20) (db1, registry1)
      = (db2, registry2)" by (rule prod.exhaust)
  have "\<exists>db3 registry3 tunnel. example_open ''zzzzzzzzzz'' ''s2'' 30 (db2, registry2) = (Inr example_opened, db3, registry3)
    \<and> registry_Get (top_Subdomain example_opened) registry3 = Some tunnel \<and> at_SessionID tunnel = ''s2''
    \<and> at_ID tunnel = top_TunnelID example_opened"
    unfolding example_open_def
    by (rule reconnect_keeps_public_address [OF _ _ _ _ _ _ _ first [unfolded example_open_def] second])
      (simp_all add: canonical_def example_pg_def quiet_at_undisturbed example_no_tunnels)
  then obtain db3 registry3 where "example_open ''zzzzzzzzzz'' ''s2'' 30 (db2, registry2) = (Inr example_opened, db3, registry3)"
    by blast
  with first second show ?thesis by (intro exI [of _ db1] exI [of _ registry1] exI [of _ db3] exI [of _ registry3]) simp
qed

section \<open>A session that ends late\<close>

lemma update_rows_all: "(\<And>r. P r \<Longrightarrow> Q (f r)) \<Longrightarrow> (\<And>r. \<not> P r \<Longrightarrow> Q r) \<Longrightarrow> x \<in> set (update_rows P f rows) \<Longrightarrow> Q x"
  by (auto simp: update_rows_def)

lemma CloseAgentTunnels_all:
  assumes "undisturbed env" "canonical pg a" "a \<noteq> []" "t \<in> set (db_tunnels (CloseAgentTunnels pg a env db))"
  shows "tn_agent_id t = a \<longrightarrow> tn_status t \<noteq> ''open''"
proof -
  have rows: "db_tunnels (CloseAgentTunnels pg a env db) = update_rows (\<lambda>t. tn_agent_id t = a \<and> tn_status t = ''open'')
      (\<lambda>t. t\<lparr>tn_status := ''closed'', tn_closed_at := Some (se_now env), tn_updated_at := se_now env\<rparr>) (db_tunnels db)"
    using assms(2,3) undisturbed_simps [OF assms(1)]
    by (simp add: CloseAgentTunnels_def exec_def Let_def close_agent_tunnels_def with_defs canonical_def)
  show ?thesis
    by (rule update_rows_all [OF _ _ assms(4) [unfolded rows]]) simp_all
qed

lemma agents_Disconnect_rows:
  assumes "undisturbed env" "canonical pg a"
  shows "db_tunnels (agents_Disconnect pg a env db) = db_tunnels db"
    and "ag \<in> set (db_agents (agents_Disconnect pg a env db)) \<Longrightarrow> ag_id ag = a \<longrightarrow> \<not> ag_connected ag"
proof -
  show "db_tunnels (agents_Disconnect pg a env db) = db_tunnels db"
    using assms(2) undisturbed_simps [OF assms(1)]
    by (simp add: agents_Disconnect_def exec_def Let_def disconnect_agent_def with_defs canonical_def)
  have rows: "db_agents (agents_Disconnect pg a env db) = update_rows (\<lambda>g. ag_id g = a)
      (\<lambda>g. g\<lparr>ag_connected := False, ag_disconnected_at := Some (se_now env), ag_updated_at := se_now env\<rparr>) (db_agents db)"
    using assms(2) undisturbed_simps [OF assms(1)]
    by (simp add: agents_Disconnect_def exec_def Let_def disconnect_agent_def with_defs canonical_def)
  show "ag_id ag = a \<longrightarrow> \<not> ag_connected ag" if "ag \<in> set (db_agents (agents_Disconnect pg a env db))"
    by (rule update_rows_all [OF _ _ that [unfolded rows]]) simp_all
qed

text \<open>
  C33: what the end of a session does when its agent has already connected again. Take a tunnel
  that is routed to the agent's new session. When the old session's connection ends, its deferred
  cleanup leaves the route in place, so the tunnel keeps serving, but marks every tunnel of the
  agent as closed in the database and the agent as disconnected.
\<close>

theorem late_cleanup_hides_live_tunnel:
  assumes "canonical pg a" "a \<noteq> []" "undisturbed env"
    and "registry_wf registry" "mset order = mset (reg_byID registry)"
    and "registry_Get sub registry = Some tunnel" "at_SessionID tunnel \<noteq> old"
    and "end_session \<lparr>ch_agents = True, ch_cleanup = True\<rparr> old a c s = Some (s', effects)"
    and "fold (conn_effect_step pg order env) effects (db, registry) = (db', registry')"
  shows "registry_Get sub registry' = Some tunnel
    \<and> (\<forall>t \<in> set (db_tunnels db'). tn_agent_id t = a \<longrightarrow> tn_status t \<noteq> ''open'')
    \<and> (\<forall>ag \<in> set (db_agents db'). ag_id ag = a \<longrightarrow> \<not> ag_connected ag)"
proof -
  have "effects = [CleanupSession old a, DisconnectAgent a]"
    using assms(2,8) by (auto simp: end_session_def)
  then have db': "db' = agents_Disconnect pg a env (CloseAgentTunnels pg a env db)"
    and reg': "registry' = registry_CloseSession order old registry"
    using assms(9) by (auto simp: cleanupSession_def)
  show ?thesis
    using closed_session_is_unrouted [OF assms(4,5)] assms(6,7) CloseAgentTunnels_all [OF assms(3,1,2)]
      agents_Disconnect_rows [OF assms(3,1)] unfolding db' reg' by simp
qed

definition live_row :: tunnel_row where
  "live_row = \<lparr>tn_id = ''t2'', tn_user_id = ''a1'', tn_agent_id = ''ag1'', tn_subdomain = ''klmnopqrst'', tn_local_address = ''3000'',
     tn_protocol = ''http'', tn_status = ''open'', tn_opened_at = Some 10, tn_closed_at = None, tn_created_at = 10, tn_updated_at = 10\<rparr>"

definition live_tunnel :: ActiveTunnel where
  "live_tunnel = \<lparr>at_ID = ''t2'', at_Subdomain = ''klmnopqrst'', at_AgentID = ''ag1'', at_UserID = ''a1'', at_SessionID = ''new'',
     at_LocalAddress = ''3000''\<rparr>"

lemma live_registry:
  "registry_wf (registry_Open live_tunnel NewRegistry)" (is ?wf)
  "registry_Get ''klmnopqrst'' (registry_Open live_tunnel NewRegistry) = Some live_tunnel"
  "reg_byID (registry_Open live_tunnel NewRegistry) = [(''t2'', ''klmnopqrst'')]"
proof -
  show ?wf by (intro registry_Open_wf) (auto simp: live_tunnel_def)
qed (simp_all add: registry_Get_def registry_Open_def NewRegistry_def live_tunnel_def)

theorem late_cleanup_hides_live_tunnel_witness:
  "\<exists>s' effects db' registry'.
     end_session \<lparr>ch_agents = True, ch_cleanup = True\<rparr> ''old'' ''ag1'' 0 new_gateway = Some (s', effects)
   \<and> fold (conn_effect_step example_pg [(''t2'', ''klmnopqrst'')] (quiet_at 20)) effects
       ((example_tables ''h'')\<lparr>db_tunnels := [live_row]\<rparr>, registry_Open live_tunnel NewRegistry) = (db', registry')
   \<and> registry_Get ''klmnopqrst'' registry' = Some live_tunnel
   \<and> (\<forall>t \<in> set (db_tunnels db'). tn_agent_id t = ''ag1'' \<longrightarrow> tn_status t \<noteq> ''open'')"
proof -
  let ?h = "\<lparr>ch_agents = True, ch_cleanup = True\<rparr>"
  have "end_session ?h ''old'' ''ag1'' 0 new_gateway \<noteq> None"
    by (simp add: end_session_def session_Remove_def remove_lock_def new_gateway_def NewSessionManager_def call_cancel_def Let_def)
  then obtain s' effects where ended: "end_session ?h ''old'' ''ag1'' 0 new_gateway = Some (s', effects)"
    by (metis not_None_eq surj_pair)
  obtain db' registry' where run: "fold (conn_effect_step example_pg [(''t2'', ''klmnopqrst'')] (quiet_at 20)) effects
       ((example_tables ''h'')\<lparr>db_tunnels := [live_row]\<rparr>, registry_Open live_tunnel NewRegistry) = (db', registry')"
    by (rule prod.exhaust)
  have "registry_Get ''klmnopqrst'' registry' = Some live_tunnel
    \<and> (\<forall>t \<in> set (db_tunnels db'). tn_agent_id t = ''ag1'' \<longrightarrow> tn_status t \<noteq> ''open'')
    \<and> (\<forall>ag \<in> set (db_agents db'). ag_id ag = ''ag1'' \<longrightarrow> \<not> ag_connected ag)"
    by (rule late_cleanup_hides_live_tunnel [OF _ _ quiet_at_undisturbed live_registry(1) _ live_registry(2) _ ended run])
      (simp_all add: live_registry(3) [unfolded live_tunnel_def] canonical_def example_pg_def live_tunnel_def)
  with ended run show ?thesis by blast
qed

end
