(* ===== verification/Agent_Access.thy ===== *)
theory Agent_Access
  imports Main_Server
begin

text \<open>
  Who may do what with agent tokens: a request reaches only the rows and sessions of the user it
  is authenticated as, and a revoked token is of no use from then on, whatever else the server
  does. The statements are about the handler of \<open>Agent_Tokens\<close> and the activities of
  \<open>Main_Server\<close>.
\<close>

section \<open>Access tokens in a request\<close>

lemma signJWT_plain: "list_all (\<lambda>c. id_char c \<or> c = CHR ''.'') (signJWT c secret)"
  using RawURL_chars by (auto simp: signJWT_def Let_def list_all_iff)

lemma jwt_char_plain: "id_char c \<or> c = CHR ''.'' \<Longrightarrow> plain_char c"
  by (auto simp: id_char_def plain_char_def is_lower_def is_upper_def is_digit_def)

lemma bearer_signed:
  assumes "header_Get (req_Header r) ''Authorization'' = ''Bearer '' @ signJWT c secret"
  shows "agenttokens_bearer r = signJWT c secret"
proof -
  have "signJWT c secret \<noteq> []" by (simp add: signJWT_def Let_def)
  then have "plain_char (hd (signJWT c secret)) \<and> plain_char (last (signJWT c secret))"
    using signJWT_plain [of c secret] jwt_char_plain by (auto simp: list_all_iff)
  then have "TrimSpace (signJWT c secret) = signJWT c secret" by (simp add: TrimSpace_plain)
  then show ?thesis
    using assms by (simp add: agenttokens_bearer_def TrimPrefix_def HasPrefix_def)
qed

section \<open>Only the user's own rows\<close>

definition tokens_of :: "string \<Rightarrow> database \<Rightarrow> agent_token_row list" where
  "tokens_of u db = filter (\<lambda>t. tk_user_id t = u) (db_agent_tokens db)"

text \<open>What a call on behalf of a user leaves alone.\<close>

definition spares_others :: "postgres \<Rightarrow> string \<Rightarrow> database \<Rightarrow> database \<Rightarrow> bool" where
  "spares_others pg userID db db' \<longleftrightarrow> db' = db\<lparr>db_agent_tokens := db_agent_tokens db'\<rparr>
     \<and> (\<forall>u. pg_uuid pg userID \<noteq> Some u \<longrightarrow> tokens_of u db' = tokens_of u db)"

lemma spares_others_refl [simp]: "spares_others pg userID db db"
  by (simp add: spares_others_def)

lemma tokens_List_spares: "quiet (env 0) \<Longrightarrow> spares_others pg u db (snd (tokens_List pg u env db))"
  by (auto simp: tokens_List_def exec_quiet dest: selects_read_only split: sum.splits)

lemma insert_agent_token_spares:
  assumes "insert_agent_token pg u name prefix hash now uuid db = Inr (row, db')"
  shows "spares_others pg u db db'"
  using assms by (auto simp: insert_agent_token_def with_defs Let_def insert_row_Inr spares_others_def tokens_of_def
      split: option.splits sum.splits if_splits)

lemma tokens_Create_spares: "quiet (env 0) \<Longrightarrow> spares_others pg u db (snd (tokens_Create pg random u name env db))"
  by (auto simp: tokens_Create_def Let_def exec_quiet dest: insert_agent_token_spares split: sum.splits)

lemma filter_update_rows_other:
  "(\<And>r. P r \<Longrightarrow> \<not> Q r \<and> \<not> Q (f r)) \<Longrightarrow> filter Q (update_rows P f rows) = filter Q rows"
  by (induction rows) (auto simp: update_rows_def)

lemma revoke_agent_token_spares:
  assumes "revoke_agent_token pg i u now uuid db = Inr (hash, db')"
  shows "spares_others pg u db db'"
    and "\<exists>t \<in> set (db_agent_tokens db). tk_hash t = hash \<and> pg_uuid pg u = Some (tk_user_id t)"
proof -
  obtain j v t where v: "pg_uuid pg u = Some v" "pg_uuid pg i = Some j"
    and t: "find (\<lambda>t. tk_id t = j \<and> tk_user_id t = v \<and> tk_revoked_at t = None) (db_agent_tokens db) = Some t" "hash = tk_hash t"
    and db': "db' = db\<lparr>db_agent_tokens := update_rows (\<lambda>t. tk_id t = j \<and> tk_user_id t = v \<and> tk_revoked_at t = None)
        (\<lambda>t. t\<lparr>tk_revoked_at := Some now\<rparr>) (db_agent_tokens db)\<rparr>"
    using assms by (auto simp: revoke_agent_token_def with_defs Let_def split: option.splits)
  show "spares_others pg u db db'"
    using v(1) by (auto simp: spares_others_def db' tokens_of_def intro!: filter_update_rows_other)
  show "\<exists>t \<in> set (db_agent_tokens db). tk_hash t = hash \<and> pg_uuid pg u = Some (tk_user_id t)"
    using t v(1) by (auto simp: find_Some_iff)
qed

lemma tokens_Revoke_spares:
  assumes "quiet (env 0)" "tokens_Revoke pg u i env db = (res, db')"
  shows "spares_others pg u db db'"
    and "res = Inr (Some hash) \<Longrightarrow> \<exists>t \<in> set (db_agent_tokens db). tk_hash t = hash \<and> pg_uuid pg u = Some (tk_user_id t)"
  using assms revoke_agent_token_spares [of pg i u "se_now (env 0)" "se_uuid (env 0)" db]
  by (auto simp: tokens_Revoke_def exec_quiet split: sum.splits db_error.splits prod.splits)

lemma UserFromAccessToken_quiet: "quiet env \<Longrightarrow> snd (UserFromAccessToken svc pg now token env db) = db"
  by (auto simp: UserFromAccessToken_def exec_quiet dest: selects_read_only
      split: option.splits sum.splits db_error.splits prod.splits)

lemma later_quiet: "\<forall>n. quiet (env n) \<Longrightarrow> quiet (later k env n)"
  by (simp add: later_def)

lemma DisconnectTokenHash_cancels:
  "c \<in> set (gs_cancelled (DisconnectTokenHash h s)) \<longleftrightarrow> c \<in> set (gs_cancelled s)
     \<or> (\<exists>i session. (i, session) \<in> set (gs_sessions s) \<and> ses_AgentTokenHash session = h \<and> ses_Cancel session = Some c)"
  using token_revocation_cancels_its_sessions [of h s] by blast

definition own_sessions :: "postgres \<Rightarrow> string \<Rightarrow> database \<Rightarrow> gateway_state \<Rightarrow> nat set" where
  "own_sessions pg userID db s = {c. \<exists>i session t. (i, session) \<in> set (gs_sessions s) \<and> ses_Cancel session = Some c
     \<and> t \<in> set (db_agent_tokens db) \<and> ses_AgentTokenHash session = tk_hash t \<and> pg_uuid pg userID = Some (tk_user_id t)}"

lemma tokens_revoke_own:
  assumes "\<forall>n. quiet (ap_calls env n)" "tokens_revoke env user r w (db, s) = (out, db', s')"
  shows "spares_others (ap_pg env) (usr_ID user) db db'
    \<and> set (gs_cancelled s') \<subseteq> set (gs_cancelled s) \<union> own_sessions (ap_pg env) (usr_ID user) db s"
proof -
  let ?i = "TrimPrefix (req_Path r) ''/api/v1/agent-tokens/''"
  obtain res db1 where call: "tokens_Revoke (ap_pg env) (usr_ID user) ?i (later 1 (ap_calls env)) db = (res, db1)" by fastforce
  note spares = tokens_Revoke_spares [where env = "later 1 (ap_calls env)", OF later_quiet [OF assms(1)] call]
  consider "db' = db" "s' = s" | "db' = db1" "s' = s"
    | hash where "res = Inr (Some hash)" "db' = db1" "s' = DisconnectTokenHash hash s"
    using assms(2) call by (auto simp: tokens_revoke_def Let_def split: if_splits sum.splits option.splits)
  then show ?thesis
  proof cases
    case (3 hash)
    with spares show ?thesis
      by (fastforce simp: DisconnectTokenHash_cancels own_sessions_def)
  qed (use spares in auto)
qed

definition example_claims :: claims where
  "example_claims = \<lparr>cl_Subject = ''a1'', cl_Type = ''access'', cl_IssuedAt = 0, cl_ExpiresAt = 1000\<rparr>"

definition example_api :: api_env where
  "example_api = \<lparr>ap_svc = example_svc, ap_pg = example_pg, ap_now = 0, ap_time = (\<lambda>t. JNum (show_int t)), ap_random = Inl ''none'',
     ap_body = ([], EOF), ap_calls = (\<lambda>_. quiet_at 10)\<rparr>"

definition revoke_request :: HTTPRequest where
  "revoke_request = \<lparr>req_Method = ''DELETE'', req_Host = ''tunnel.example.test'', req_RemoteAddr = ''192.0.2.7:4000'',
     req_RequestURI = ''/api/v1/agent-tokens/tk1'', req_Path = ''/api/v1/agent-tokens/tk1'',
     req_Header = [(''Authorization'', [''Bearer '' @ signJWT example_claims (as_accessSecret example_svc)])],
     req_TLS = True, req_ContentLength = 0\<rparr>"

definition two_tenants :: "string \<Rightarrow> database" where
  "two_tenants hash = (example_tables hash)\<lparr>
     db_users := [example_user, example_user\<lparr>u_id := ''b1'', u_email := ''bob@example.test''\<rparr>],
     db_agent_tokens := [example_token hash, (example_token (hash @ ''2''))\<lparr>tk_id := ''tk2'', tk_user_id := ''b1''\<rparr>]\<rparr>"

lemma revoke_request_user:
  "UserFromAccessToken (ap_svc example_api) (ap_pg example_api) (ap_now example_api) (agenttokens_bearer revoke_request)
     (ap_calls example_api 0) (two_tenants hash) = (Inr \<lparr>usr_ID = ''a1'', usr_Email = ''ann@example.test''\<rparr>, two_tenants hash)"
proof -
  have "header_Get (req_Header revoke_request) ''Authorization'' = ''Bearer '' @ signJWT example_claims (as_accessSecret example_svc)"
    by (simp add: revoke_request_def header_Get_def header_Values_def CanonicalMIMEHeaderKey_def token_char_def is_upper_def
        is_lower_def is_digit_def upper_char_def lower_char_def)
  then have bearer: "agenttokens_bearer revoke_request = signJWT example_claims (as_accessSecret (ap_svc example_api))"
    using bearer_signed by (simp add: example_api_def)
  show ?thesis
    unfolding bearer
    by (subst UserFromAccessToken_signed [where u = example_user])
      (simp_all add: example_claims_def claims_ok_def utf8_valid_ascii is_ascii_def example_api_def quiet_def canonical_def
        active_user_def two_tenants_def example_tables_defs time_Unix_def int64_def maxInt64_def)
qed

lemma revoke_request_served:
  "\<exists>rep db'. tokens_ServeHTTP example_api revoke_request [] (two_tenants hash, s) = (Replied rep, db', DisconnectTokenHash hash s)
     \<and> rep_Status rep = 204
     \<and> map (\<lambda>t. (tk_id t, tk_hash t)) (db_agent_tokens db') = [(''tk1'', hash), (''tk2'', hash @ ''2'')]"
proof -
  have revoke: "tokens_Revoke example_pg ''a1'' ''tk1'' (later 1 (\<lambda>_. quiet_at 10)) (two_tenants hash) =
      (Inr (Some hash), (two_tenants hash)\<lparr>db_agent_tokens := update_rows
         (\<lambda>t. tk_id t = ''tk1'' \<and> tk_user_id t = ''a1'' \<and> tk_revoked_at t = None) (\<lambda>t. t\<lparr>tk_revoked_at := Some 10\<rparr>)
         (db_agent_tokens (two_tenants hash))\<rparr>)"
    by (simp add: tokens_Revoke_def later_def exec_def revoke_agent_token_def with_defs Let_def two_tenants_def example_tables_defs)
  have rows: "map (\<lambda>t. (tk_id t, tk_hash t)) (update_rows P (\<lambda>t. t\<lparr>tk_revoked_at := Some 10\<rparr>) (db_agent_tokens (two_tenants hash)))
      = [(''tk1'', hash), (''tk2'', hash @ ''2'')]" for P
    by (subst map_update_rows) (simp_all add: two_tenants_def example_token_def)
  show ?thesis
    using revoke revoke_request_user [of hash] rows
    by (simp add: tokens_ServeHTTP_def tokens_revoke_def tokens_path_def revoke_request_def example_api_def
        HasPrefix_def TrimPrefix_def WriteHeader_def)
qed

text \<open>
  C16: users cannot reach each other's agents. A request to the agent-token API that is not
  authenticated changes nothing. One that is authenticated as a user changes nothing but the
  table of agent tokens, and there no row of any other user; the only agent sessions it cancels
  are sessions of tokens that user owns.
\<close>

theorem token_requests_stay_with_their_user:
  assumes quiet: "\<forall>n. quiet (ap_calls env n)"
    and request: "tokens_ServeHTTP env r w (db, s) = (out, db', s')"
    and user: "fst (UserFromAccessToken (ap_svc env) (ap_pg env) (ap_now env) (agenttokens_bearer r) (ap_calls env 0) db) = who"
  shows "case who of
      Inl e \<Rightarrow> db' = db \<and> s' = s
    | Inr user \<Rightarrow> db' = db\<lparr>db_agent_tokens := db_agent_tokens db'\<rparr>
        \<and> (\<forall>u. pg_uuid (ap_pg env) (usr_ID user) \<noteq> Some u \<longrightarrow> tokens_of u db' = tokens_of u db)
        \<and> set (gs_cancelled s') \<subseteq> set (gs_cancelled s) \<union> own_sessions (ap_pg env) (usr_ID user) db s"
proof -
  have U: "UserFromAccessToken (ap_svc env) (ap_pg env) (ap_now env) (agenttokens_bearer r) (ap_calls env 0) db = (who, db)"
    using user UserFromAccessToken_quiet quiet by (metis prod.collapse)
  show ?thesis
  proof (cases who)
    case (Inl e)
    then show ?thesis using request U by (simp add: tokens_ServeHTTP_def)
  next
    case (Inr u)
    note later = later_quiet [OF quiet, of 1 0]
    consider "db' = snd (tokens_list env u w db)" "s' = s" | "db' = snd (tokens_create env u w db)" "s' = s"
      | "tokens_revoke env u r w (db, s) = (out, db', s')" | "db' = db" "s' = s"
      using request U Inr by (auto simp: tokens_ServeHTTP_def case_prod_unfold split: if_splits)
    then have "spares_others (ap_pg env) (usr_ID u) db db'
      \<and> set (gs_cancelled s') \<subseteq> set (gs_cancelled s) \<union> own_sessions (ap_pg env) (usr_ID u) db s"
    proof cases
      case 1
      then show ?thesis using tokens_List_spares [where env = "later 1 (ap_calls env)", OF later] by (simp add: snd_tokens_handlers le_supI1)
    next
      case 2
      then show ?thesis using tokens_Create_spares [where env = "later 1 (ap_calls env)", OF later]
        by (simp add: snd_tokens_handlers le_supI1 split: option.split)
    next
      case 3
      then show ?thesis by (rule tokens_revoke_own [OF quiet])
    qed auto
    with Inr show ?thesis by (simp add: spares_others_def)
  qed
qed

lemma example_calls: "\<forall>n. quiet (ap_calls example_api n)" "calls_ok example_pg (ap_calls example_api)" "ap_pg example_api = example_pg"
  by (simp_all add: example_api_def quiet_at_def quiet_def calls_ok_def env_ok_def canonical_def example_pg_def)

theorem token_requests_stay_with_their_user_witness:
  "\<exists>rep db'. tokens_ServeHTTP example_api revoke_request [] (two_tenants ''h'', new_gateway)
       = (Replied rep, db', DisconnectTokenHash ''h'' new_gateway)
     \<and> rep_Status rep = 204 \<and> map tk_id (tokens_of ''b1'' db') = [''tk2'']"
proof -
  obtain rep db' where served: "tokens_ServeHTTP example_api revoke_request [] (two_tenants ''h'', new_gateway)
      = (Replied rep, db', DisconnectTokenHash ''h'' new_gateway)" and status: "rep_Status rep = 204"
    using revoke_request_served [of "''h''" new_gateway] by blast
  note token_requests_stay_with_their_user [OF example_calls(1) served refl]
  then have "tokens_of ''b1'' db' = tokens_of ''b1'' (two_tenants ''h'')"
    by (simp only: revoke_request_user fst_conv sum.case) (simp add: example_calls(3) example_pg_def)
  moreover have "map tk_id (tokens_of ''b1'' (two_tenants ''h'')) = [''tk2'']"
    by (simp add: tokens_of_def two_tenants_def example_tables_defs)
  ultimately show ?thesis using served status by auto
qed

section \<open>A revoked token\<close>

lemma tokens_Revoke_revokes:
  assumes "tokens_Revoke pg u i env db = (Inr (Some hash), db')" "calls_ok pg env" "db_inv pg db"
  shows "token_revoked hash db'"
    and "\<exists>t \<in> set (db_agent_tokens db'). tk_hash t = hash \<and> pg_uuid pg i = Some (tk_id t)"
proof -
  let ?db = "se_others (env 0) db"
  have "revoke_agent_token pg i u (se_now (env 0)) (se_uuid (env 0)) ?db = Inr (hash, db')"
    using assms(1) by (auto simp: tokens_Revoke_def exec_Inr split: sum.splits db_error.splits prod.splits)
  then obtain j v t where j: "pg_uuid pg i = Some j"
    and t: "find (\<lambda>t. tk_id t = j \<and> tk_user_id t = v \<and> tk_revoked_at t = None) (db_agent_tokens ?db) = Some t" "hash = tk_hash t"
    and db': "db_agent_tokens db' = update_rows (\<lambda>t. tk_id t = j \<and> tk_user_id t = v \<and> tk_revoked_at t = None)
        (\<lambda>t. t\<lparr>tk_revoked_at := Some (se_now (env 0))\<rparr>) (db_agent_tokens ?db)"
    by (auto simp: revoke_agent_token_def with_defs Let_def split: option.splits)
  have tin: "t \<in> set (db_agent_tokens ?db)" and hit: "tk_id t = j" "tk_user_id t = v" "tk_revoked_at t = None"
    using t(1) by (auto simp: find_Some_iff)
  have "db_steps pg db ?db"
    using calls_okD [OF assms(2), of 0] by (simp add: env_ok_def)
  then have "distinct (map tk_hash (db_agent_tokens ?db))"
    using db_steps_inv assms(3) by (auto simp: db_inv_def db_ok_def agent_tokens_ok_def)
  then have unique: "t' = t" if "t' \<in> set (db_agent_tokens ?db)" "tk_hash t' = hash" for t'
    using that tin t(2) by (auto simp: distinct_map dest: inj_onD)
  let ?hit = "\<lambda>t. tk_id t = j \<and> tk_user_id t = v \<and> tk_revoked_at t = None"
  have in': "t\<lparr>tk_revoked_at := Some (se_now (env 0))\<rparr> \<in> set (db_agent_tokens db')"
    unfolding db' update_rows_def set_map by (rule image_eqI [OF _ tin]) (simp add: hit)
  have "tk_revoked_at t' \<noteq> None" if t': "t' \<in> set (db_agent_tokens db')" "tk_hash t' = hash" for t'
  proof -
    obtain r where r: "r \<in> set (db_agent_tokens ?db)" "t' = (if ?hit r then r\<lparr>tk_revoked_at := Some (se_now (env 0))\<rparr> else r)"
      using t'(1) unfolding db' update_rows_def set_map by blast
    then have "r = t" using unique t'(2) by (simp split: if_splits)
    with r(2) hit show ?thesis by simp
  qed
  moreover have "hash \<in> tk_hash ` set (db_agent_tokens db')"
    by (rule image_eqI [OF _ in']) (simp add: t(2))
  ultimately show "token_revoked hash db'"
    by (simp add: token_revoked_def list_all_iff)
  show "\<exists>t \<in> set (db_agent_tokens db'). tk_hash t = hash \<and> pg_uuid pg i = Some (tk_id t)"
    by (rule bexI [OF _ in']) (simp add: t(2) j hit)
qed

lemma token_not_live:
  assumes "token_revoked hash db" shows "\<not> list_ex (token_live hash now) (db_agent_tokens db)"
    and "find (token_live hash now) (db_agent_tokens db) = None"
  using assms by (auto simp: token_revoked_def token_live_def list_all_iff list_ex_iff find_None_iff)

lemma revoked_token_refused:
  assumes "token_revoked hash db" "hash_hex raw = hash" "pg_keeps pg" "env_ok pg env0" "calls_ok pg env"
  shows "\<not> fst (valid pg raw env0 db)"
    and "\<exists>m. fst (agents_Connect pg raw hello env db) = Inl m"
proof -
  have keeps: "pg_text pg hash = Some h \<Longrightarrow> h = hash" for h
    using assms(3) unfolding pg_keeps_def by blast
  have "db_steps pg db (se_others env0 db)" "db_steps pg db (se_others (env 0) db)"
    using assms(4) calls_okD [OF assms(5), of 0] by (simp_all add: env_ok_def)
  then have dead: "token_revoked hash (se_others env0 db)" "token_revoked hash (se_others (env 0) db)"
    using db_steps_revoked(2) assms(1) by blast+
  have "\<nexists>db'. exec env0 (token_exists pg hash) db = (Inr True, db')"
    using keeps token_not_live(1) [OF dead(1)] by (auto simp: exec_Inr token_exists_def with_defs split: option.splits)
  then show "\<not> fst (valid pg raw env0 db)"
    by (auto simp: valid_def assms(2) split: prod.splits sum.splits)
  have "\<nexists>t db'. exec (env 0) (select_live_token pg hash) db = (Inr t, db')"
    using keeps token_not_live(2) [OF dead(2)] by (auto simp: exec_Inr select_live_token_def with_defs split: option.splits)
  then show "\<exists>m. fst (agents_Connect pg raw hello env db) = Inl m"
    using assms(2) by (auto simp: agents_Connect_def hash_hex_def split: prod.splits sum.splits)
qed

lemma tokens_ServeHTTP_204:
  assumes "tokens_ServeHTTP env r w (db, s) = (Replied rep, db', s')" "rep_Status rep = 204"
  obtains db1 user hash where
    "UserFromAccessToken (ap_svc env) (ap_pg env) (ap_now env) (agenttokens_bearer r) (ap_calls env 0) db = (Inr user, db1)"
    "tokens_Revoke (ap_pg env) (usr_ID user) (TrimPrefix (req_Path r) ''/api/v1/agent-tokens/'') (later 1 (ap_calls env)) db1
       = (Inr (Some hash), db')"
    "s' = DisconnectTokenHash hash s"
  using assms
  by (auto simp: tokens_ServeHTTP_def tokens_list_def tokens_create_def tokens_revoke_def Let_def write_defs json_reply_def
      WriteHeader_def split: prod.splits sum.splits option.splits if_splits)

text \<open>
  C11: a revoked agent token is cut off for good. When the API answers a revocation with 204, every
  session that was authenticated with the token has been cancelled, and from then on, whatever
  the server does next, the token is refused: it does not authenticate a new connection, and a
  connection that got past that check before cannot register its agent with it any more.
\<close>

theorem revoked_agent_token_is_cut_off:
  assumes reply: "tokens_ServeHTTP env r w (app_db s, app_gateway s) = (Replied rep, db1, g1)" "rep_Status rep = 204"
    and pg: "ap_pg env = pg" "pg_keeps pg" "calls_ok pg (ap_calls env)" "db_inv pg (app_db s)"
    and later: "list_all (activity_ok pg) acts"
      "s' = fold (app_step cfg pg) acts (s\<lparr>app_db := db1, app_gateway := g1\<rparr>)"
  shows "\<exists>t \<in> set (db_agent_tokens db1). pg_uuid pg (TrimPrefix (req_Path r) ''/api/v1/agent-tokens/'') = Some (tk_id t)
    \<and> (\<forall>i session c. (i, session) \<in> set (gs_sessions (app_gateway s)) \<longrightarrow> ses_AgentTokenHash session = tk_hash t
         \<longrightarrow> ses_Cancel session = Some c \<longrightarrow> c \<in> set (gs_cancelled g1))
    \<and> (\<forall>raw hello env1 env2. hash_hex raw = tk_hash t \<longrightarrow> env_ok pg env1 \<longrightarrow> calls_ok pg env2
         \<longrightarrow> \<not> fst (valid pg raw env1 (app_db s')) \<and> (\<exists>m. fst (agents_Connect pg raw hello env2 (app_db s')) = Inl m))"
proof -
  obtain db0 user hash where
    user: "UserFromAccessToken (ap_svc env) (ap_pg env) (ap_now env) (agenttokens_bearer r) (ap_calls env 0) (app_db s) = (Inr user, db0)"
    and call: "tokens_Revoke (ap_pg env) (usr_ID user) (TrimPrefix (req_Path r) ''/api/v1/agent-tokens/'') (Store.later 1 (ap_calls env)) db0
       = (Inr (Some hash), db1)"
    and g1: "g1 = DisconnectTokenHash hash (app_gateway s)"
    by (rule tokens_ServeHTTP_204 [OF reply])
  have "db_steps pg (app_db s) db0"
    using UserFromAccessToken_steps [OF user] pg(1,3) by simp
  then have inv: "db_inv pg db0" by (rule db_steps_inv) (rule pg(4))
  note revokes = tokens_Revoke_revokes [OF call [unfolded pg(1)] calls_ok_later [OF pg(3)] inv]
  obtain t where t: "t \<in> set (db_agent_tokens db1)" "tk_hash t = hash"
      "pg_uuid pg (TrimPrefix (req_Path r) ''/api/v1/agent-tokens/'') = Some (tk_id t)"
    using revokes(2) by blast
  have "db_steps pg db1 (app_db s')"
    using app_run_steps [OF later(1), of "s\<lparr>app_db := db1, app_gateway := g1\<rparr>" cfg] later(2) by simp
  then have "token_revoked hash (app_db s')" by (rule db_steps_revoked(2)) (rule revokes(1))
  note refused = revoked_token_refused [OF this _ pg(2)]
  show ?thesis
    using t refused by (intro bexI [OF _ t(1)]) (auto simp: g1 DisconnectTokenHash_cancels)
qed

lemma two_tenants_inv: "db_inv example_pg (two_tenants hash)"
  by (simp add: db_inv_def ids_ok_def db_ok_def table_ok_defs two_tenants_def example_tables_defs canonical_def)

lemma example_pg_keeps: "pg_keeps example_pg"
  by (auto simp: pg_keeps_def example_pg_def canonical_def split: if_splits)

theorem revoked_agent_token_is_cut_off_witness:
  "\<exists>rep db1 g1. tokens_ServeHTTP example_api revoke_request [] (two_tenants (hash_hex ''tkn_x''), new_gateway) = (Replied rep, db1, g1)
     \<and> rep_Status rep = 204
     \<and> \<not> fst (valid example_pg ''tkn_x'' (quiet_at 50)
           (app_db (fold (app_step example_cfg example_pg) example_acts ((new_app db1)\<lparr>app_gateway := g1\<rparr>))))"
proof -
  let ?hash = "hash_hex ''tkn_x''"
  let ?s = "new_app (two_tenants ?hash)"
  have s: "app_db ?s = two_tenants ?hash" "app_gateway ?s = new_gateway"
    by (simp_all add: new_app_def)
  obtain rep db1 where served0: "tokens_ServeHTTP example_api revoke_request [] (two_tenants ?hash, new_gateway)
      = (Replied rep, db1, DisconnectTokenHash ?hash new_gateway)" and status: "rep_Status rep = 204"
    and rows: "map (\<lambda>t. (tk_id t, tk_hash t)) (db_agent_tokens db1) = [(''tk1'', ?hash), (''tk2'', ?hash @ ''2'')]"
    using revoke_request_served [of ?hash new_gateway] by (elim exE conjE) (rule that)
  have served: "tokens_ServeHTTP example_api revoke_request [] (app_db ?s, app_gateway ?s)
      = (Replied rep, db1, DisconnectTokenHash ?hash new_gateway)"
    unfolding s by (rule served0)
  let ?s1 = "?s\<lparr>app_db := db1, app_gateway := DisconnectTokenHash ?hash new_gateway\<rparr>"
  have inv: "db_inv example_pg (app_db ?s)" unfolding s by (rule two_tenants_inv)
  have path: "pg_uuid example_pg (TrimPrefix (req_Path revoke_request) ''/api/v1/agent-tokens/'') = Some ''tk1''"
    by (simp add: example_pg_def revoke_request_def TrimPrefix_def HasPrefix_def)
  obtain t where t: "t \<in> set (db_agent_tokens db1)" "tk_id t = ''tk1''"
    and cut: "\<And>raw env1 env2. hash_hex raw = tk_hash t \<Longrightarrow> env_ok example_pg env1 \<Longrightarrow> calls_ok example_pg env2 \<Longrightarrow>
      \<not> fst (valid example_pg raw env1 (app_db (fold (app_step example_cfg example_pg) example_acts ?s1)))"
    using revoked_agent_token_is_cut_off [OF served status example_calls(3) example_pg_keeps example_calls(2) inv example_acts_ok refl,
        of example_cfg] unfolding path by auto
  have "(tk_id t, tk_hash t) \<in> set [(''tk1'', ?hash), (''tk2'', ?hash @ ''2'')]"
    unfolding rows [symmetric] using t(1) by (auto simp del: rows)
  then have "tk_hash t = ?hash" using t(2) by simp
  from cut [OF this [symmetric] quiet_at_ok example_calls(2)]
  have "\<not> fst (valid example_pg ''tkn_x'' (quiet_at 50) (app_db (fold (app_step example_cfg example_pg) example_acts ?s1)))" .
  moreover have "?s1 = (new_app db1)\<lparr>app_gateway := DisconnectTokenHash ?hash new_gateway\<rparr>"
    by (simp add: new_app_def)
  ultimately show ?thesis
    using served0 status by (intro exI [of _ rep] exI [of _ db1] exI [of _ "DisconnectTokenHash ?hash new_gateway"]) simp
qed

end
