(* ===== verification/Traffic_Flush.thy ===== *)
theory Traffic_Flush
  imports Main_Server
begin

text \<open>
  What a flush does to the traffic totals: the deltas the registry has collected
  (\<open>Tunnel_Registry\<close>) become part of the rows the traffic API reports (\<open>Traffic\<close>).
\<close>

definition totals :: "database \<Rightarrow> string \<Rightarrow> int \<times> int \<times> int" where
  "totals db u = (case find (\<lambda>t. tr_user_id t = u) (db_traffic db) of
     None \<Rightarrow> (0, 0, 0) | Some t \<Rightarrow> (tr_requests_total t, tr_request_bytes t, tr_response_bytes t))"

definition add_totals :: "TrafficMetrics \<Rightarrow> int \<times> int \<times> int \<Rightarrow> int \<times> int \<times> int" where
  "add_totals d = (\<lambda>(n, p, q). (n + uint (tm_RequestsTotal d), p + uint (tm_RequestBytes d), q + uint (tm_ResponseBytes d)))"

definition fits :: "int \<times> int \<times> int \<Rightarrow> bool" where
  "fits = (\<lambda>(n, p, q). n \<le> maxBigint \<and> p \<le> maxBigint \<and> q \<le> maxBigint)"

lemma GetTotals_quiet: "quiet (env 0) \<Longrightarrow> canonical pg u \<Longrightarrow> GetTotals pg u env db = (Inr (totals db u), db)"
  by (simp add: GetTotals_def exec_quiet select_totals_def with_defs canonical_def totals_def split: option.split)

lemma find_update_rows:
  assumes "\<And>t. key (f t) = key t"
  shows "find (\<lambda>t. key t = u) (update_rows (\<lambda>t. key t = v) f rows)
    = (if u = v then map_option f (find (\<lambda>t. key t = u) rows) else find (\<lambda>t. key t = u) rows)"
  by (induction rows) (auto simp: update_rows_def assms)

lemma find_append_one:
  "find P (xs @ [y]) = (case find P xs of Some x \<Rightarrow> Some x | None \<Rightarrow> if P y then Some y else None)"
  by (induction xs) auto

lemma add_delta_others:
  assumes "add_delta pg v n p q now uuid db = Inr (r, db')" "canonical pg v"
  shows "db_users db' = db_users db" and "u \<noteq> v \<Longrightarrow> totals db' u = totals db u"
  using assms
  by (auto simp: add_delta_def with_defs canonical_def totals_def find_append_one find_update_rows
      split: if_splits option.splits)

text \<open>A user's totals are in range in a well-formed database.\<close>

lemma totals_range:
  assumes "db_ok db" "totals db u = (n, p, q)"
  shows "0 \<le> n \<and> 0 \<le> p \<and> 0 \<le> q"
proof (cases "find (\<lambda>t. tr_user_id t = u) (db_traffic db)")
  case (Some t)
  then have "t \<in> set (db_traffic db)" by (auto simp: find_Some_iff)
  with assms(1) have "0 \<le> tr_requests_total t" "0 \<le> tr_request_bytes t" "0 \<le> tr_response_bytes t"
    by (auto simp: db_ok_def traffic_ok_def list_all_iff)
  with assms(2) Some show ?thesis by (auto simp: totals_def)
qed (use assms(2) in \<open>simp add: totals_def\<close>)

lemma bigint_sum: "0 \<le> n \<Longrightarrow> 0 \<le> x \<Longrightarrow> n + x \<le> maxBigint \<Longrightarrow> bigint x \<and> bigint (n + x)"
  unfolding bigint_def maxBigint_def by linarith

lemma AddDelta_own:
  assumes "quiet env" "canonical pg u" "db_ok db" "u \<in> u_id ` set (db_users db)" "fits (add_totals d (totals db u))"
  shows "\<exists>db'. AddDelta pg u d env db = (None, db') \<and> totals db' u = add_totals d (totals db u)"
proof -
  obtain n p q where t: "totals db u = (n, p, q)" by (cases "totals db u")
  have d: "bigint (uint (tm_RequestsTotal d))" "bigint (uint (tm_RequestBytes d))" "bigint (uint (tm_ResponseBytes d))"
    "bigint (n + uint (tm_RequestsTotal d))" "bigint (p + uint (tm_RequestBytes d))" "bigint (q + uint (tm_ResponseBytes d))"
    using bigint_sum [of n "uint (tm_RequestsTotal d)"] bigint_sum [of p "uint (tm_RequestBytes d)"]
      bigint_sum [of q "uint (tm_ResponseBytes d)"] assms(5) totals_range [OF assms(3) t]
    by (simp_all add: t add_totals_def fits_def)
  show ?thesis
    using t assms(2,4) d
    by (auto simp: AddDelta_def exec_quiet [OF assms(1)] add_delta_def with_defs canonical_def totals_def add_totals_def
        find_append_one find_update_rows split: option.splits)
qed

lemma AddDelta_others:
  assumes "quiet env" "canonical pg v" "AddDelta pg v d env db = (err, db')"
  shows "db_users db' = db_users db" "u \<noteq> v \<Longrightarrow> totals db' u = totals db u"
  using assms add_delta_others [OF _ assms(2), where db = db]
  by (auto simp: AddDelta_def exec_quiet [OF assms(1)] split: sum.splits prod.splits)

lemma AddDelta_ok: "quiet env \<Longrightarrow> db_inv pg db \<Longrightarrow> canonical pg (se_uuid env) \<Longrightarrow> db_inv pg (snd (AddDelta pg v d env db))"
  using AddDelta_steps quiet_env_ok db_steps_inv by blast

text \<open>One pass over the deltas, for a user with one entry or none.\<close>

lemma flush_users_totals:
  assumes "distinct (map fst ds)" "list_all (canonical pg) (map fst ds)" "\<forall>n. quiet (env n) \<and> canonical pg (se_uuid (env n))"
    and "db_inv pg db" "u \<in> u_id ` set (db_users db)" "flush_users pg ds env db = (logged, db')"
    and "\<forall>d. (u, d) \<in> set ds \<longrightarrow> fits (add_totals d (totals db u))"
  shows "totals db' u = (case map_of ds u of None \<Rightarrow> totals db u | Some d \<Rightarrow> add_totals d (totals db u)) \<and> u \<notin> fst ` set logged"
  using assms
proof (induction ds arbitrary: env db logged)
  case (Cons vd ds)
  obtain v d where vd: "vd = (v, d)" by (cases vd)
  obtain err db1 where add: "AddDelta pg v d (env 0) db = (err, db1)" by fastforce
  obtain logged1 where rest: "flush_users pg ds (later 1 env) db1 = (logged1, db')"
    and logged: "logged = (case err of None \<Rightarrow> logged1 | Some e \<Rightarrow> (v, e) # logged1)"
    using Cons.prems(6) by (auto simp: vd add split: prod.splits)
  have q: "quiet (env 0)" and v: "canonical pg v" using Cons.prems(2,3) by (auto simp: vd)
  have inv: "db_inv pg db1"
    using AddDelta_ok [OF q Cons.prems(4), of v d] Cons.prems(3) add by simp
  have users: "db_users db1 = db_users db" by (rule AddDelta_others(1) [OF q v add])
  have env: "\<forall>n. quiet (later 1 env n) \<and> canonical pg (se_uuid (later 1 env n))"
    using Cons.prems(3) by (simp add: later_def)
  note IH = Cons.IH [OF _ _ env inv _ rest]
  show ?case
  proof (cases "u = v")
    case True
    have none: "map_of ds u = None" "\<forall>d. (u, d) \<notin> set ds"
      using Cons.prems(1) True by (force simp: vd map_of_eq_None_iff image_iff)+
    obtain db2 where "AddDelta pg u d (env 0) db = (None, db2)" "totals db2 u = add_totals d (totals db u)"
      using AddDelta_own [OF q, of pg u db d] v True Cons.prems(4,5,7) by (auto simp: vd db_inv_def)
    with add True have own: "err = None" "totals db1 u = add_totals d (totals db u)" by simp_all
    show ?thesis
      using IH Cons.prems(1,2,5) none own True users logged by (simp add: vd)
  next
    case False
    have same: "totals db1 u = totals db u" by (rule AddDelta_others(2) [OF q v add False])
    show ?thesis
      using IH Cons.prems(1,2,5,7) same False users logged by (auto simp: vd split: option.splits)
  qed
qed auto

text \<open>
  C26: a flush loses and invents nothing. When its statements run without failures, every user who
  has an entry in the registry gets exactly the requests and bytes collected there added to the
  totals the traffic API reports, everyone else's totals stay as they are, and nothing stays
  behind in the registry; whatever the order in which the map is ranged over. The sums fit the
  columns of the table.
\<close>

theorem flush_adds_exactly_what_was_recorded:
  assumes "\<And>m. mset (ord m) = mset m" "distinct (map fst (reg_perUser registry))"
    and "list_all (canonical pg) (map fst (reg_perUser registry))" "\<forall>n. quiet (env n) \<and> canonical pg (se_uuid (env n))"
    and "db_inv pg db" "u \<in> u_id ` set (db_users db)" "quiet (env1 0)"
    and "flushTraffic pg ord env (registry, db) = (logged, registry', db')"
    and "fits (add_totals (user_delta (reg_perUser registry) u) (totals db u))"
  shows "fst (GetTotals pg u env1 db') = Inr (add_totals (user_delta (reg_perUser registry) u) (totals db u))
    \<and> u \<notin> fst ` set logged \<and> reg_perUser registry' = []"
proof -
  let ?ds = "ord (reg_perUser registry)"
  have perm: "mset ?ds = mset (reg_perUser registry)" by (rule assms(1))
  have run: "flush_users pg ?ds env db = (logged, db')" "reg_perUser registry' = []"
    using assms(8) by (auto simp: flushTraffic_def registry_DrainUserDeltas_def Let_def split: prod.splits)
  have dist: "distinct (map fst ?ds)"
    using assms(2) mset_eq_imp_distinct_iff [of "map fst ?ds" "map fst (reg_perUser registry)"] perm by simp
  have sets: "set ?ds = set (reg_perUser registry)" using perm by (rule mset_eq_setD)
  have map: "map_of ?ds u = map_of (reg_perUser registry) u"
    using map_of_inject_set [OF dist assms(2)] sets by simp
  have entry: "(u, d) \<in> set ?ds \<Longrightarrow> d = user_delta (reg_perUser registry) u" for d
    using map_of_is_SomeI [OF dist] map by (auto simp: user_delta_def split: option.splits)
  have u: "canonical pg u" using assms(5,6) by (auto simp: db_inv_def ids_ok_def list_all_iff)
  have "list_all (canonical pg) (map fst ?ds)"
    using assms(3) sets by (simp add: list_all_iff)
  from flush_users_totals [OF dist this assms(4-6) run(1)] entry assms(9)
  have "totals db' u = (case map_of ?ds u of None \<Rightarrow> totals db u | Some d \<Rightarrow> add_totals d (totals db u))" "u \<notin> fst ` set logged"
    by auto
  moreover have "add_totals zero_metrics t = t" for t
    by (simp add: add_totals_def zero_metrics_def split: prod.split)
  ultimately show ?thesis
    using GetTotals_quiet [where env = env1, OF assms(7) u] run(2) map by (auto simp: user_delta_def split: option.splits)
qed

definition counted_registry :: Registry where
  "counted_registry = NewRegistry\<lparr>reg_perUser := [(''a1'', \<lparr>tm_RequestsTotal = 2, tm_RequestBytes = 30, tm_ResponseBytes = 400\<rparr>)]\<rparr>"

definition counted_db :: database where
  "counted_db = (example_tables ''h'')\<lparr>db_traffic := [\<lparr>tr_user_id = ''a1'', tr_requests_total = 1, tr_request_bytes = 1,
     tr_response_bytes = 1, tr_updated_at = 0\<rparr>]\<rparr>"

lemma counted_totals:
  "add_totals (user_delta (reg_perUser counted_registry) ''a1'') (totals counted_db ''a1'') = (3, 31, 401)"
  by (simp add: add_totals_def user_delta_def counted_registry_def totals_def counted_db_def)

theorem flush_adds_exactly_what_was_recorded_witness:
  "\<exists>registry' db'. flushTraffic example_pg rev (\<lambda>_. quiet_at 40) (counted_registry, counted_db) = ([], registry', db')
     \<and> fst (GetTotals example_pg ''a1'' (\<lambda>_. quiet_at 50) db') = Inr (3, 31, 401) \<and> reg_perUser registry' = []"
proof -
  obtain logged registry' db' where run: "flushTraffic example_pg rev (\<lambda>_. quiet_at 40) (counted_registry, counted_db)
      = (logged, registry', db')" by (rule prod_cases3)
  have inv: "db_inv example_pg counted_db"
    using example_tables_inv [of "''h''"]
    by (simp add: db_inv_def ids_ok_def db_ok_def counted_db_def traffic_ok_def maxBigint_def example_tables_defs)
  have "fst (GetTotals example_pg ''a1'' (\<lambda>_. quiet_at 50) db')
      = Inr (add_totals (user_delta (reg_perUser counted_registry) ''a1'') (totals counted_db ''a1''))
    \<and> ''a1'' \<notin> fst ` set logged \<and> reg_perUser registry' = []"
    by (rule flush_adds_exactly_what_was_recorded [OF _ _ _ _ inv _ _ run])
      (simp_all add: counted_totals fits_def maxBigint_def, simp_all add: counted_registry_def counted_db_def
        example_tables_defs quiet_def canonical_def)
  moreover have "logged = []"
    using run by (simp add: flushTraffic_def registry_DrainUserDeltas_def counted_registry_def counted_db_def AddDelta_def exec_def
        add_delta_def with_defs bigint_def maxBigint_def example_tables_defs)
  ultimately show ?thesis using run by (simp add: counted_totals)
qed

end
