(* ===== verification/Server_Process.thy ===== *)
theory Server_Process
  imports Main_Server
begin

text \<open>
  The process of \<^verbatim>\<open>backend/cmd/server/main.go\<close>: \<open>main\<close>, and the three goroutines of \<open>run\<close> once the
  handlers are built. The first writes the recorded traffic on every tick and once more when the
  context is done; the second is the listener; the third is \<open>run\<close> itself, which waits for the
  listener to end or for a signal and then shuts down in order. The requests and connections the
  listener has started go on beside them, as activities of \<open>Main_Server\<close>.
\<close>

section \<open>The state\<close>

record http_Server =
  hsv_Addr :: string
  hsv_ReadHeaderTimeout :: int
  hsv_IdleTimeout :: int

definition httpServer :: "Config.Config \<Rightarrow> http_Server" where
  "httpServer cfg = \<lparr>hsv_Addr = cfg_HTTPAddr cfg, hsv_ReadHeaderTimeout = 10 * Second, hsv_IdleTimeout = 60 * Second\<rparr>"

text \<open>What \<open>ListenAndServe\<close> returned: \<open>ErrServerClosed\<close> or another error.\<close>

datatype listen_end = ErrServerClosed | ListenError string

text \<open>
  Where \<open>run\<close> is: at its select; waiting for the flusher; past \<open>CloseAll\<close>, in \<open>Shutdown\<close>; returned.
\<close>

datatype run_phase = Selecting | Draining | ShuttingDown | HasReturned "run_error option"

record process =
  pr_app :: app
  pr_signalled :: bool
  pr_flushing :: bool
  pr_errCh :: "listen_end option"
  pr_phase :: run_phase

definition new_process :: "database \<Rightarrow> process" where
  "new_process db = \<lparr>pr_app = new_app db, pr_signalled = False, pr_flushing = True, pr_errCh = None, pr_phase = Selecting\<rparr>"

definition is_returned :: "run_phase \<Rightarrow> bool" where
  "is_returned phase \<longleftrightarrow> (case phase of HasReturned e \<Rightarrow> True | _ \<Rightarrow> False)"

fun flushes :: "activity \<Rightarrow> bool" where
  "flushes (Flush ord env) \<longleftrightarrow> True"
| "flushes _ \<longleftrightarrow> False"

section \<open>The steps\<close>

text \<open>When several cases of a select are ready, any of them may be taken.\<close>

inductive process_step :: "Config.Config \<Rightarrow> postgres \<Rightarrow> process \<Rightarrow> process \<Rightarrow> bool" for cfg pg where
  Works: "\<not> is_returned (pr_phase p) \<Longrightarrow> \<not> flushes a \<Longrightarrow> activity_ok pg a \<Longrightarrow>
    process_step cfg pg p (p\<lparr>pr_app := app_step cfg pg a (pr_app p)\<rparr>)"
| Signal: "process_step cfg pg p (p\<lparr>pr_signalled := True\<rparr>)"
| FlusherTicks: "\<not> is_returned (pr_phase p) \<Longrightarrow> pr_flushing p \<Longrightarrow> calls_ok pg env \<Longrightarrow>
    process_step cfg pg p (p\<lparr>pr_app := app_flush pg ord env (pr_app p)\<rparr>)"
| FlusherStops: "\<not> is_returned (pr_phase p) \<Longrightarrow> pr_flushing p \<Longrightarrow> pr_signalled p \<Longrightarrow> calls_ok pg env \<Longrightarrow>
    process_step cfg pg p (p\<lparr>pr_app := app_flush pg ord env (pr_app p), pr_flushing := False\<rparr>)"
| ListenerEnds: "\<not> is_returned (pr_phase p) \<Longrightarrow> pr_errCh p = None \<Longrightarrow>
    (e = ErrServerClosed \<longrightarrow> pr_phase p = ShuttingDown) \<Longrightarrow> process_step cfg pg p (p\<lparr>pr_errCh := Some e\<rparr>)"
| RunListenFailed: "pr_phase p = Selecting \<Longrightarrow> pr_errCh p = Some e \<Longrightarrow>
    process_step cfg pg p (p\<lparr>pr_phase := HasReturned (case e of ErrServerClosed \<Rightarrow> None | ListenError m \<Rightarrow> Some (StoppedUnexpectedly m))\<rparr>)"
| RunSignalled: "pr_phase p = Selecting \<Longrightarrow> pr_signalled p \<Longrightarrow> process_step cfg pg p (p\<lparr>pr_phase := Draining\<rparr>)"
| RunDrained: "pr_phase p = Draining \<Longrightarrow> \<not> pr_flushing p \<Longrightarrow>
    process_step cfg pg p (p\<lparr>pr_app := (pr_app p)\<lparr>app_gateway := CloseAll (app_gateway (pr_app p))\<rparr>, pr_phase := ShuttingDown\<rparr>)"
| RunShutdown: "pr_phase p = ShuttingDown \<Longrightarrow>
    process_step cfg pg p (p\<lparr>pr_phase := HasReturned (map_option ShutdownFailed e)\<rparr>)"

abbreviation process_steps :: "Config.Config \<Rightarrow> postgres \<Rightarrow> process \<Rightarrow> process \<Rightarrow> bool" where
  "process_steps cfg pg \<equiv> (process_step cfg pg)\<^sup>*\<^sup>*"

text \<open>
  The exit code of \<open>main\<close>: \<open>start\<close> is what \<open>run\<close> returned before there was a process, if it did,
  and \<open>finished\<close> what it returned in the end.
\<close>

definition server_main ::
    "(string \<Rightarrow> int option) \<Rightarrow> (string \<Rightarrow> string) \<Rightarrow> (string \<Rightarrow> string) \<Rightarrow> (Config.Config \<Rightarrow> run_error option)
      \<Rightarrow> run_error option \<Rightarrow> int" where
  "server_main parseDuration upper getenv start finished =
     (case Load parseDuration upper getenv of
        Inl e \<Rightarrow> 1
      | Inr cfg \<Rightarrow> (case start cfg of Some e \<Rightarrow> 1 | None \<Rightarrow> (case finished of Some e \<Rightarrow> 1 | None \<Rightarrow> 0)))"

section \<open>The order of the shutdown\<close>

definition process_inv :: "postgres \<Rightarrow> process \<Rightarrow> bool" where
  "process_inv pg p \<longleftrightarrow> db_inv pg (app_db (pr_app p))
     \<and> (\<not> pr_flushing p \<longrightarrow> pr_signalled p) \<and> (pr_phase p = Draining \<longrightarrow> pr_signalled p)
     \<and> (pr_phase p = ShuttingDown \<longrightarrow> pr_signalled p \<and> \<not> pr_flushing p)
     \<and> (pr_phase p = Selecting \<or> pr_phase p = Draining \<longrightarrow> pr_errCh p \<noteq> Some ErrServerClosed)
     \<and> (\<forall>e. pr_phase p = HasReturned e \<longrightarrow> (pr_signalled p \<and> \<not> pr_flushing p \<and> (e = None \<or> (\<exists>m. e = Some (ShutdownFailed m))))
          \<or> (\<exists>m. e = Some (StoppedUnexpectedly m)))"

lemma app_flush_db: "app_db (app_flush pg ord env s) = app_db (app_step cfg pg (Flush ord env) s)"
  by simp

lemma process_inv_step: "process_step cfg pg p p' \<Longrightarrow> process_inv pg p \<Longrightarrow> process_inv pg p'"
proof (induction rule: process_step.induct)
  case (Works p a)
  then show ?case
    using db_steps_inv [OF app_step_steps [of pg a "pr_app p" cfg]] by (simp add: process_inv_def)
next
  case (FlusherTicks p env ord)
  then show ?case
    using db_steps_inv [OF app_step_steps [of pg "Flush ord env" "pr_app p" cfg]] by (simp add: process_inv_def)
next
  case (FlusherStops p env ord)
  then show ?case
    using db_steps_inv [OF app_step_steps [of pg "Flush ord env" "pr_app p" cfg]] by (auto simp: process_inv_def)
qed (auto simp: process_inv_def is_returned_def split: listen_end.splits)

lemma process_inv_new: "db_inv pg db \<Longrightarrow> process_inv pg (new_process db)"
  by (simp add: process_inv_def new_process_def new_app_def)

lemma process_inv_reached:
  assumes "process_steps cfg pg (new_process db) p" "db_inv pg db"
  shows "process_inv pg p"
  using assms(1)
proof (induction rule: rtranclp_induct)
  case base
  show ?case by (rule process_inv_new [OF assms(2)])
next
  case (step p p')
  show ?case by (rule process_inv_step [OF step(2,3)])
qed

section \<open>The shutdown completes\<close>

lemma app_flush_fields:
  "app_gateway (app_flush pg ord env s) = app_gateway s" "reg_perUser (app_registry (app_flush pg ord env s)) = []"
  by (simp_all add: app_flush_def flushTraffic_def registry_DrainUserDeltas_def Let_def case_prod_unfold)

definition all_cancelled :: "gateway_state \<Rightarrow> gateway_state \<Rightarrow> bool" where
  "all_cancelled g g' \<longleftrightarrow> (\<forall>(i, session) \<in> set (gs_sessions g). pred_option (\<lambda>c. c \<in> set (gs_cancelled g')) (ses_Cancel session))"

lemma CloseAll_cancels: "all_cancelled g (CloseAll g)"
  by (force simp: all_cancelled_def CloseAll_def fold_call_cancel map_filter_def pred_option_def image_iff)

definition shuts_down :: "Config.Config \<Rightarrow> postgres \<Rightarrow> process \<Rightarrow> bool" where
  "shuts_down cfg pg p \<longleftrightarrow> (\<exists>p'. process_steps cfg pg p p' \<and> pr_phase p' = HasReturned None \<and> \<not> pr_flushing p'
     \<and> (pr_flushing p \<longrightarrow> reg_perUser (app_registry (pr_app p')) = [])
     \<and> (pr_phase p \<noteq> ShuttingDown \<longrightarrow> all_cancelled (app_gateway (pr_app p)) (app_gateway (pr_app p'))))"

lemma shuts_down_from_ShuttingDown:
  "pr_phase p = ShuttingDown \<Longrightarrow> \<not> pr_flushing p \<Longrightarrow> shuts_down cfg pg p"
  unfolding shuts_down_def
  by (rule exI [of _ "p\<lparr>pr_phase := HasReturned None\<rparr>"])
    (use process_step.RunShutdown [of p cfg pg None] in auto)

lemma shuts_down_drained:
  assumes "pr_phase p = Draining" "\<not> pr_flushing p"
  shows "\<exists>p'. process_steps cfg pg p p' \<and> pr_phase p' = HasReturned None \<and> \<not> pr_flushing p'
    \<and> app_registry (pr_app p') = app_registry (pr_app p) \<and> all_cancelled (app_gateway (pr_app p)) (app_gateway (pr_app p'))"
proof -
  let ?p = "p\<lparr>pr_app := (pr_app p)\<lparr>app_gateway := CloseAll (app_gateway (pr_app p))\<rparr>, pr_phase := ShuttingDown\<rparr>"
  let ?q = "?p\<lparr>pr_phase := HasReturned None\<rparr>"
  have closed: "process_step cfg pg p ?p" by (rule process_step.RunDrained [OF assms])
  have "process_step cfg pg ?p (?p\<lparr>pr_phase := HasReturned (map_option ShutdownFailed None)\<rparr>)"
    by (rule process_step.RunShutdown) simp
  then have "process_step cfg pg ?p ?q" by (simp only: option.map)
  then have "process_steps cfg pg p ?q"
    by (intro converse_rtranclp_into_rtranclp [where r = "process_step cfg pg", OF closed] r_into_rtranclp [where r = "process_step cfg pg"])
  moreover have "pr_phase ?q = HasReturned None" "\<not> pr_flushing ?q" "app_registry (pr_app ?q) = app_registry (pr_app p)"
    "all_cancelled (app_gateway (pr_app p)) (app_gateway (pr_app ?q))"
    by (simp_all add: assms CloseAll_cancels)
  ultimately show ?thesis by blast
qed

lemma shuts_down_from_Draining:
  assumes "pr_phase p = Draining" "pr_signalled p" "calls_ok pg env"
  shows "shuts_down cfg pg p"
proof (cases "pr_flushing p")
  case True
  let ?p = "p\<lparr>pr_app := app_flush pg (\<lambda>m. m) env (pr_app p), pr_flushing := False\<rparr>"
  have step: "process_step cfg pg p ?p"
    using process_step.FlusherStops [of p pg env cfg "\<lambda>m. m"] assms True by (simp add: is_returned_def)
  obtain p' where "process_steps cfg pg ?p p'" "pr_phase p' = HasReturned None" "\<not> pr_flushing p'"
    "app_registry (pr_app p') = app_registry (pr_app ?p)" "all_cancelled (app_gateway (pr_app ?p)) (app_gateway (pr_app p'))"
    using shuts_down_drained [of ?p cfg pg] assms(1) by auto
  with converse_rtranclp_into_rtranclp [where r = "process_step cfg pg", OF step] show ?thesis
    unfolding shuts_down_def by (intro exI [of _ p']) (simp add: app_flush_fields)
next
  case False
  then show ?thesis
    using shuts_down_drained [OF assms(1) False, of cfg pg] by (auto simp: shuts_down_def)
qed

lemma shuts_down_from_Selecting:
  assumes "pr_phase p = Selecting" "pr_signalled p" "calls_ok pg env"
  shows "shuts_down cfg pg p"
proof -
  let ?p = "p\<lparr>pr_phase := Draining\<rparr>"
  have step: "process_step cfg pg p ?p" by (rule process_step.RunSignalled [OF assms(1,2)])
  have "shuts_down cfg pg ?p"
    by (rule shuts_down_from_Draining [OF _ _ assms(3)]) (simp_all add: assms)
  then obtain p' where "process_steps cfg pg ?p p'" "pr_phase p' = HasReturned None" "\<not> pr_flushing p'"
    "pr_flushing p \<longrightarrow> reg_perUser (app_registry (pr_app p')) = []" "all_cancelled (app_gateway (pr_app p)) (app_gateway (pr_app p'))"
    by (auto simp: shuts_down_def)
  with converse_rtranclp_into_rtranclp [where r = "process_step cfg pg", OF step] show ?thesis
    unfolding shuts_down_def by (intro exI [of _ p']) simp
qed



end
