(* ===== verification/Gateway_System.thy ===== *)
theory Gateway_System
  imports Tunnel_Lifecycle
begin

text \<open>
  The server with all its agent connections. Every connection is a goroutine of its own: it
  registers its session, turns the loop of \<^verbatim>\<open>agent_connect.go\<close>, and leaves through the deferred
  function. The steps of the connections interleave with one another, with requests, with calls
  of the public handler on the session manager and with the flushing of traffic; all of them share
  the session manager, the routing table and the database. \<open>system_step\<close> is this interleaving, made
  of the definitions of \<open>Agent_Connect\<close> and \<open>Main_Server\<close>; its invariants relate the three shared
  structures to one another.
\<close>

section \<open>The state\<close>

text \<open>
  Where a connection is: between \<open>agents_Connect\<close> and \<open>session_Register\<close>; in the loop, with its
  unfinished responses; out of the loop, with its session still registered; or past \<open>Remove\<close>, with
  the services it still has to call.
\<close>

datatype conn_phase = Enrols | Serves response_table | Stops | Leaves "conn_effect list"

record connection =
  cn_agent :: string
  cn_tokenHash :: string
  cn_cancel :: nat
  cn_phase :: conn_phase

record system =
  sys_app :: app
  sys_conns :: "(string, connection) gomap"

definition new_system :: "database \<Rightarrow> system" where
  "new_system db = \<lparr>sys_app = new_app db, sys_conns = []\<rparr>"

text \<open>The handler \<open>main.go\<close> builds has a service for agents and a cleanup function.\<close>

definition main_connect :: connect_handler where
  "main_connect = \<lparr>ch_agents = True, ch_cleanup = True\<rparr>"

section \<open>One turn of a connection\<close>

text \<open>What the outside contributes to a turn: the clock, the socket, the generated subdomain, the database.\<close>

record turn_env =
  te_now :: int
  te_writeOk :: bool
  te_generated :: "string + string"
  te_open :: call_env
  te_effect :: step_env

definition turn_input :: "Config.Config \<Rightarrow> postgres \<Rightarrow> turn_env \<Rightarrow> app \<Rightarrow> serve_input" where
  "turn_input cfg pg tenv s = \<lparr>si_now = te_now tenv, si_writeOk = te_writeOk tenv,
     si_openTunnel = Some (\<lambda>sessionID agentID address.
       case fst (openTunnel pg (te_generated tenv) (cfg_PublicBaseDomain cfg) sessionID agentID address (te_open tenv)
                   (app_db s, app_registry s)) of
         Inl e \<Rightarrow> None
       | Inr p \<Rightarrow> Some p)\<rparr>"

text \<open>The agent and the address with which a turn calls \<open>openTunnel\<close>, if it does.\<close>

fun asked_tunnel :: "string \<Rightarrow> gateway_state \<Rightarrow> response_table \<Rightarrow> serve_event \<Rightarrow> (string \<times> string) option" where
  "asked_tunnel sessionID g responses (SE_Inbound messageType data) =
     (case gateway_receive responses (messageType, data) of
        Inr (_, [OpenFor payload]) \<Rightarrow>
          (case session_AgentID sessionID g of
             (agentID, True) \<Rightarrow> Some (agentID, otp_LocalAddress payload)
           | _ \<Rightarrow> None)
      | _ \<Rightarrow> None)"
| "asked_tunnel sessionID g responses _ = None"

definition agent_turn ::
    "Config.Config \<Rightarrow> postgres \<Rightarrow> turn_env \<Rightarrow> string \<Rightarrow> serve_event \<Rightarrow> response_table \<Rightarrow> app \<Rightarrow> (serve_result \<times> app) option" where
  "agent_turn cfg pg tenv sessionID ev responses s =
     (case serve_step main_connect sessionID (turn_input cfg pg tenv s)
             \<lparr>ss_gateway = app_gateway s, ss_responses = responses\<rparr> ev of
        None \<Rightarrow> None
      | Some (result, effects) \<Rightarrow>
          let s1 = (case asked_tunnel sessionID (app_gateway s) responses ev of
                      None \<Rightarrow> s
                    | Some (agentID, address) \<Rightarrow>
                        app_step cfg pg (OpenTunnelFor (te_generated tenv) sessionID agentID address (te_open tenv)) s);
              s2 = fold (\<lambda>e. app_step cfg pg (ConnEffect [] (te_effect tenv) e)) effects s1
          in Some (result, s2\<lparr>app_gateway := result_state result\<rparr>))"

fun phase_after :: "serve_result \<Rightarrow> conn_phase" where
  "phase_after (Serving st) = Serves (ss_responses st)"
| "phase_after (Stopped ok g) = Stops"

section \<open>The steps\<close>

text \<open>What others do to the shared state: only a connection itself registers and removes its session.\<close>

fun enrols :: "sm_event \<Rightarrow> bool" where
  "enrols (Ev_Register now session) \<longleftrightarrow> True"
| "enrols (Ev_Remove i) \<longleftrightarrow> True"
| "enrols _ \<longleftrightarrow> False"

fun shared :: "activity \<Rightarrow> bool" where
  "shared (Request senv env r) \<longleftrightarrow> True"
| "shared (ConnectAgent rawToken hello env) \<longleftrightarrow> True"
| "shared (SessionCall e) \<longleftrightarrow> \<not> enrols e"
| "shared (Flush ord env) \<longleftrightarrow> True"
| "shared _ \<longleftrightarrow> False"

text \<open>
  A session id of 18 random bytes is taken not to be one of a connection that is still there. The
  handshake is two steps, since others run between the call of \<open>agents_Connect\<close> and the registration
  of the session; the second step is \<open>handshake\<close> with what the call returned. A handshake that fails
  has at most called \<open>agents_Connect\<close>, which is among the shared activities. A turn of the loop is one
  step: only the connection itself registers, touches and removes its session.
\<close>

inductive system_step :: "Config.Config \<Rightarrow> postgres \<Rightarrow> system \<Rightarrow> system \<Rightarrow> bool" for cfg pg where
  Connects: "newSessionID random = Some sessionID \<Longrightarrow> map_of conns sessionID = None \<Longrightarrow> calls_ok pg env \<Longrightarrow>
    fst (agents_Connect pg rawToken hello env (app_db s)) = Inr agentID \<Longrightarrow>
    system_step cfg pg \<lparr>sys_app = s, sys_conns = conns\<rparr>
      \<lparr>sys_app = app_step cfg pg (ConnectAgent rawToken hello env) s,
       sys_conns = map_put sessionID \<lparr>cn_agent = agentID, cn_tokenHash = hash_hex rawToken, cn_cancel = cancel,
         cn_phase = Enrols\<rparr> conns\<rparr>"
| Registers: "map_of conns sessionID = Some c \<Longrightarrow> cn_phase c = Enrols \<Longrightarrow> cn_tokenHash c = hash_hex rawToken \<Longrightarrow>
    hi_connect inp = (\<lambda>_ _. Some (cn_agent c)) \<Longrightarrow> hi_cancel inp = cn_cancel c \<Longrightarrow>
    handshake main_connect rawToken inp (app_gateway s) = Inr (sessionID, agentID, g) \<Longrightarrow>
    system_step cfg pg \<lparr>sys_app = s, sys_conns = conns\<rparr>
      \<lparr>sys_app = s\<lparr>app_gateway := g\<rparr>,
       sys_conns = map_put sessionID (c\<lparr>cn_phase := (if hi_writeOk inp then Serves [] else Stops)\<rparr>) conns\<rparr>"
| Turns: "map_of conns sessionID = Some c \<Longrightarrow> cn_phase c = Serves responses \<Longrightarrow>
    calls_ok pg (te_open tenv) \<Longrightarrow> env_ok pg (te_effect tenv) \<Longrightarrow>
    agent_turn cfg pg tenv sessionID ev responses s = Some (result, s') \<Longrightarrow>
    system_step cfg pg \<lparr>sys_app = s, sys_conns = conns\<rparr>
      \<lparr>sys_app = s', sys_conns = map_put sessionID (c\<lparr>cn_phase := phase_after result\<rparr>) conns\<rparr>"
| Ends: "map_of conns sessionID = Some c \<Longrightarrow> cn_phase c = Stops \<Longrightarrow>
    end_session main_connect sessionID (cn_agent c) (cn_cancel c) (app_gateway s) = Some (g, effects) \<Longrightarrow>
    system_step cfg pg \<lparr>sys_app = s, sys_conns = conns\<rparr>
      \<lparr>sys_app = s\<lparr>app_gateway := g\<rparr>, sys_conns = map_put sessionID (c\<lparr>cn_phase := Leaves effects\<rparr>) conns\<rparr>"
| Cleans: "map_of conns sessionID = Some c \<Longrightarrow> cn_phase c = Leaves (e # effects) \<Longrightarrow>
    env_ok pg env \<Longrightarrow> mset order = mset (reg_byID (app_registry s)) \<Longrightarrow>
    system_step cfg pg \<lparr>sys_app = s, sys_conns = conns\<rparr>
      \<lparr>sys_app = app_step cfg pg (ConnEffect order env e) s,
       sys_conns = map_put sessionID (c\<lparr>cn_phase := Leaves effects\<rparr>) conns\<rparr>"
| Returns: "map_of conns sessionID = Some c \<Longrightarrow> cn_phase c = Leaves [] \<Longrightarrow>
    system_step cfg pg \<lparr>sys_app = s, sys_conns = conns\<rparr> \<lparr>sys_app = s, sys_conns = map_del sessionID conns\<rparr>"
| Elsewhere: "shared a \<Longrightarrow> activity_ok pg a \<Longrightarrow>
    system_step cfg pg \<lparr>sys_app = s, sys_conns = conns\<rparr> \<lparr>sys_app = app_step cfg pg a s, sys_conns = conns\<rparr>"

abbreviation system_steps :: "Config.Config \<Rightarrow> postgres \<Rightarrow> system \<Rightarrow> system \<Rightarrow> bool" where
  "system_steps cfg pg \<equiv> (system_step cfg pg)\<^sup>*\<^sup>*"

section \<open>The sessions of the manager\<close>

text \<open>What a session is registered with: its agent, the hash of its token and its cancel function.\<close>

definition session_identity :: "gateway_state \<Rightarrow> string \<Rightarrow> (string \<times> string \<times> nat option) option" where
  "session_identity g i = map_option (\<lambda>session. (ses_AgentID session, ses_AgentTokenHash session, ses_Cancel session))
     (map_of (gs_sessions g) i)"

lemma session_identity_same: "gs_sessions g' = gs_sessions g \<Longrightarrow> session_identity g' = session_identity g"
  by (simp add: session_identity_def fun_eq_iff)

lemma session_identity_AgentID: "session_AgentID i g = (a, True) \<longleftrightarrow> (\<exists>h c. session_identity g i = Some (a, h, c))"
  by (auto simp: session_AgentID_def session_identity_def split: option.splits)

lemma session_identity_Touch: "session_identity (snd (session_Touch now i g)) = session_identity g"
  by (auto simp: session_Touch_def session_identity_def fun_eq_iff split: option.splits)

lemma fold_cancel_sessions: "gs_sessions (fold call_cancel cs g) = gs_sessions g"
  by (induction cs arbitrary: g) (simp_all add: call_cancel_def)

lemma queue_message_sessions: "queue_message c m g = Some g' \<Longrightarrow> gs_sessions g' = gs_sessions g"
  by (auto simp: queue_message_def split: option.splits if_splits)

lemma session_Send_sessions:
  "gs_sessions (snd (session_Send i m g)) = gs_sessions g" "gs_sessions (snd (session_SendBinary i m g)) = gs_sessions g"
  by (auto simp: session_Send_def session_SendBinary_def dest: queue_message_sessions split: option.splits)

lemma response_send_sessions: "response_send g p = Some g' \<Longrightarrow> gs_manager g' = gs_manager g"
  by (auto simp: response_send_def split: option.splits prod.splits if_splits)

lemma sm_step_identity:
  assumes "sm_step g e = Some g'" "\<not> enrols e"
  shows "session_identity g' = session_identity g"
  using assms
proof (cases e)
  case (Ev_Touch now i)
  with assms show ?thesis by (auto simp: session_identity_Touch)
next
  case (Ev_SendResponse ch r)
  with assms have "gs_manager g' = gs_manager g" by (auto dest: response_send_sessions split: if_splits)
  then show ?thesis by (simp add: session_identity_def fun_eq_iff)
next
  case (Ev_SendContext c m)
  with assms have "gs_sessions g' = gs_sessions g" by (auto dest: queue_message_sessions split: if_splits)
  then show ?thesis by (rule session_identity_same)
qed (auto intro!: session_identity_same split: if_splits
    simp: make_outbound_def RegisterRequest_def session_CancelRequest_def deliver_lock_def Let_def session_Send_sessions
      CloseAll_def DisconnectTokenHash_def fold_cancel_sessions call_cancel_def split: option.splits)

lemma DeliverResponse_identity: "DeliverResponse i r g = Some (ok, g') \<Longrightarrow> session_identity g' = session_identity g"
proof -
  have "gs_sessions g' = gs_sessions g" if "DeliverResponse i r g = Some (ok, g')"
    using that by (auto dest!: response_send_sessions simp: DeliverResponse_def deliver_lock_def split: option.splits prod.splits)
  then show "DeliverResponse i r g = Some (ok, g') \<Longrightarrow> session_identity g' = session_identity g"
    by (rule session_identity_same)
qed

lemma session_Send_identity: "session_Send i m g = (ok, g') \<Longrightarrow> session_identity g' = session_identity g"
  using session_identity_same [OF session_Send_sessions(1) [of i m g]] by simp

lemma perform_identity:
  assumes "perform h i inp g e = Some (ok, g', out)"
  shows "session_identity g' = session_identity g"
proof (cases e)
  case (Deliver requestID response)
  with assms show ?thesis by (auto dest: DeliverResponse_identity)
next
  case (OpenFor payload)
  with assms show ?thesis by (auto dest: session_Send_identity split: option.splits prod.splits bool.splits)
next
  case Alive
  with assms show ?thesis by (auto simp: session_identity_Touch Let_def)
next
  case AnswerPing
  with assms show ?thesis by (auto simp: session_identity_Touch Let_def split: if_splits)
qed

lemma perform_all_identity: "perform_all h i inp g es = Some (ok, g', out) \<Longrightarrow> session_identity g' = session_identity g"
proof (induction es arbitrary: g out)
  case (Cons e es)
  then obtain ok1 g1 out1 where one: "perform h i inp g e = Some (ok1, g1, out1)"
    by (auto split: option.splits)
  show ?case
  proof (cases ok1)
    case True
    then obtain out2 where "perform_all h i inp g1 es = Some (ok, g', out2)"
      using Cons.prems one by auto
    from Cons.IH [OF this] perform_identity [OF one] show ?thesis by simp
  next
    case False
    then show ?thesis using Cons.prems one perform_identity [OF one] by simp
  qed
qed simp

lemma serve_step_identity:
  assumes "serve_step h i inp st ev = Some (result, out)"
  shows "session_identity (result_state result) = session_identity (ss_gateway st)"
proof (cases ev)
  case SE_Outbound
  with assms have "gs_sessions (result_state result) = gs_sessions (ss_gateway st)"
    by (auto simp: Let_def split: option.splits if_splits)
  then show ?thesis by (rule session_identity_same)
next
  case (SE_Inbound messageType data)
  with assms show ?thesis
    by (auto dest: perform_all_identity split: sum.splits prod.splits gateway_failure.splits option.splits bool.splits)
qed (use assms in \<open>auto split: if_splits\<close>)

lemma session_Remove_identity:
  assumes "session_Remove i g = Some g'"
  shows "session_identity g' = (session_identity g)(i := None)"
proof -
  have run: "run_opt response_send t xs = Some t' \<Longrightarrow> gs_manager t' = gs_manager t" for t xs t'
    by (induction xs arbitrary: t) (auto dest: response_send_sessions split: option.splits)
  have "run_opt response_send (snd (remove_lock i g)) (map (\<lambda>ch. (ch, disconnected)) (fst (remove_lock i g))) = Some g'"
    using assms by (simp add: session_Remove_def case_prod_unfold Let_def)
  from run [OF this] show ?thesis
    by (auto simp: session_identity_def fun_eq_iff remove_lock_def Let_def split: option.splits)
qed

lemma end_session_identity:
  assumes "end_session h i a c g = Some (g', effects)"
  shows "session_identity g' = (session_identity g)(i := None)"
proof -
  have "session_Remove i (call_cancel c g) = Some g'"
    using assms by (auto simp: end_session_def)
  moreover have "session_identity (call_cancel c g) = session_identity g"
    by (rule session_identity_same) (simp add: call_cancel_def)
  ultimately show ?thesis by (simp add: session_Remove_identity)
qed

lemma handshake_identity:
  assumes "handshake h rawToken inp g = Inr (i, a, g')"
  shows "session_identity g' = (session_identity g)(i \<mapsto> (a, hash_hex rawToken, Some (hi_cancel inp)))"
  using assms
  by (auto simp: handshake_def make_outbound_def session_Register_def session_identity_def fun_eq_iff Let_def
      split: option.splits if_splits)

text \<open>A turn of the loop writes, closes the socket or touches the agent; nothing else.\<close>

lemma perform_effects:
  "perform h i inp g e = Some (ok, g', out) \<Longrightarrow> eff \<in> set out \<Longrightarrow> (\<exists>m. eff = WriteMessage m) \<or> (\<exists>a. eff = conn_effect.TouchAgent a)"
  by (cases e) (auto simp: Let_def touchAgent_def split: option.splits prod.splits bool.splits if_splits)

lemma perform_all_effects:
  "perform_all h i inp g es = Some (ok, g', out) \<Longrightarrow> eff \<in> set out \<Longrightarrow> (\<exists>m. eff = WriteMessage m) \<or> (\<exists>a. eff = conn_effect.TouchAgent a)"
proof (induction es arbitrary: g out)
  case (Cons e es)
  then obtain ok1 g1 out1 where one: "perform h i inp g e = Some (ok1, g1, out1)"
    by (auto split: option.splits)
  show ?case
  proof (cases ok1)
    case True
    then obtain out2 where "perform_all h i inp g1 es = Some (ok, g', out2)" "out = out1 @ out2"
      using Cons.prems(1) one by auto
    then show ?thesis using Cons.IH Cons.prems(2) perform_effects [OF one] by auto
  next
    case False
    then show ?thesis using Cons.prems one perform_effects [OF one] by auto
  qed
qed simp

fun closes_session :: "conn_effect \<Rightarrow> bool" where
  "closes_session (CleanupSession i a) \<longleftrightarrow> True"
| "closes_session _ \<longleftrightarrow> False"

lemma serve_step_effects:
  assumes "serve_step h i inp st ev = Some (result, out)" "eff \<in> set out"
  shows "\<not> closes_session eff"
proof (cases ev)
  case (SE_Inbound messageType data)
  with assms show ?thesis
    by (auto dest: perform_all_effects split: sum.splits prod.splits gateway_failure.splits option.splits bool.splits)
qed (use assms in \<open>auto simp: Let_def split: if_splits option.splits\<close>)

section \<open>What the shared activities leave alone\<close>

text \<open>
  Sessions and routes stay as they are. For requests this is one more instance of
  \<open>request_relation\<close>.
\<close>

definition same_routes :: "'a app_scheme \<Rightarrow> 'a app_scheme \<Rightarrow> bool" where
  "same_routes s s' \<longleftrightarrow> session_identity (app_gateway s') = session_identity (app_gateway s)
     \<and> registry_tunnels (app_registry s') = registry_tunnels (app_registry s)
     \<and> (registry_wf (app_registry s) \<longrightarrow> registry_wf (app_registry s'))
     \<and> (sm_inv (app_gateway s) \<longrightarrow> sm_inv (app_gateway s'))"

lemma same_routes_refl [simp]: "same_routes s s"
  by (simp add: same_routes_def)

lemma same_routes_trans: "same_routes s s' \<Longrightarrow> same_routes s' s'' \<Longrightarrow> same_routes s s''"
  by (simp add: same_routes_def)

lemma same_routes_updates [simp]:
  "same_routes s (s\<lparr>app_db := db\<rparr>)" "same_routes s (s\<lparr>app_authLimiter := l\<rparr>)" "same_routes s (s\<lparr>app_publicLimiter := l\<rparr>)"
  "same_routes s (s\<lparr>sv_metrics := m\<rparr>)" "same_routes s (s\<lparr>sv_log := lg\<rparr>)"
  by (simp_all add: same_routes_def)

lemma same_routes_gateway: "sm_step (app_gateway s) e = Some g \<Longrightarrow> \<not> enrols e \<Longrightarrow> same_routes s (s\<lparr>app_gateway := g\<rparr>)"
  by (auto simp: same_routes_def sm_step_identity intro: sm_inv_step)

lemma record_traffic_routes:
  "registry_tunnels (fold record_traffic actions r) = registry_tunnels r \<and> (registry_wf r \<longrightarrow> registry_wf (fold record_traffic actions r))"
proof (induction actions arbitrary: r)
  case (Cons a actions)
  have "registry_tunnels (record_traffic a r) = registry_tunnels r" "registry_wf r \<Longrightarrow> registry_wf (record_traffic a r)"
    by (cases a; simp add: registry_wf_traffic)+
  with Cons.IH [of "record_traffic a r"] show ?case by simp
qed simp

lemma tokens_ServeHTTP_gateway:
  "snd (snd (tokens_ServeHTTP env r w (db, g))) \<in> insert g (range (\<lambda>h. DisconnectTokenHash h g))"
proof -
  have revoke: "snd (snd (tokens_revoke env user r w (db, g))) \<in> insert g (range (\<lambda>h. DisconnectTokenHash h g))" for user db
    by (simp add: tokens_revoke_def Let_def split: prod.split sum.split option.split)
  show ?thesis
    using revoke unfolding tokens_ServeHTTP_def by (simp add: case_prod_unfold split: sum.split)
qed

lemma agentTokenHandler_routes: "same_routes s (snd (agentTokenHandler env r w s))"
proof -
  obtain out db g where served: "tokens_ServeHTTP env r w (app_db s, app_gateway s) = (out, db, g)"
    by (rule prod_cases3)
  have cancel: "same_routes s (s\<lparr>app_gateway := DisconnectTokenHash h (app_gateway s)\<rparr>)" for h
    by (rule same_routes_gateway [of _ "Ev_Disconnect h"]) simp_all
  have "g = app_gateway s \<or> (\<exists>h. g = DisconnectTokenHash h (app_gateway s))"
    using tokens_ServeHTTP_gateway [of env r w "app_db s" "app_gateway s"] served by auto
  then have "same_routes s (s\<lparr>app_gateway := g\<rparr>)"
    using cancel by auto
  then show ?thesis
    by (simp add: agentTokenHandler_def served same_routes_def)
qed

lemma main_route_routes: "same_routes s (snd (serve_route (main_handlers cfg env) rt r w s))"
proof (cases rt)
  case R_Tokens
  then show ?thesis by (simp add: serve_route_def main_handlers_def agentTokenHandler_routes)
next
  case R_TokensTree
  then show ?thesis by (simp add: serve_route_def main_handlers_def agentTokenHandler_routes)
qed (simp_all add: serve_route_def main_handlers_def metrics_ServeHTTP_def health_def readiness_def main_authHandler_def
    agentConnectHandler_def on_db_def publicHandler_def case_prod_unfold Let_def same_routes_def record_traffic_routes)

interpretation routes_request: request_relation same_routes "main_handlers cfg env" for cfg env
proof
  show "same_routes s (snd (hs_redirect (main_handlers cfg env) path r w s))" for path r w s
    by (simp add: main_handlers_def)
qed (auto simp: main_route_routes intro: same_routes_trans)

lemma shared_routes:
  assumes "shared a"
  shows "same_routes s (app_step cfg pg a s)"
proof (cases a)
  case (Request senv env r)
  then show ?thesis by (simp add: main_handler_def routes_request.R_request)
next
  case (SessionCall e)
  then show ?thesis
    using assms by (auto split: option.split intro: same_routes_gateway)
next
  case (Flush ord env)
  then show ?thesis
    by (simp add: app_flush_def flushTraffic_def Let_def case_prod_unfold same_routes_def registry_wf_traffic)
qed (use assms in auto)

section \<open>Who owns what\<close>

text \<open>The agent belongs to the user who owns the token with this hash.\<close>

definition vouched :: "database \<Rightarrow> string \<Rightarrow> string \<Rightarrow> bool" where
  "vouched db hash agentID \<longleftrightarrow> (\<exists>token \<in> set (db_agent_tokens db). \<exists>ag \<in> set (db_agents db).
     tk_hash token = hash \<and> ag_id ag = agentID \<and> ag_user_id ag = tk_user_id token)"

text \<open>The route has a row in the table of tunnels.\<close>

definition backed :: "database \<Rightarrow> ActiveTunnel \<Rightarrow> bool" where
  "backed db t \<longleftrightarrow> (\<exists>row \<in> set (db_tunnels db). tn_id row = at_ID t \<and> tn_subdomain row = at_Subdomain t
     \<and> tn_user_id row = at_UserID t \<and> tn_agent_id row = at_AgentID t)"

lemma vouched_facts:
  "vouched db hash a \<longleftrightarrow> (\<exists>ti u n e i. (ti, u, hash, n, e) \<in> token_facts db \<and> (a, u, i) \<in> agent_facts db)"
  unfolding vouched_def token_facts_def agent_facts_def image_iff by fastforce

lemma backed_facts:
  "backed db t \<longleftrightarrow> (\<exists>addr. (at_ID t, at_UserID t, at_AgentID t, at_Subdomain t, addr) \<in> tunnel_facts db)"
  unfolding backed_def tunnel_facts_def image_iff prod.inject by metis

lemma ownership_grows:
  assumes "db_steps pg db db'"
  shows "vouched db hash a \<Longrightarrow> vouched db' hash a" "backed db t \<Longrightarrow> backed db' t"
  using db_steps_facts [OF assms] unfolding vouched_facts backed_facts facts_grow_def by blast+

lemma backed_unique:
  assumes "db_inv pg db" "backed db t" "backed db t'"
  shows "at_ID t' = at_ID t \<longleftrightarrow> at_Subdomain t' = at_Subdomain t"
proof -
  have "distinct (map tn_id (db_tunnels db))" "distinct (map tn_subdomain (db_tunnels db))"
    using assms(1) by (simp_all add: db_inv_def db_ok_def tunnels_ok_def)
  then have inj: "inj_on tn_id (set (db_tunnels db))" "inj_on tn_subdomain (set (db_tunnels db))"
    by (simp_all add: distinct_map)
  obtain r r' where "r \<in> set (db_tunnels db)" "tn_id r = at_ID t" "tn_subdomain r = at_Subdomain t"
    "r' \<in> set (db_tunnels db)" "tn_id r' = at_ID t'" "tn_subdomain r' = at_Subdomain t'"
    using assms(2,3) unfolding backed_def by blast
  with inj show ?thesis by (metis inj_onD)
qed

lemma vouched_canonical: "db_inv pg db \<Longrightarrow> vouched db hash a \<Longrightarrow> canonical pg a"
  by (auto simp: vouched_def db_inv_def ids_ok_def list_all_iff)

lemma upsert_agent_row:
  assumes st: "upsert_agent pg u tokenID inst hostname os arch version now uuid db = Inr (r, db')" and u: "canonical pg u"
  shows "\<exists>ag \<in> set (db_agents db'). ag_id ag = r \<and> ag_user_id ag = u"
proof -
  note u = u [unfolded canonical_def]
  obtain inst' where inst': "pg_varchar pg 255 inst = Some inst'"
    using st by (auto simp: upsert_agent_def with_defs u split: option.splits)
  let ?hit = "\<lambda>a. ag_user_id a = u \<and> ag_instance_id a = inst'"
  show ?thesis
  proof (cases "find ?hit (db_agents db)")
    case (Some a)
    then have a: "a \<in> set (db_agents db)" "?hit a" using find_holds [OF Some] by auto
    from Some st obtain f where "db' = db\<lparr>db_agents := update_rows ?hit f (db_agents db)\<rparr>" "r = ag_id a"
      "\<And>a. ag_id (f a) = ag_id a" "\<And>a. ag_user_id (f a) = ag_user_id a"
      by (auto simp: upsert_agent_def with_defs u inst' Let_def split: option.splits if_splits)
    with a show ?thesis by (auto simp: set_update_rows intro!: bexI [of _ "f a"])
  next
    case None
    then obtain a where "db' = db\<lparr>db_agents := db_agents db @ [a]\<rparr>" "ag_id a = r" "ag_user_id a = u"
      using st
      by (auto simp: upsert_agent_def with_defs u inst' Let_def insert_row_Inr split: option.splits if_splits sum.splits)
    then show ?thesis by simp
  qed
qed

lemma agents_Connect_vouched:
  assumes "agents_Connect pg raw hello env db = (Inr a, db')" "calls_ok pg env" "db_inv pg db" "pg_keeps pg"
  shows "vouched db' (hash_hex raw) a"
proof -
  obtain t db1 db2 where
    e0: "exec (env 0) (select_live_token pg (hash_hex raw)) db = (Inr t, db1)"
    and e1: "exec (env 1) (upsert_agent pg (tk_user_id t) (tk_id t) (chp_InstanceID hello) (chp_Hostname hello)
        (chp_OS hello) (chp_Arch hello) (chp_AgentVersion hello)) db1 = (Inr a, db2)"
    and db': "db' = snd (exec (env 2) (touch_agent_token pg (tk_id t)) db2)"
    using assms(1) by (auto simp: agents_Connect_def hash_hex_def split: if_splits prod.splits sum.splits)
  have steps: "db_steps pg db db1" "db_steps pg db1 db2" "db_steps pg db2 db'"
    using exec_paths(5) [OF e0] upsert_agent_steps [OF e1] select_live_token_row [OF e0] assms(2) db'
      exec_paths(17) [of "env 2" pg "tk_id t" db2] by (simp_all, metis prod.collapse calls_okD)
  have t: "t \<in> set (db_agent_tokens db1)" by (rule select_live_token_row [OF e0])
  have hash: "tk_hash t = hash_hex raw"
    using e0 assms(4) unfolding pg_keeps_def
    by (auto simp: exec_Inr select_live_token_def with_defs token_live_def find_Some_iff split: option.splits)
  have "db_inv pg db1" by (rule db_steps_inv [OF steps(1) assms(3)])
  with t have "canonical pg (tk_user_id t)"
    by (auto simp: db_inv_def db_ok_def ids_ok_def agent_tokens_ok_def list_all_iff)
  with e1 obtain ag where ag: "ag \<in> set (db_agents db2)" "ag_id ag = a" "ag_user_id ag = tk_user_id t"
    by (auto simp: exec_Inr dest!: upsert_agent_row)
  obtain t2 where "t2 \<in> set (db_agent_tokens db2)" "tk_hash t2 = tk_hash t" "tk_user_id t2 = tk_user_id t"
    using db_steps_facts [OF steps(2)] t unfolding facts_grow_def token_facts_def by (smt (verit) Pair_inject image_iff subset_iff)
  with ag hash have "vouched db2 (hash_hex raw) a" unfolding vouched_def by metis
  then show ?thesis by (rule ownership_grows(1) [OF steps(3)])
qed

lemma ReopenForSession_row:
  assumes "ReopenForSession pg generated a addr env db = (Inr t, db')" "canonical pg a"
  shows "t \<in> set (db_tunnels db') \<and> tn_agent_id t = a"
proof -
  consider "exec (env 0) (reopen_tunnel pg a addr) db = (Inr t, db')"
    | sub db1 where "exec (env 1) (insert_tunnel pg a sub addr) db1 = (Inr t, db')"
    using assms(1) by (auto simp: ReopenForSession_def split: prod.splits sum.splits if_splits)
  then show ?thesis
  proof cases
    case 1
    then obtain now tables addr' t0 ts where t0: "sort_key (\<lambda>t. - tn_updated_at t) (filter (closed_for a addr') (db_tunnels tables)) = t0 # ts"
      "t = reopened now t0" "db' = tables\<lparr>db_tunnels := update_rows (\<lambda>r. tn_id r = tn_id t0) (reopened now) (db_tunnels tables)\<rparr>"
      using assms(2) by (auto simp: exec_Inr reopen_tunnel_def with_defs canonical_def split: option.splits list.splits)
    have "t0 \<in> set (filter (closed_for a addr') (db_tunnels tables))"
      using t0(1) by (metis list.set_intros(1) set_sort)
    with t0(2,3) show ?thesis
      by (auto simp: closed_for_def reopened_def update_rows_def)
  next
    case 2
    then show ?thesis
      using assms(2) by (auto simp: exec_Inr insert_tunnel_def with_defs canonical_def insert_row_Inr Let_def split: option.splits sum.splits)
  qed
qed

end
