(* ===== verification/Route_Ownership.thy ===== *)
theory Route_Ownership
  imports Gateway_System Agent_Access End_To_End
begin

text \<open>
  What holds of the session manager, the routing table and the database together, in every state
  the server can reach: \<open>system_inv\<close>, an invariant of \<open>system_step\<close>, and what it says about the
  routes. It gives the well-formedness of the routing table that other theories assume.
\<close>

section \<open>The invariant\<close>

fun registered :: "conn_phase \<Rightarrow> bool" where
  "registered (Serves responses) \<longleftrightarrow> True"
| "registered Stops \<longleftrightarrow> True"
| "registered _ \<longleftrightarrow> False"

fun to_clean :: "conn_phase \<Rightarrow> conn_effect list" where
  "to_clean (Leaves effects) = effects"
| "to_clean _ = []"

text \<open>The connection has yet to close its routes.\<close>

definition holds_routes :: "string \<Rightarrow> connection \<Rightarrow> bool" where
  "holds_routes i c \<longleftrightarrow> registered (cn_phase c) \<or> CleanupSession i (cn_agent c) \<in> set (to_clean (cn_phase c))"

definition route_ok :: "database \<Rightarrow> (string, connection) gomap \<Rightarrow> ActiveTunnel \<Rightarrow> bool" where
  "route_ok db conns t \<longleftrightarrow> backed db t
     \<and> (\<exists>c. map_of conns (at_SessionID t) = Some c \<and> cn_agent c = at_AgentID t \<and> holds_routes (at_SessionID t) c)"

definition conn_ok :: "database \<Rightarrow> string \<Rightarrow> connection \<Rightarrow> bool" where
  "conn_ok db i c \<longleftrightarrow> vouched db (cn_tokenHash c) (cn_agent c)
     \<and> (\<exists>raw. cn_tokenHash c = hash_hex raw) \<and> (\<exists>random. newSessionID random = Some i)
     \<and> set (to_clean (cn_phase c)) \<subseteq> {CleanupSession i (cn_agent c), conn_effect.DisconnectAgent (cn_agent c)}"

definition conn_identity :: "(string, connection) gomap \<Rightarrow> string \<Rightarrow> (string \<times> string \<times> nat option) option" where
  "conn_identity conns i = (case map_of conns i of None \<Rightarrow> None
     | Some c \<Rightarrow> if registered (cn_phase c) then Some (cn_agent c, cn_tokenHash c, Some (cn_cancel c)) else None)"

definition system_inv :: "postgres \<Rightarrow> system \<Rightarrow> bool" where
  "system_inv pg sys \<longleftrightarrow>
     db_inv pg (app_db (sys_app sys)) \<and> sm_inv (app_gateway (sys_app sys)) \<and> registry_wf (app_registry (sys_app sys))
   \<and> session_identity (app_gateway (sys_app sys)) = conn_identity (sys_conns sys)
   \<and> (\<forall>i c. map_of (sys_conns sys) i = Some c \<longrightarrow> conn_ok (app_db (sys_app sys)) i c)
   \<and> (\<forall>t \<in> ran (registry_tunnels (app_registry (sys_app sys))). route_ok (app_db (sys_app sys)) (sys_conns sys) t)"

lemma system_invI:
  assumes "db_inv pg (app_db s)" "sm_inv (app_gateway s)" "registry_wf (app_registry s)"
    and "session_identity (app_gateway s) = conn_identity conns"
    and "\<And>i c. map_of conns i = Some c \<Longrightarrow> conn_ok (app_db s) i c"
    and "\<And>t. t \<in> ran (registry_tunnels (app_registry s)) \<Longrightarrow> route_ok (app_db s) conns t"
  shows "system_inv pg \<lparr>sys_app = s, sys_conns = conns\<rparr>"
  using assms by (simp add: system_inv_def)

lemma system_invD:
  assumes "system_inv pg \<lparr>sys_app = s, sys_conns = conns\<rparr>"
  shows "db_inv pg (app_db s)" "sm_inv (app_gateway s)" "registry_wf (app_registry s)"
    and "session_identity (app_gateway s) = conn_identity conns"
    and "\<And>i c. map_of conns i = Some c \<Longrightarrow> conn_ok (app_db s) i c"
    and "\<And>t. t \<in> ran (registry_tunnels (app_registry s)) \<Longrightarrow> route_ok (app_db s) conns t"
  using assms by (simp_all add: system_inv_def)

lemma inv_new_system: "db_inv pg db \<Longrightarrow> system_inv pg (new_system db)"
proof -
  have "session_identity new_gateway = conn_identity []"
    by (simp add: session_identity_def conn_identity_def fun_eq_iff new_gateway_def NewSessionManager_def)
  then show "db_inv pg db \<Longrightarrow> system_inv pg (new_system db)"
    by (simp add: system_inv_def new_system_def new_app_def sm_inv_new)
qed

text \<open>The tables grow; the connections change in one place.\<close>

lemma conn_ok_grows: "db_steps pg db db' \<Longrightarrow> conn_ok db i c \<Longrightarrow> conn_ok db' i c"
  by (auto simp: conn_ok_def intro: ownership_grows)

lemma route_ok_grows: "db_steps pg db db' \<Longrightarrow> route_ok db conns t \<Longrightarrow> route_ok db' conns t"
  by (auto simp: route_ok_def intro: ownership_grows)

lemma conn_identity_put:
  "conn_identity (map_put i c conns) = (conn_identity conns)(i := if registered (cn_phase c) then Some (cn_agent c, cn_tokenHash c, Some (cn_cancel c)) else None)"
  by (auto simp: conn_identity_def fun_eq_iff)

lemma route_ok_put:
  assumes "route_ok db conns t" "at_SessionID t = i \<Longrightarrow> cn_agent c' = at_AgentID t \<and> holds_routes i c'"
  shows "route_ok db (map_put i c' conns) t"
  using assms by (auto simp: route_ok_def)

section \<open>A turn of a connection\<close>

lemma effects_keep:
  assumes "\<forall>e \<in> set effects. \<not> closes_session e" "env_ok pg env"
  shows "db_steps pg (app_db s) (app_db (fold (\<lambda>e. app_step cfg pg (ConnEffect [] env e)) effects s))
    \<and> app_registry (fold (\<lambda>e. app_step cfg pg (ConnEffect [] env e)) effects s) = app_registry s"
  using assms(1)
proof (induction effects arbitrary: s)
  case (Cons e effects)
  let ?s = "app_step cfg pg (ConnEffect [] env e) s"
  have "db_steps pg (app_db s) (app_db ?s)"
    by (rule app_step_steps) (simp add: assms(2))
  moreover have "app_registry ?s = app_registry s"
    using Cons.prems by (cases e) simp_all
  moreover have "db_steps pg (app_db ?s) (app_db (fold (\<lambda>e. app_step cfg pg (ConnEffect [] env e)) effects ?s))
    \<and> app_registry (fold (\<lambda>e. app_step cfg pg (ConnEffect [] env e)) effects ?s) = app_registry ?s"
    by (rule Cons.IH) (use Cons.prems in simp)
  ultimately show ?case
    unfolding fold_Cons comp_def by (metis rtranclp_trans)
qed simp

lemma opened_route:
  assumes "calls_ok pg env" "canonical pg a" "s' = app_step cfg pg (OpenTunnelFor generated i a addr env) s"
  shows "db_steps pg (app_db s) (app_db s')"
    and "app_registry s' = app_registry s \<or> (\<exists>t. at_SessionID t = i \<and> at_AgentID t = a \<and> backed (app_db s') t
           \<and> app_registry s' = registry_Open t (app_registry s))"
proof -
  show "db_steps pg (app_db s) (app_db s')"
    unfolding assms(3) by (rule app_step_steps) (simp add: assms(1))
  obtain res db' where call: "ReopenForSession pg generated a addr env (app_db s) = (res, db')" by fastforce
  show "app_registry s' = app_registry s \<or> (\<exists>t. at_SessionID t = i \<and> at_AgentID t = a \<and> backed (app_db s') t
           \<and> app_registry s' = registry_Open t (app_registry s))"
  proof (cases res)
    case (Inr t)
    let ?t = "\<lparr>at_ID = tn_id t, at_Subdomain = tn_subdomain t, at_AgentID = a, at_UserID = tn_user_id t, at_SessionID = i,
       at_LocalAddress = addr\<rparr>"
    have "backed db' ?t"
      using ReopenForSession_row [OF call [unfolded Inr] assms(2)] by (auto simp: backed_def)
    then show ?thesis
      using call Inr by (intro disjI2 exI [of _ ?t]) (simp add: assms(3) openTunnel_def)
  qed (use call in \<open>simp add: assms(3) openTunnel_def\<close>)
qed

lemma asked_by_own_agent: "asked_tunnel i g responses ev = Some (a, addr) \<Longrightarrow> \<exists>h c. session_identity g i = Some (a, h, c)"
  by (cases ev) (auto simp: session_identity_AgentID [symmetric] split: sum.splits prod.splits list.splits gateway_effect.splits bool.splits)

lemma agent_turn_keeps:
  assumes turn: "agent_turn cfg pg tenv i ev responses s = Some (result, s')"
    and env: "calls_ok pg (te_open tenv)" "env_ok pg (te_effect tenv)"
    and agent: "session_identity (app_gateway s) i = Some (a, h, cancel)" "canonical pg a" and inv: "sm_inv (app_gateway s)"
  shows "session_identity (app_gateway s') = session_identity (app_gateway s)" "sm_inv (app_gateway s')"
    and "db_steps pg (app_db s) (app_db s')"
    and "app_registry s' = app_registry s \<or> (\<exists>t. at_SessionID t = i \<and> at_AgentID t = a \<and> backed (app_db s') t
           \<and> app_registry s' = registry_Open t (app_registry s))"
proof -
  let ?st = "\<lparr>ss_gateway = app_gateway s, ss_responses = responses\<rparr>"
  define s1 where "s1 = (case asked_tunnel i (app_gateway s) responses ev of None \<Rightarrow> s
    | Some (agentID, address) \<Rightarrow> app_step cfg pg (OpenTunnelFor (te_generated tenv) i agentID address (te_open tenv)) s)"
  obtain effects where step: "serve_step main_connect i (turn_input cfg pg tenv s) ?st ev = Some (result, effects)"
    and s': "s' = (fold (\<lambda>e. app_step cfg pg (ConnEffect [] (te_effect tenv) e)) effects s1)\<lparr>app_gateway := result_state result\<rparr>"
    using turn unfolding agent_turn_def s1_def by (auto simp: Let_def split: option.splits)
  show "session_identity (app_gateway s') = session_identity (app_gateway s)"
    using serve_step_identity [OF step] by (simp add: s')
  show "sm_inv (app_gateway s')"
    using sm_reaches_inv [OF _ inv] serve_step_reaches [OF step] inv by (simp add: s')
  note eff = effects_keep [of effects pg "te_effect tenv" s1 cfg, OF _ env(2)]
  have quiet: "\<forall>e \<in> set effects. \<not> closes_session e"
    using serve_step_effects [OF step] by blast
  have opened: "db_steps pg (app_db s) (app_db s1)"
    "app_registry s1 = app_registry s \<or> (\<exists>t. at_SessionID t = i \<and> at_AgentID t = a \<and> backed (app_db s1) t
           \<and> app_registry s1 = registry_Open t (app_registry s))"
  proof -
    have "db_steps pg (app_db s) (app_db s1) \<and> (app_registry s1 = app_registry s \<or> (\<exists>t. at_SessionID t = i \<and> at_AgentID t = a
        \<and> backed (app_db s1) t \<and> app_registry s1 = registry_Open t (app_registry s)))"
    proof (cases "asked_tunnel i (app_gateway s) responses ev")
      case (Some q)
      obtain a' addr where q: "q = (a', addr)" by (cases q)
      have "a' = a" using asked_by_own_agent Some q agent(1) by fastforce
      then have "s1 = app_step cfg pg (OpenTunnelFor (te_generated tenv) i a addr (te_open tenv)) s"
        using Some q by (simp add: s1_def)
      from opened_route [OF env(1) agent(2) this] show ?thesis by blast
    qed (simp add: s1_def)
    then show "db_steps pg (app_db s) (app_db s1)"
      "app_registry s1 = app_registry s \<or> (\<exists>t. at_SessionID t = i \<and> at_AgentID t = a \<and> backed (app_db s1) t
           \<and> app_registry s1 = registry_Open t (app_registry s))" by blast+
  qed
  show "db_steps pg (app_db s) (app_db s')"
    using eff [OF quiet] opened(1) by (simp add: s') (metis rtranclp_trans)
  show "app_registry s' = app_registry s \<or> (\<exists>t. at_SessionID t = i \<and> at_AgentID t = a \<and> backed (app_db s') t
           \<and> app_registry s' = registry_Open t (app_registry s))"
    using eff [OF quiet] opened(2) ownership_grows(2) by (simp add: s') blast
qed

section \<open>Every step keeps the invariant\<close>

lemma inv_Connects:
  assumes inv: "system_inv pg \<lparr>sys_app = s, sys_conns = conns\<rparr>" and keeps: "pg_keeps pg"
    and i: "newSessionID random = Some i" "map_of conns i = None" and env: "calls_ok pg env"
    and a: "fst (agents_Connect pg rawToken hello env (app_db s)) = Inr (cn_agent c)"
    and c: "cn_tokenHash c = hash_hex rawToken" "cn_phase c = Enrols"
  shows "system_inv pg \<lparr>sys_app = app_step cfg pg (ConnectAgent rawToken hello env) s, sys_conns = map_put i c conns\<rparr>"
proof -
  note I = system_invD [OF inv]
  let ?s = "app_step cfg pg (ConnectAgent rawToken hello env) s"
  have call: "agents_Connect pg rawToken hello env (app_db s) = (Inr (cn_agent c), app_db ?s)"
    using a by (auto intro: prod_eqI)
  have path: "db_steps pg (app_db s) (app_db ?s)"
    by (rule app_step_steps) (simp add: env)
  note grows = conn_ok_grows [OF path] route_ok_grows [OF path]
  have ok: "conn_ok (app_db ?s) i c"
    using agents_Connect_vouched [OF call env I(1) keeps] i(1) c by (auto simp: conn_ok_def)
  have "route_ok (app_db ?s) (map_put i c conns) t" if "t \<in> ran (registry_tunnels (app_registry ?s))" for t
  proof -
    have t: "route_ok (app_db ?s) conns t" using that I(6) grows(2) by simp
    then have "at_SessionID t \<noteq> i" using i(2) by (auto simp: route_ok_def)
    then show ?thesis using route_ok_put [OF t, of i c] by simp
  qed
  moreover have "conn_identity (map_put i c conns) = conn_identity conns"
    using i(2) c by (auto simp: conn_identity_put conn_identity_def fun_eq_iff)
  ultimately show ?thesis
    using I ok grows(1) db_steps_inv [OF path I(1)] by (intro system_invI) (auto split: if_splits)
qed

lemma inv_Registers:
  assumes inv: "system_inv pg \<lparr>sys_app = s, sys_conns = conns\<rparr>"
    and c: "map_of conns i = Some c" "cn_phase c = Enrols" "cn_tokenHash c = hash_hex rawToken"
    and inp: "hi_connect inp = (\<lambda>_ _. Some (cn_agent c))" "hi_cancel inp = cn_cancel c"
    and shake: "handshake main_connect rawToken inp (app_gateway s) = Inr (i, a, g)"
    and p: "registered p"
  shows "system_inv pg \<lparr>sys_app = s\<lparr>app_gateway := g\<rparr>, sys_conns = map_put i (c\<lparr>cn_phase := p\<rparr>) conns\<rparr>"
proof -
  note I = system_invD [OF inv]
  have a: "a = cn_agent c"
    using shake inp(1) by (auto simp: handshake_def main_connect_def make_outbound_def split: option.splits if_splits)
  have "to_clean p = []" using p by (cases p) simp_all
  then have "conn_ok (app_db s) j c'" if "map_of (map_put i (c\<lparr>cn_phase := p\<rparr>) conns) j = Some c'" for j c'
    using that I(5) [of i c] I(5) [of j c'] c(1) by (auto simp: conn_ok_def split: if_splits)
  moreover have "session_identity g = conn_identity (map_put i (c\<lparr>cn_phase := p\<rparr>) conns)"
    using handshake_identity [OF shake] I(4) p a c(3) inp(2) by (simp add: conn_identity_put)
  moreover have "sm_inv g" by (rule sm_reaches_inv [OF handshake_reaches [OF shake] I(2)])
  moreover have "route_ok (app_db s) (map_put i (c\<lparr>cn_phase := p\<rparr>) conns) t" if "t \<in> ran (registry_tunnels (app_registry s))" for t
    using I(6) [OF that] by (rule route_ok_put) (use c(1) I(6) [OF that] p in \<open>auto simp: route_ok_def holds_routes_def\<close>)
  ultimately show ?thesis using I(1,3) by (intro system_invI) auto
qed

lemma inv_Turns:
  assumes inv: "system_inv pg \<lparr>sys_app = s, sys_conns = conns\<rparr>"
    and c: "map_of conns i = Some c" "cn_phase c = Serves responses"
    and env: "calls_ok pg (te_open tenv)" "env_ok pg (te_effect tenv)"
    and turn: "agent_turn cfg pg tenv i ev responses s = Some (result, s')"
  shows "system_inv pg \<lparr>sys_app = s', sys_conns = map_put i (c\<lparr>cn_phase := phase_after result\<rparr>) conns\<rparr>"
proof -
  let ?c = "c\<lparr>cn_phase := phase_after result\<rparr>"
  note I = system_invD [OF inv]
  have vouched: "vouched (app_db s) (cn_tokenHash c) (cn_agent c)" using I(5) [OF c(1)] by (simp add: conn_ok_def)
  have phase: "registered (phase_after result)" "to_clean (phase_after result) = []" by (cases result; simp)+
  have agent: "session_identity (app_gateway s) i = Some (cn_agent c, cn_tokenHash c, Some (cn_cancel c))" using I(4) c by (simp add: conn_identity_def)
  note T = agent_turn_keeps [OF turn env agent vouched_canonical [OF I(1) vouched] I(2)]
  note grows = conn_ok_grows [OF T(3)] route_ok_grows [OF T(3)]
  have inv': "db_inv pg (app_db s')" by (rule db_steps_inv [OF T(3) I(1)])
  have own: "conn_ok (app_db s') i ?c"
    using ownership_grows(1) [OF T(3) vouched] I(5) [OF c(1)] phase by (simp add: conn_ok_def)
  have routes: "route_ok (app_db s') (map_put i ?c conns) t" if "t \<in> ran (registry_tunnels (app_registry s))" for t
  proof -
    from I(6) [OF that] have "route_ok (app_db s') conns t" by (rule grows(2))
    then show ?thesis
      by (rule route_ok_put) (use c(1) I(6) [OF that] phase in \<open>auto simp: route_ok_def holds_routes_def\<close>)
  qed
  have registry: "registry_wf (app_registry s')
    \<and> (\<forall>t \<in> ran (registry_tunnels (app_registry s')). route_ok (app_db s') (map_put i ?c conns) t)"
    using T(4)
  proof
    assume "app_registry s' = app_registry s"
    then show ?thesis using I(3) routes by simp
  next
    assume "\<exists>t. at_SessionID t = i \<and> at_AgentID t = cn_agent c \<and> backed (app_db s') t
      \<and> app_registry s' = registry_Open t (app_registry s)"
    then obtain t where t: "at_SessionID t = i" "at_AgentID t = cn_agent c" "backed (app_db s') t"
      "app_registry s' = registry_Open t (app_registry s)" by blast
    have "at_ID t' = at_ID t \<longleftrightarrow> at_Subdomain t' = at_Subdomain t" if "t' \<in> ran (registry_tunnels (app_registry s))" for t'
      using backed_unique [OF inv' t(3)] routes [OF that] by (simp add: route_ok_def)
    note opened = registry_Open_fits [OF I(3) this, folded t(4)]
    have "route_ok (app_db s') (map_put i ?c conns) t"
      using t phase by (simp add: route_ok_def holds_routes_def)
    then show ?thesis
      using opened routes by (auto simp: ran_def split: if_splits)
  qed
  show ?thesis
  proof (rule system_invI)
    show "session_identity (app_gateway s') = conn_identity (map_put i ?c conns)"
      using T(1) I(4) agent phase by (auto simp: conn_identity_put fun_eq_iff)
    show "conn_ok (app_db s') j c'" if "map_of (map_put i ?c conns) j = Some c'" for j c'
      using that I(5) grows(1) own by (auto split: if_splits)
  qed (use inv' T(2) registry in auto)
qed

lemma inv_Ends:
  assumes inv: "system_inv pg \<lparr>sys_app = s, sys_conns = conns\<rparr>"
    and c: "map_of conns i = Some c" "cn_phase c = Stops"
    and ends: "end_session main_connect i (cn_agent c) (cn_cancel c) (app_gateway s) = Some (g, effects)"
  shows "system_inv pg \<lparr>sys_app = s\<lparr>app_gateway := g\<rparr>, sys_conns = map_put i (c\<lparr>cn_phase := Leaves effects\<rparr>) conns\<rparr>"
proof -
  let ?c = "c\<lparr>cn_phase := Leaves effects\<rparr>"
  note I = system_invD [OF inv]
  have removed: "session_Remove i (call_cancel (cn_cancel c) (app_gateway s)) = Some g"
    and effects: "effects = CleanupSession i (cn_agent c) # (if cn_agent c \<noteq> [] then [conn_effect.DisconnectAgent (cn_agent c)] else [])"
    using ends by (auto simp: end_session_def main_connect_def)
  have "sm_inv (call_cancel (cn_cancel c) (app_gateway s))"
    using sm_inv_step [of "app_gateway s" "Ev_Cancel (cn_cancel c)"] I(2) by simp
  then have "sm_inv g" by (rule sm_reaches_inv [OF remove_reaches [OF removed]])
  moreover have "session_identity g = conn_identity (map_put i ?c conns)"
    using end_session_identity [OF ends] I(4) by (simp add: conn_identity_put)
  moreover have "conn_ok (app_db s) j c'" if "map_of (map_put i ?c conns) j = Some c'" for j c'
    using that I(5) [of i c] I(5) [of j c'] c(1) by (auto simp: conn_ok_def effects split: if_splits)
  moreover have "route_ok (app_db s) (map_put i ?c conns) t" if "t \<in> ran (registry_tunnels (app_registry s))" for t
    using I(6) [OF that] by (rule route_ok_put) (use c(1) I(6) [OF that] in \<open>auto simp: route_ok_def holds_routes_def effects\<close>)
  ultimately show ?thesis using I(1,3) by (intro system_invI) auto
qed

lemma closed_routes:
  assumes "registry_wf r" "mset order = mset (reg_byID r)"
  shows "registry_wf (registry_CloseSession order i r)"
    and "t \<in> ran (registry_tunnels (registry_CloseSession order i r)) \<Longrightarrow> t \<in> ran (registry_tunnels r) \<and> at_SessionID t \<noteq> i"
proof -
  define ord where "ord m = (if mset m = mset order then order else m)" for m :: "(string \<times> string) list"
  have "mset (ord m) = mset m" for m by (simp add: ord_def)
  note route_table.step_tunnels [OF registry_contract [OF this], where r = "(r, [])" and p = "CloseSession_op i"]
  then have closed: "registry_wf (registry_CloseSession order i r)
      \<and> registry_tunnels (registry_CloseSession order i r) = tunnels_step (CloseSession_op i) (registry_tunnels r)"
    using assms by (simp add: ord_def)
  show "registry_wf (registry_CloseSession order i r)" using closed by blast
  show "t \<in> ran (registry_tunnels r) \<and> at_SessionID t \<noteq> i" if "t \<in> ran (registry_tunnels (registry_CloseSession order i r))"
    using that closed by (auto simp: ran_def split: option.splits if_splits)
qed

lemma inv_Cleans:
  assumes inv: "system_inv pg \<lparr>sys_app = s, sys_conns = conns\<rparr>"
    and c: "map_of conns i = Some c" "cn_phase c = Leaves (e # effects)"
    and env: "env_ok pg env" "mset order = mset (reg_byID (app_registry s))"
  shows "system_inv pg \<lparr>sys_app = app_step cfg pg (ConnEffect order env e) s,
    sys_conns = map_put i (c\<lparr>cn_phase := Leaves effects\<rparr>) conns\<rparr>"
proof -
  let ?s = "app_step cfg pg (ConnEffect order env e) s"
  let ?c = "c\<lparr>cn_phase := Leaves effects\<rparr>"
  note I = system_invD [OF inv]
  have e: "e = CleanupSession i (cn_agent c) \<or> e = conn_effect.DisconnectAgent (cn_agent c)"
    and ok: "conn_ok (app_db s) i ?c"
    using I(5) [OF c(1)] c(2) by (auto simp: conn_ok_def)
  have path: "db_steps pg (app_db s) (app_db ?s)"
    by (rule app_step_steps) (simp add: env)
  note grows = conn_ok_grows [OF path] route_ok_grows [OF path]
  have gateway: "app_gateway ?s = app_gateway s" by (simp add: case_prod_unfold)
  have routes: "registry_wf (app_registry ?s)
    \<and> (\<forall>t \<in> ran (registry_tunnels (app_registry ?s)). t \<in> ran (registry_tunnels (app_registry s))
         \<and> (at_SessionID t = i \<longrightarrow> e \<noteq> CleanupSession i (cn_agent c)))"
    using e closed_routes [OF I(3) env(2), where i = i] I(3) by (auto simp: cleanupSession_def; blast)
  have "route_ok (app_db ?s) (map_put i ?c conns) t" if t: "t \<in> ran (registry_tunnels (app_registry ?s))" for t
  proof (rule route_ok_put)
    from routes t have old: "route_ok (app_db s) conns t" and e: "at_SessionID t = i \<longrightarrow> e \<noteq> CleanupSession i (cn_agent c)"
      using I(6) by blast+
    show "route_ok (app_db ?s) conns t" by (rule grows(2) [OF old])
    show "cn_agent ?c = at_AgentID t \<and> holds_routes i ?c" if "at_SessionID t = i"
      using old e that c by (auto simp: route_ok_def holds_routes_def)
  qed
  moreover have "conn_ok (app_db ?s) j c'" if "map_of (map_put i ?c conns) j = Some c'" for j c'
    using that I(5) grows(1) ok by (auto split: if_splits)
  moreover have "conn_identity (map_put i ?c conns) = conn_identity conns"
    using c by (auto simp: conn_identity_put conn_identity_def fun_eq_iff)
  ultimately show ?thesis
    using I(2,4) db_steps_inv [OF path I(1)] routes gateway by (intro system_invI) auto
qed

lemma inv_Returns:
  assumes inv: "system_inv pg \<lparr>sys_app = s, sys_conns = conns\<rparr>"
    and c: "map_of conns i = Some c" "cn_phase c = Leaves []"
  shows "system_inv pg \<lparr>sys_app = s, sys_conns = map_del i conns\<rparr>"
proof -
  note I = system_invD [OF inv]
  have "conn_identity (map_del i conns) = conn_identity conns"
    using c by (auto simp: conn_identity_def fun_eq_iff)
  moreover have "route_ok (app_db s) (map_del i conns) t" if "t \<in> ran (registry_tunnels (app_registry s))" for t
    using I(6) [OF that] c by (auto simp: route_ok_def holds_routes_def)
  ultimately show ?thesis using I by (intro system_invI) (auto split: if_splits)
qed

lemma inv_Elsewhere:
  assumes inv: "system_inv pg \<lparr>sys_app = s, sys_conns = conns\<rparr>" and a: "shared a" "activity_ok pg a"
  shows "system_inv pg \<lparr>sys_app = app_step cfg pg a s, sys_conns = conns\<rparr>"
proof -
  note I = system_invD [OF inv]
  have path: "db_steps pg (app_db s) (app_db (app_step cfg pg a s))" by (rule app_step_steps [OF a(2)])
  have "same_routes s (app_step cfg pg a s)" by (rule shared_routes [OF a(1)])
  then show ?thesis
    using I db_steps_inv [OF path] conn_ok_grows [OF path] route_ok_grows [OF path]
    by (intro system_invI) (auto simp: same_routes_def)
qed

lemma system_step_inv:
  assumes "system_step cfg pg sys sys'" "pg_keeps pg" "system_inv pg sys"
  shows "system_inv pg sys'"
  using assms
proof (induction rule: system_step.induct)
  case (Connects random sessionID conns env rawToken hello s agentID cancel)
  show ?case by (rule inv_Connects [OF Connects(6,5,1,2,3)]) (simp_all add: Connects(4))
next
  case (Registers conns sessionID c rawToken inp s agentID g)
  show ?case by (rule inv_Registers [OF Registers(8,1-6)]) simp
next
  case Turns then show ?case by (blast intro: inv_Turns)
next
  case Ends then show ?case by (blast intro: inv_Ends)
next
  case Cleans then show ?case by (blast intro: inv_Cleans)
next
  case Returns then show ?case by (blast intro: inv_Returns)
next
  case Elsewhere then show ?case by (blast intro: inv_Elsewhere)
qed

lemma system_inv_reached:
  "system_steps cfg pg (new_system db) sys \<Longrightarrow> pg_keeps pg \<Longrightarrow> db_inv pg db \<Longrightarrow> system_inv pg sys"
  by (induction rule: rtranclp_induct) (auto intro: inv_new_system system_step_inv)

section \<open>A connection can always leave\<close>

text \<open>A handshake with a valid first message goes through.\<close>

definition valid_hello :: "byte list option \<Rightarrow> string \<Rightarrow> nat \<Rightarrow> handshake_input" where
  "valid_hello random agentID cancel = example_handshake\<lparr>hi_random := random, hi_connect := (\<lambda>_ _. Some agentID), hi_cancel := cancel\<rparr>"

lemma valid_hello_registers:
  assumes "newSessionID random = Some i"
  shows "\<exists>g'. handshake main_connect raw (valid_hello random a cancel) g = Inr (i, a, g')"
proof -
  have "list_all utf8_valid [''1'', ''host'', ''host'', ''linux'', ''amd64'']"
    by (simp add: utf8_valid_def)
  moreover have "int64 1"
    by (simp add: int64_def maxInt64_def)
  ultimately show ?thesis
    using gateway_reads_client_hello [of example_hello] assms
    by (simp add: valid_hello_def handshake_def main_connect_def example_handshake_def example_hello_def protocol_Version_def
        case_prod_unfold Let_def)
qed

text \<open>
  From every phase there are steps of the connection's own that take it out of the system. They
  leave the routes of the others alone.
\<close>

definition leaves_cleanly :: "Config.Config \<Rightarrow> postgres \<Rightarrow> string \<Rightarrow> system \<Rightarrow> bool" where
  "leaves_cleanly cfg pg i sys \<longleftrightarrow> (\<exists>sys'. system_steps cfg pg sys sys'
     \<and> map_of (sys_conns sys') = (map_of (sys_conns sys))(i := None)
     \<and> session_identity (app_gateway (sys_app sys')) i = None
     \<and> (\<forall>sub t. registry_Get sub (app_registry (sys_app sys')) = Some t \<longleftrightarrow>
          at_SessionID t \<noteq> i \<and> registry_Get sub (app_registry (sys_app sys)) = Some t))"

lemma leaves_cleanly_step:
  assumes "system_step cfg pg \<lparr>sys_app = s, sys_conns = conns\<rparr> \<lparr>sys_app = s', sys_conns = map_put i c conns\<rparr>"
    and "leaves_cleanly cfg pg i \<lparr>sys_app = s', sys_conns = map_put i c conns\<rparr>"
    and "\<And>sub t. at_SessionID t \<noteq> i \<Longrightarrow>
      registry_Get sub (app_registry s') = Some t \<longleftrightarrow> registry_Get sub (app_registry s) = Some t"
  shows "leaves_cleanly cfg pg i \<lparr>sys_app = s, sys_conns = conns\<rparr>"
proof -
  obtain sys' where sys': "system_steps cfg pg \<lparr>sys_app = s', sys_conns = map_put i c conns\<rparr> sys'"
    "map_of (sys_conns sys') = (map_of (map_put i c conns))(i := None)" "session_identity (app_gateway (sys_app sys')) i = None"
    "\<forall>sub t. registry_Get sub (app_registry (sys_app sys')) = Some t \<longleftrightarrow>
       at_SessionID t \<noteq> i \<and> registry_Get sub (app_registry s') = Some t"
    using assms(2) by (auto simp: leaves_cleanly_def)
  from assms(1) sys'(1) have "system_steps cfg pg \<lparr>sys_app = s, sys_conns = conns\<rparr> sys'"
    by (rule converse_rtranclp_into_rtranclp)
  with sys'(2-4) assms(3) show ?thesis
    unfolding leaves_cleanly_def by (intro exI [of _ sys']) auto
qed

lemma leave_from_Leaves:
  assumes "system_inv pg \<lparr>sys_app = s, sys_conns = conns\<rparr>" "map_of conns i = Some c" "cn_phase c = Leaves effects"
    and env: "env_ok pg env"
  shows "leaves_cleanly cfg pg i \<lparr>sys_app = s, sys_conns = conns\<rparr>"
  using assms(1-3)
proof (induction effects arbitrary: s conns c)
  case Nil
  note I = system_invD [OF Nil(1)]
  have none: "at_SessionID t \<noteq> i" if "registry_Get sub (app_registry s) = Some t" for sub t
  proof -
    have "t \<in> ran (registry_tunnels (app_registry s))"
      using that I(3) by (auto simp: registry_Get_iff ran_def)
    from I(6) [OF this] Nil(2,3) show ?thesis by (auto simp: route_ok_def holds_routes_def)
  qed
  have "session_identity (app_gateway s) i = None"
    using I(4) Nil(2,3) by (simp add: conn_identity_def)
  moreover have "system_steps cfg pg \<lparr>sys_app = s, sys_conns = conns\<rparr> \<lparr>sys_app = s, sys_conns = map_del i conns\<rparr>"
    using system_step.Returns [OF Nil(2,3)] by (rule r_into_rtranclp)
  ultimately show ?case
    using none unfolding leaves_cleanly_def by (intro exI [of _ "\<lparr>sys_app = s, sys_conns = map_del i conns\<rparr>"]) auto
next
  case (Cons e effects)
  let ?order = "reg_byID (app_registry s)"
  let ?s = "app_step cfg pg (ConnEffect ?order env e) s"
  let ?c = "c\<lparr>cn_phase := Leaves effects\<rparr>"
  note I = system_invD [OF Cons.prems(1)]
  have e: "e = CleanupSession i (cn_agent c) \<or> e = conn_effect.DisconnectAgent (cn_agent c)"
    using I(5) [OF Cons.prems(2)] Cons.prems(3) by (auto simp: conn_ok_def)
  show ?case
  proof (rule leaves_cleanly_step)
    show "system_step cfg pg \<lparr>sys_app = s, sys_conns = conns\<rparr> \<lparr>sys_app = ?s, sys_conns = map_put i ?c conns\<rparr>"
      by (rule system_step.Cleans [OF Cons.prems(2,3) env refl])
    show "leaves_cleanly cfg pg i \<lparr>sys_app = ?s, sys_conns = map_put i ?c conns\<rparr>"
      by (rule Cons.IH [OF inv_Cleans [OF Cons.prems env refl]], simp, simp)
    show "registry_Get sub (app_registry ?s) = Some t \<longleftrightarrow> registry_Get sub (app_registry s) = Some t"
      if "at_SessionID t \<noteq> i" for sub t
      using e that closed_session_is_unrouted [OF I(3) refl, of sub i t] by (auto simp: cleanupSession_def)
  qed
qed

lemma leave_from_Stops:
  assumes inv: "system_inv pg \<lparr>sys_app = s, sys_conns = conns\<rparr>"
    and c: "map_of conns i = Some c" "cn_phase c = Stops" and env: "env_ok pg env"
  shows "leaves_cleanly cfg pg i \<lparr>sys_app = s, sys_conns = conns\<rparr>"
proof -
  note I = system_invD [OF inv]
  have "sm_inv (call_cancel (cn_cancel c) (app_gateway s))"
    using sm_inv_step [of "app_gateway s" "Ev_Cancel (cn_cancel c)"] I(2) by simp
  from session_Remove_returns [OF this] obtain g effects where
    ends: "end_session main_connect i (cn_agent c) (cn_cancel c) (app_gateway s) = Some (g, effects)"
    unfolding end_session_def by fastforce
  show ?thesis
  proof (rule leaves_cleanly_step)
    show "system_step cfg pg \<lparr>sys_app = s, sys_conns = conns\<rparr>
      \<lparr>sys_app = s\<lparr>app_gateway := g\<rparr>, sys_conns = map_put i (c\<lparr>cn_phase := Leaves effects\<rparr>) conns\<rparr>"
      by (rule system_step.Ends [OF c ends])
    show "leaves_cleanly cfg pg i \<lparr>sys_app = s\<lparr>app_gateway := g\<rparr>, sys_conns = map_put i (c\<lparr>cn_phase := Leaves effects\<rparr>) conns\<rparr>"
      by (rule leave_from_Leaves [OF inv_Ends [OF inv c ends] _ _ env], simp, simp)
  qed simp
qed

lemma leave_from_Serves:
  assumes inv: "system_inv pg \<lparr>sys_app = s, sys_conns = conns\<rparr>"
    and c: "map_of conns i = Some c" "cn_phase c = Serves responses" and env: "env_ok pg env"
  shows "leaves_cleanly cfg pg i \<lparr>sys_app = s, sys_conns = conns\<rparr>"
proof -
  let ?tenv = "\<lparr>te_now = 0, te_writeOk = False, te_generated = Inl [], te_open = (\<lambda>_. env), te_effect = env\<rparr>"
  have turn: "agent_turn cfg pg ?tenv i SE_ReadError responses s = Some (Stopped True (app_gateway s), s)"
    by (simp add: agent_turn_def)
  have open_env: "calls_ok pg (te_open ?tenv)" "env_ok pg (te_effect ?tenv)"
    using env by (simp_all add: calls_ok_def)
  have step: "system_step cfg pg \<lparr>sys_app = s, sys_conns = conns\<rparr>
      \<lparr>sys_app = s, sys_conns = map_put i (c\<lparr>cn_phase := Stops\<rparr>) conns\<rparr>"
    using system_step.Turns [OF c open_env turn] by simp
  have inv': "system_inv pg \<lparr>sys_app = s, sys_conns = map_put i (c\<lparr>cn_phase := Stops\<rparr>) conns\<rparr>"
    using inv_Turns [OF inv c open_env turn] by simp
  show ?thesis
    by (rule leaves_cleanly_step [OF step leave_from_Stops [OF inv' _ _ env]], simp, simp, simp)
qed

lemma leave_from_Enrols:
  assumes inv: "system_inv pg \<lparr>sys_app = s, sys_conns = conns\<rparr>"
    and c: "map_of conns i = Some c" "cn_phase c = Enrols" and env: "env_ok pg env"
  shows "leaves_cleanly cfg pg i \<lparr>sys_app = s, sys_conns = conns\<rparr>"
proof -
  obtain raw random where raw: "cn_tokenHash c = hash_hex raw" and random: "newSessionID random = Some i"
    using system_invD(5) [OF inv c(1)] by (auto simp: conn_ok_def)
  let ?inp = "valid_hello random (cn_agent c) (cn_cancel c)"
  have inp: "hi_connect ?inp = (\<lambda>_ _. Some (cn_agent c))" "hi_cancel ?inp = cn_cancel c" "hi_writeOk ?inp"
    by (simp_all add: valid_hello_def example_handshake_def)
  obtain g where shake: "handshake main_connect raw ?inp (app_gateway s) = Inr (i, cn_agent c, g)"
    using valid_hello_registers [OF random] by blast
  have step: "system_step cfg pg \<lparr>sys_app = s, sys_conns = conns\<rparr>
      \<lparr>sys_app = s\<lparr>app_gateway := g\<rparr>, sys_conns = map_put i (c\<lparr>cn_phase := Serves []\<rparr>) conns\<rparr>"
    using system_step.Registers [OF c raw inp(1,2) shake] inp(3) by simp
  have inv': "system_inv pg \<lparr>sys_app = s\<lparr>app_gateway := g\<rparr>, sys_conns = map_put i (c\<lparr>cn_phase := Serves []\<rparr>) conns\<rparr>"
    by (rule inv_Registers [OF inv c raw inp(1,2) shake]) simp
  show ?thesis
    by (rule leaves_cleanly_step [OF step leave_from_Serves [OF inv' _ _ env]], simp, simp, simp)
qed

lemma connection_leaves:
  assumes "system_inv pg \<lparr>sys_app = s, sys_conns = conns\<rparr>" "map_of conns i = Some c"
  shows "leaves_cleanly cfg pg i \<lparr>sys_app = s, sys_conns = conns\<rparr>"
proof -
  let ?env = "\<lparr>se_others = id, se_now = 0, se_uuid = cn_agent c, se_run = Db_Ok\<rparr>"
  have "vouched (app_db s) (cn_tokenHash c) (cn_agent c)"
    using system_invD(5) [OF assms] by (simp add: conn_ok_def)
  then have "canonical pg (cn_agent c)"
    by (rule vouched_canonical [OF system_invD(1) [OF assms(1)]])
  then have env: "env_ok pg ?env" by (simp add: env_ok_def)
  show ?thesis
    using leave_from_Enrols [OF assms _ env] leave_from_Serves [OF assms _ env] leave_from_Stops [OF assms _ env] leave_from_Leaves [OF assms _ env]
    by (cases "cn_phase c") blast+
qed

section \<open>An agent connects and opens a tunnel\<close>

definition example_tunnel_env :: turn_env where
  "example_tunnel_env = \<lparr>te_now = 7, te_writeOk = True, te_generated = Inr ''abcdefghij'', te_open = (\<lambda>_. quiet_at 10),
     te_effect = quiet_at 10\<rparr>"

definition example_payload :: ClientHelloPayload where
  "example_payload = \<lparr>chp_ProtocolVersion = 1, chp_AgentVersion = ''1'', chp_InstanceID = ''host'', chp_Hostname = ''host'',
     chp_OS = ''linux'', chp_Arch = ''amd64''\<rparr>"

definition example_connect :: "string \<Rightarrow> (string + string) \<times> database" where
  "example_connect raw = agents_Connect example_pg raw example_payload (\<lambda>_. quiet_at 3) (example_tables (hash_hex raw))"

definition example_open_message :: "byte list" where
  "example_open_message = Marshal (envelope_json openTunnelType (Some (openTunnelPayload_json
     \<lparr>aot_RequestID = ''open_1'', aot_LocalAddress = ''3000''\<rparr>)))"

definition example_row :: tunnel_row where
  "example_row = \<lparr>tn_id = ''b2c1'', tn_user_id = ''a1'', tn_agent_id = ''b2c1'', tn_subdomain = ''abcdefghij'',
     tn_local_address = ''3000'', tn_protocol = ''http'', tn_status = ''open'', tn_opened_at = Some 10, tn_closed_at = None,
     tn_created_at = 10, tn_updated_at = 10\<rparr>"

lemmas example_connect_defs = example_tables_defs example_payload_def agents_Connect_def
  select_live_token_def token_live_def upsert_agent_def touch_agent_token_def exec_def with_defs insert_row_def
  update_rows_def same_def Let_def hash_hex_def [symmetric]

lemma example_connects:
  "fst (example_connect raw) = Inr ''b2c1''" "db_tunnels (snd (example_connect raw)) = []"
  "\<exists>x. find (\<lambda>a. ag_id a = ''b2c1'') (db_agents (snd (example_connect raw))) = Some x \<and> ag_user_id x = ''a1''"
proof -
  have "TrimSpace ''host'' = ''host''" by code_simp
  then show "fst (example_connect raw) = Inr ''b2c1''" "db_tunnels (snd (example_connect raw)) = []"
    "\<exists>x. find (\<lambda>a. ag_id a = ''b2c1'') (db_agents (snd (example_connect raw))) = Some x \<and> ag_user_id x = ''a1''"
    by (simp_all add: example_connect_def example_connect_defs)
qed

lemma example_reopen:
  "fst (ReopenForSession example_pg (Inr ''abcdefghij'') ''b2c1'' ''3000'' (\<lambda>_. quiet_at 10) (snd (example_connect raw)))
     = Inr example_row"
proof -
  obtain x where "find (\<lambda>a. ag_id a = ''b2c1'') (db_agents (snd (example_connect raw))) = Some x" "ag_user_id x = ''a1''"
    using example_connects(3) by blast
  then show ?thesis
    by (simp add: ReopenForSession_def exec_def reopen_tunnel_def insert_tunnel_def with_defs example_connects(2) insert_row_def
        quiet_at_def example_pg_def Let_def example_row_def)
qed

definition example_route :: ActiveTunnel where
  "example_route = \<lparr>at_ID = ''b2c1'', at_Subdomain = ''abcdefghij'', at_AgentID = ''b2c1'', at_UserID = ''a1'',
     at_SessionID = ''ses_AQID'', at_LocalAddress = ''3000''\<rparr>"

lemma example_asks:
  assumes "session_AgentID ''ses_AQID'' g = (''b2c1'', True)"
  shows "asked_tunnel ''ses_AQID'' g [] (SE_Inbound MessageText example_open_message) = Some (''b2c1'', ''3000'')"
    and "gateway_receive [] (MessageText, example_open_message) = Inr ([], [OpenFor \<lparr>otp_RequestID = ''open_1'', otp_LocalAddress = ''3000''\<rparr>])"
proof -
  have "utf8_valid ''open_1''" "utf8_valid ''3000''" by (simp_all add: utf8_valid_def)
  note decoded = gateway_decode_open [OF this, folded example_open_message_def]
  have "TrimSpace ''3000'' = ''3000''" by code_simp
  then show received: "gateway_receive [] (MessageText, example_open_message)
      = Inr ([], [OpenFor \<lparr>otp_RequestID = ''open_1'', otp_LocalAddress = ''3000''\<rparr>])"
    by (simp add: gateway_receive_def decoded)
  show "asked_tunnel ''ses_AQID'' g [] (SE_Inbound MessageText example_open_message) = Some (''b2c1'', ''3000'')"
    using assms by (simp add: received)
qed

lemma example_turn:
  assumes "session_AgentID ''ses_AQID'' (app_gateway s) = (''b2c1'', True)" "app_db s = snd (example_connect raw)"
    and "app_registry s = NewRegistry"
  shows "\<exists>result s'. agent_turn example_cfg example_pg example_tunnel_env ''ses_AQID''
      (SE_Inbound MessageText example_open_message) [] s = Some (result, s')
    \<and> app_registry s' = registry_Open example_route NewRegistry"
proof -
  let ?st = "\<lparr>ss_gateway = app_gateway s, ss_responses = []\<rparr>"
  let ?inp = "turn_input example_cfg example_pg example_tunnel_env s"
  let ?ev = "SE_Inbound MessageText example_open_message"
  have "perform h i inp g (OpenFor payload) \<noteq> None" for h i inp g payload
    by (simp del: not_None_eq split: option.split prod.split bool.split)
  then obtain ok g' out where "perform main_connect ''ses_AQID'' ?inp (app_gateway s)
      (OpenFor \<lparr>otp_RequestID = ''open_1'', otp_LocalAddress = ''3000''\<rparr>) = Some (ok, g', out)" by fast
  then obtain result effects where step: "serve_step main_connect ''ses_AQID'' ?inp ?st ?ev = Some (result, effects)"
    using example_asks(2) [OF assms(1)] by (cases ok) (auto simp del: perform.simps)
  define s1 where "s1 = app_step example_cfg example_pg (OpenTunnelFor (te_generated example_tunnel_env) ''ses_AQID'' ''b2c1'' ''3000''
    (te_open example_tunnel_env)) s"
  have s1: "app_registry s1 = registry_Open example_route NewRegistry"
    using example_reopen [of raw] assms(2,3)
    by (auto simp: s1_def openTunnel_def example_tunnel_env_def example_route_def example_row_def split: prod.splits)
  have "\<forall>e \<in> set effects. \<not> closes_session e"
    using serve_step_effects [OF step] by blast
  then have kept: "app_registry (fold (\<lambda>e. app_step example_cfg example_pg (ConnEffect [] (te_effect example_tunnel_env) e)) effects s1)
      = registry_Open example_route NewRegistry"
    using effects_keep [of effects example_pg "te_effect example_tunnel_env" s1 example_cfg] s1
    by (simp add: example_tunnel_env_def quiet_at_ok)
  have "agent_turn example_cfg example_pg example_tunnel_env ''ses_AQID'' ?ev [] s = Some (result,
      (fold (\<lambda>e. app_step example_cfg example_pg (ConnEffect [] (te_effect example_tunnel_env) e)) effects s1)\<lparr>app_gateway := result_state result\<rparr>)"
    unfolding agent_turn_def step example_asks(1) [OF assms(1)] Let_def by (simp add: s1_def)
  with kept show ?thesis by auto
qed

definition example_conn :: "string \<Rightarrow> connection" where
  "example_conn raw = \<lparr>cn_agent = ''b2c1'', cn_tokenHash = hash_hex raw, cn_cancel = 0, cn_phase = Enrols\<rparr>"

definition example_enrolled :: "string \<Rightarrow> app" where
  "example_enrolled raw = app_step example_cfg example_pg (ConnectAgent raw example_payload (\<lambda>_. quiet_at 3))
     (new_app (example_tables (hash_hex raw)))"

lemma example_session_id: "newSessionID (Some [1, 2, 3]) = Some ''ses_AQID''"
  by (simp add: newSessionID_def b64_char_def b64_alphabet_def)

lemma example_calls_at: "calls_ok example_pg (\<lambda>_. quiet_at n)"
  by (simp add: calls_ok_def quiet_at_ok)

lemma example_enrolled_fields:
  "app_gateway (example_enrolled raw) = new_gateway" "app_db (example_enrolled raw) = snd (example_connect raw)"
  "app_registry (example_enrolled raw) = NewRegistry"
  by (simp_all add: example_enrolled_def new_app_def example_connect_def)

lemma example_enrols:
  "system_step example_cfg example_pg (new_system (example_tables (hash_hex raw)))
     \<lparr>sys_app = example_enrolled raw, sys_conns = [(''ses_AQID'', example_conn raw)]\<rparr>"
proof -
  let ?app = "new_app (example_tables (hash_hex raw))"
  have "fst (agents_Connect example_pg raw example_payload (\<lambda>_. quiet_at 3) (app_db ?app)) = Inr ''b2c1''"
    using example_connects(1) [of raw] by (simp add: example_connect_def new_app_def)
  from system_step.Connects [OF example_session_id _ example_calls_at this, of "[]" example_cfg 0] show ?thesis
    by (simp add: new_system_def example_enrolled_def example_conn_def)
qed

lemma example_system:
  obtains s conns c where
    "system_steps example_cfg example_pg (new_system (example_tables (hash_hex raw))) \<lparr>sys_app = s, sys_conns = conns\<rparr>"
    "registry_Get ''abcdefghij'' (app_registry s) = Some example_route"
    "map_of conns ''ses_AQID'' = Some c" "cn_tokenHash c = hash_hex raw"
proof -
  let ?step = "system_step example_cfg example_pg"
  let ?inp = "valid_hello (Some [1, 2, 3]) ''b2c1'' 0"
  obtain g where g: "handshake main_connect raw ?inp new_gateway = Inr (''ses_AQID'', ''b2c1'', g)"
    using valid_hello_registers [OF example_session_id] by blast
  define s1 where "s1 = (example_enrolled raw)\<lparr>app_gateway := g\<rparr>"
  define c where "c = (example_conn raw)\<lparr>cn_phase := Serves []\<rparr>"
  let ?enrolled = "[(''ses_AQID'', example_conn raw)]"
  let ?conns = "map_put ''ses_AQID'' c ?enrolled"
  have c0: "map_of ?enrolled ''ses_AQID'' = Some (example_conn raw)" "cn_phase (example_conn raw) = Enrols"
    "cn_tokenHash (example_conn raw) = hash_hex raw" "hi_connect ?inp = (\<lambda>_ _. Some (cn_agent (example_conn raw)))"
    "hi_cancel ?inp = cn_cancel (example_conn raw)" "hi_writeOk ?inp"
    by (simp_all add: example_conn_def valid_hello_def example_handshake_def)
  have second: "?step \<lparr>sys_app = example_enrolled raw, sys_conns = ?enrolled\<rparr> \<lparr>sys_app = s1, sys_conns = ?conns\<rparr>"
    using system_step.Registers [OF c0(1-5) g [folded example_enrolled_fields(1) [of raw]]] c0(6) by (simp add: s1_def c_def)
  have s1: "app_gateway s1 = g" "app_db s1 = snd (example_connect raw)" "app_registry s1 = NewRegistry"
    by (simp_all add: s1_def example_enrolled_fields)
  have "session_AgentID ''ses_AQID'' (app_gateway s1) = (''b2c1'', True)"
    using handshake_identity [OF g] by (simp add: session_identity_AgentID s1)
  from example_turn [OF this s1(2,3)] obtain result s2 where
    turn: "agent_turn example_cfg example_pg example_tunnel_env ''ses_AQID'' (SE_Inbound MessageText example_open_message) [] s1
      = Some (result, s2)" and s2: "app_registry s2 = registry_Open example_route NewRegistry" by blast
  have env: "calls_ok example_pg (te_open example_tunnel_env)" "env_ok example_pg (te_effect example_tunnel_env)"
    by (simp_all add: example_tunnel_env_def example_calls_at quiet_at_ok)
  have c1: "map_of ?conns ''ses_AQID'' = Some c" "cn_phase c = Serves []"
    by (simp_all add: c_def)
  note third = system_step.Turns [OF c1 env turn]
  have "system_steps example_cfg example_pg (new_system (example_tables (hash_hex raw)))
      \<lparr>sys_app = s2, sys_conns = map_put ''ses_AQID'' (c\<lparr>cn_phase := phase_after result\<rparr>) ?conns\<rparr>"
    by (intro converse_rtranclp_into_rtranclp [where r = ?step, OF example_enrols] converse_rtranclp_into_rtranclp [where r = ?step, OF second]
        r_into_rtranclp [where r = ?step] third)
  moreover have "registry_Get ''abcdefghij'' (app_registry s2) = Some example_route"
    by (simp add: s2 registry_Get_def registry_Open_def example_route_def NewRegistry_def)
  ultimately show thesis
    by (rule that, simp, simp add: c_def example_conn_def)
qed

section \<open>Properties\<close>

text \<open>
  C4: a public address leads to an agent of the user who owns it. In every state the server can
  reach, with any number of agents connecting, opening tunnels, reconnecting and leaving while
  requests are served, a routed subdomain belongs to a connection that is still there and to a row
  of the table of tunnels with the same id, agent and user; that user is the owner of the token the
  connection was authenticated with; and the session is registered under that agent and token, or
  the connection is leaving and has yet to take the route away. The types of PostgreSQL keep the
  texts they accept.
\<close>

theorem routes_lead_to_their_owner:
  assumes "pg_keeps pg" "db_inv pg db" "system_steps cfg pg (new_system db) \<lparr>sys_app = s, sys_conns = conns\<rparr>"
    and "registry_Get sub (app_registry s) = Some t"
  shows "\<exists>c token row. map_of conns (at_SessionID t) = Some c \<and> cn_agent c = at_AgentID t
    \<and> token \<in> set (db_agent_tokens (app_db s)) \<and> tk_hash token = cn_tokenHash c \<and> tk_user_id token = at_UserID t
    \<and> row \<in> set (db_tunnels (app_db s)) \<and> tn_subdomain row = sub \<and> tn_id row = at_ID t
    \<and> tn_agent_id row = at_AgentID t \<and> tn_user_id row = at_UserID t
    \<and> (session_identity (app_gateway s) (at_SessionID t) = Some (at_AgentID t, tk_hash token, Some (cn_cancel c))
       \<or> CleanupSession (at_SessionID t) (at_AgentID t) \<in> set (to_clean (cn_phase c)))"
proof -
  have inv: "system_inv pg \<lparr>sys_app = s, sys_conns = conns\<rparr>"
    by (rule system_inv_reached [OF assms(3,1,2)])
  note I = system_invD [OF inv]
  have t: "at_Subdomain t = sub" "t \<in> ran (registry_tunnels (app_registry s))"
    using assms(4) I(3) by (auto simp: registry_Get_iff ran_def)
  from I(6) [OF t(2)] obtain c where c: "map_of conns (at_SessionID t) = Some c" "cn_agent c = at_AgentID t"
    "holds_routes (at_SessionID t) c" and "backed (app_db s) t" by (auto simp: route_ok_def)
  then obtain row where row: "row \<in> set (db_tunnels (app_db s))" "tn_id row = at_ID t" "tn_subdomain row = at_Subdomain t"
    "tn_user_id row = at_UserID t" "tn_agent_id row = at_AgentID t" by (auto simp: backed_def)
  from I(5) [OF c(1)] obtain token ag where token: "token \<in> set (db_agent_tokens (app_db s))" "tk_hash token = cn_tokenHash c"
    and ag: "ag \<in> set (db_agents (app_db s))" "ag_id ag = cn_agent c" "ag_user_id ag = tk_user_id token"
    by (auto simp: conn_ok_def vouched_def)
  have ok: "agents_ok (db_agent_tokens (app_db s)) (db_agents (app_db s))" "tunnels_ok (db_agents (app_db s)) (db_tunnels (app_db s))"
    using I(1) by (simp_all add: db_inv_def db_ok_def)
  obtain ag' where ag': "ag' \<in> set (db_agents (app_db s))" "ag_id ag' = at_AgentID t" "ag_user_id ag' = at_UserID t"
    using ok(2) row by (force simp: tunnels_ok_def list_all_iff)
  have "ag' = ag"
    using ok(1) ag ag' c(2) by (metis (no_types, lifting) agents_ok_def distinct_map inj_onD)
  with token ag ag' c row t show ?thesis
    using I(4) by (intro exI [of _ c] exI [of _ token] exI [of _ row]) (auto simp: holds_routes_def conn_identity_def)
qed

theorem routes_lead_to_their_owner_witness:
  "\<exists>s conns token. system_steps example_cfg example_pg (new_system (example_tables (hash_hex ''tkn_1''))) \<lparr>sys_app = s, sys_conns = conns\<rparr>
     \<and> registry_Get ''abcdefghij'' (app_registry s) = Some example_route
     \<and> token \<in> set (db_agent_tokens (app_db s)) \<and> tk_hash token = hash_hex ''tkn_1'' \<and> tk_user_id token = at_UserID example_route"
proof -
  obtain s conns c where run: "system_steps example_cfg example_pg (new_system (example_tables (hash_hex ''tkn_1'')))
      \<lparr>sys_app = s, sys_conns = conns\<rparr>" "registry_Get ''abcdefghij'' (app_registry s) = Some example_route"
    "map_of conns ''ses_AQID'' = Some c" "cn_tokenHash c = hash_hex ''tkn_1''"
    by (rule example_system)
  have "at_SessionID example_route = ''ses_AQID''" by (simp add: example_route_def)
  with routes_lead_to_their_owner [OF example_pg_keeps example_tables_inv run(1,2)] run(3,4)
  obtain token where "token \<in> set (db_agent_tokens (app_db s))" "tk_hash token = hash_hex ''tkn_1''"
    "tk_user_id token = at_UserID example_route" by auto
  with run(1,2) show ?thesis by blast
qed



section \<open>A connection that registers while its token is revoked\<close>

lemma handshake_cancelled: "handshake h raw inp g = Inr (i, a, g') \<Longrightarrow> gs_cancelled g' = gs_cancelled g"
  by (auto simp: handshake_def make_outbound_def session_Register_def Let_def split: option.splits if_splits)

lemma tokens_revoke_204:
  assumes "tokens_revoke env user r w (db, g) = (Replied rep, db', g')" "rep_Status rep = 204"
  obtains hash where "tokens_Revoke (ap_pg env) (usr_ID user) (TrimPrefix (req_Path r) ''/api/v1/agent-tokens/'')
      (later 1 (ap_calls env)) db = (Inr (Some hash), db')" "g' = DisconnectTokenHash hash g"
  using assms
  by (auto simp: tokens_revoke_def Let_def write_defs json_reply_def WriteHeader_def split: prod.splits sum.splits option.splits if_splits)

text \<open>
  C31: a revocation does not reach a connection that is about to register. Take a connection whose
  agent has been recorded and whose session is not registered yet, and a revocation of its token
  that the API answers with 204. Then the token is revoked and the sessions with its hash have been
  cancelled, but the connection's next step registers a session under the revoked token whose
  context is not cancelled: it serves tunnels until it ends by itself.
\<close>

theorem revocation_misses_registering_connection:
  assumes "pg_keeps pg" "db_inv pg db" "system_steps cfg pg (new_system db) \<lparr>sys_app = s, sys_conns = conns\<rparr>"
    and c: "map_of conns i = Some c" "cn_phase c = Enrols"
    and fresh: "cn_cancel c \<notin> set (gs_cancelled (app_gateway s))"
      "\<forall>(j, session) \<in> set (gs_sessions (app_gateway s)). ses_Cancel session \<noteq> Some (cn_cancel c)"
    and named: "\<forall>t \<in> set (db_agent_tokens (app_db s)). tk_hash t = cn_tokenHash c \<longrightarrow>
      pg_uuid pg (TrimPrefix (req_Path r) ''/api/v1/agent-tokens/'') = Some (tk_id t)"
    and reply: "tokens_revoke env user r w (app_db s, app_gateway s) = (Replied rep, db1, g1)" "rep_Status rep = 204"
      "ap_pg env = pg" "calls_ok pg (ap_calls env)"
  shows "token_revoked (cn_tokenHash c) db1
    \<and> (\<exists>s'. system_step cfg pg \<lparr>sys_app = s\<lparr>app_db := db1, app_gateway := g1\<rparr>, sys_conns = conns\<rparr>
             \<lparr>sys_app = s', sys_conns = map_put i (c\<lparr>cn_phase := Serves []\<rparr>) conns\<rparr>
         \<and> session_identity (app_gateway s') i = Some (cn_agent c, cn_tokenHash c, Some (cn_cancel c))
         \<and> cn_cancel c \<notin> set (gs_cancelled (app_gateway s')))"
proof -
  have inv: "system_inv pg \<lparr>sys_app = s, sys_conns = conns\<rparr>"
    by (rule system_inv_reached [OF assms(3,1,2)])
  note I = system_invD [OF inv]
  obtain hash where call: "tokens_Revoke pg (usr_ID user) (TrimPrefix (req_Path r) ''/api/v1/agent-tokens/'')
      (later 1 (ap_calls env)) (app_db s) = (Inr (Some hash), db1)" and g1: "g1 = DisconnectTokenHash hash (app_gateway s)"
    using tokens_revoke_204 [OF reply(1,2)] reply(3) by metis
  note revokes = tokens_Revoke_revokes [OF call calls_ok_later [OF reply(4)] I(1)]
  have path: "db_steps pg (app_db s) db1"
    using revoke_token.call_steps [OF calls_ok_later [OF reply(4)], of "app_db s" "(usr_ID user, TrimPrefix (req_Path r) ''/api/v1/agent-tokens/'')" 1]
      call by simp
  obtain t0 where t0: "t0 \<in> set (db_agent_tokens (app_db s))" "tk_hash t0 = cn_tokenHash c"
    using I(5) [OF c(1)] by (auto simp: conn_ok_def vouched_def)
  obtain t where t: "t \<in> set (db_agent_tokens db1)" "tk_hash t = hash" "tk_id t = tk_id t0"
    using revokes(2) named t0 by auto
  obtain t1 where t1: "t1 \<in> set (db_agent_tokens db1)" "tk_hash t1 = tk_hash t0" "tk_id t1 = tk_id t0"
    using db_steps_facts [OF path] t0(1) unfolding facts_grow_def token_facts_def by (smt (verit) Pair_inject image_iff subset_iff)
  have "inj_on tk_id (set (db_agent_tokens db1))"
    using db_steps_inv [OF path I(1)] by (simp add: db_inv_def db_ok_def agent_tokens_ok_def distinct_map)
  then have hash: "hash = cn_tokenHash c" using t t1 t0(2) by (metis inj_onD)
  obtain raw random where raw: "cn_tokenHash c = hash_hex raw" and random: "newSessionID random = Some i"
    using I(5) [OF c(1)] by (auto simp: conn_ok_def)
  let ?s = "s\<lparr>app_db := db1, app_gateway := g1\<rparr>"
  let ?inp = "valid_hello random (cn_agent c) (cn_cancel c)"
  have inp: "hi_connect ?inp = (\<lambda>_ _. Some (cn_agent c))" "hi_cancel ?inp = cn_cancel c" "hi_writeOk ?inp"
    by (simp_all add: valid_hello_def example_handshake_def)
  obtain g where shake: "handshake main_connect raw ?inp (app_gateway ?s) = Inr (i, cn_agent c, g)"
    using valid_hello_registers [OF random] by blast
  have "cn_cancel c \<notin> set (gs_cancelled g1)"
    using fresh by (auto simp: g1 DisconnectTokenHash_cancels)
  then have "cn_cancel c \<notin> set (gs_cancelled g)"
    using handshake_cancelled [OF shake] by simp
  moreover have "session_identity g i = Some (cn_agent c, cn_tokenHash c, Some (cn_cancel c))"
    using handshake_identity [OF shake] inp(2) raw by simp
  moreover have "system_step cfg pg \<lparr>sys_app = ?s, sys_conns = conns\<rparr>
      \<lparr>sys_app = ?s\<lparr>app_gateway := g\<rparr>, sys_conns = map_put i (c\<lparr>cn_phase := Serves []\<rparr>) conns\<rparr>"
    using system_step.Registers [OF c raw inp(1,2) shake] inp(3) by simp
  ultimately show ?thesis
    using revokes(1) hash by (intro conjI exI [of _ "?s\<lparr>app_gateway := g\<rparr>"]) simp_all
qed

definition example_revoke :: "string \<Rightarrow> http_outcome \<times> database \<times> gateway_state" where
  "example_revoke raw = tokens_revoke example_api \<lparr>usr_ID = ''a1'', usr_Email = ''ann@example.test''\<rparr> revoke_request []
     (snd (example_connect raw), new_gateway)"

lemma example_revoke_tokens:
  "db_agent_tokens (snd (example_connect raw)) = [(example_token (hash_hex raw))\<lparr>tk_last_used_at := Some 3\<rparr>]"
proof -
  have "TrimSpace ''host'' = ''host''" by code_simp
  then show ?thesis by (simp add: example_connect_def example_connect_defs)
qed

lemma example_revoke_path: "TrimPrefix (req_Path revoke_request) ''/api/v1/agent-tokens/'' = ''tk1''"
  by (simp add: revoke_request_def TrimPrefix_def HasPrefix_def)

lemma example_revoke_served:
  "\<exists>rep db1 g1. example_revoke raw = (Replied rep, db1, g1) \<and> rep_Status rep = 204"
proof -
  have "fst (tokens_Revoke example_pg ''a1'' ''tk1'' (later 1 (\<lambda>_. quiet_at 10)) (snd (example_connect raw))) = Inr (Some (hash_hex raw))"
    by (simp add: tokens_Revoke_def later_def exec_def revoke_agent_token_def with_defs Let_def example_revoke_tokens
        example_token_def quiet_at_def example_pg_def)
  then obtain db1 where "tokens_Revoke example_pg ''a1'' ''tk1'' (later 1 (\<lambda>_. quiet_at 10)) (snd (example_connect raw))
      = (Inr (Some (hash_hex raw)), db1)" by (metis prod.collapse)
  then show ?thesis
    unfolding example_revoke_def tokens_revoke_def example_revoke_path by (simp add: example_api_def WriteHeader_def Let_def)
qed

theorem revocation_misses_registering_connection_witness:
  "\<exists>rep db1 g1 s'. example_revoke ''tkn_1'' = (Replied rep, db1, g1) \<and> rep_Status rep = 204 \<and> token_revoked (hash_hex ''tkn_1'') db1
     \<and> system_step example_cfg example_pg
         \<lparr>sys_app = (example_enrolled ''tkn_1'')\<lparr>app_db := db1, app_gateway := g1\<rparr>, sys_conns = [(''ses_AQID'', example_conn ''tkn_1'')]\<rparr>
         \<lparr>sys_app = s', sys_conns = map_put ''ses_AQID'' ((example_conn ''tkn_1'')\<lparr>cn_phase := Serves []\<rparr>) [(''ses_AQID'', example_conn ''tkn_1'')]\<rparr>
     \<and> cn_cancel (example_conn ''tkn_1'') \<notin> set (gs_cancelled (app_gateway s'))"
proof -
  let ?raw = "''tkn_1''"
  let ?c = "example_conn ?raw"
  let ?conns = "[(''ses_AQID'', ?c)]"
  obtain rep db1 g1 where served: "example_revoke ?raw = (Replied rep, db1, g1)" "rep_Status rep = 204"
    using example_revoke_served by blast
  have reach: "system_steps example_cfg example_pg (new_system (example_tables (hash_hex ?raw)))
      \<lparr>sys_app = example_enrolled ?raw, sys_conns = ?conns\<rparr>"
    by (rule r_into_rtranclp [where r = "system_step example_cfg example_pg"]) (rule example_enrols)
  have c: "map_of ?conns ''ses_AQID'' = Some ?c" "cn_phase ?c = Enrols" "cn_tokenHash ?c = hash_hex ?raw"
    by (simp_all add: example_conn_def)
  have fresh: "cn_cancel ?c \<notin> set (gs_cancelled (app_gateway (example_enrolled ?raw)))"
    "\<forall>(j, session) \<in> set (gs_sessions (app_gateway (example_enrolled ?raw))). ses_Cancel session \<noteq> Some (cn_cancel ?c)"
    by (simp_all add: example_enrolled_fields new_gateway_def NewSessionManager_def)
  have named: "\<forall>t \<in> set (db_agent_tokens (app_db (example_enrolled ?raw))). tk_hash t = cn_tokenHash ?c \<longrightarrow>
      pg_uuid example_pg (TrimPrefix (req_Path revoke_request) ''/api/v1/agent-tokens/'') = Some (tk_id t)"
    unfolding example_revoke_path example_enrolled_fields example_revoke_tokens by (simp add: example_token_def example_pg_def)
  have env: "ap_pg example_api = example_pg" "calls_ok example_pg (ap_calls example_api)"
    by (simp_all add: example_api_def example_calls_at)
  from revocation_misses_registering_connection [OF example_pg_keeps example_tables_inv reach c(1,2) fresh named
      served(1) [unfolded example_revoke_def, folded example_enrolled_fields(1,2) [of ?raw]] served(2) env]
  obtain s' where "token_revoked (hash_hex ?raw) db1"
    "system_step example_cfg example_pg \<lparr>sys_app = (example_enrolled ?raw)\<lparr>app_db := db1, app_gateway := g1\<rparr>, sys_conns = ?conns\<rparr>
       \<lparr>sys_app = s', sys_conns = map_put ''ses_AQID'' (?c\<lparr>cn_phase := Serves []\<rparr>) ?conns\<rparr>"
    "cn_cancel ?c \<notin> set (gs_cancelled (app_gateway s'))" unfolding c(3) by blast
  with served show ?thesis by blast
qed

end
