(* ===== verification/Frontend.thy ===== *)
theory Frontend
  imports Auth_Http Agents Tunnel_Service
begin

text \<open>
  The logic of the web interface: \<^verbatim>\<open>frontend/src/api/client.ts\<close>, \<^verbatim>\<open>stores/auth.ts\<close>,
  \<^verbatim>\<open>router/index.ts\<close> and the scripts of the pages under \<^verbatim>\<open>views\<close>. What \<open>fetch\<close> comes back with is an
  argument; a JavaScript value that came out of JSON is a \<open>json\<close>, and \<open>undefined\<close> is \<open>None\<close>.
  Templates and styles have no model.
\<close>

section \<open>The API client\<close>

datatype fetch_result = NetworkFailure string | Response bool "json option"

datatype js_error = FetchError string | TypeErr | Thrown json

type_synonym js_value = "json option"

text \<open>\<open>v.name\<close>: an error for \<open>undefined\<close> and \<open>null\<close>, the last field of that name for an object.\<close>

definition js_field :: "js_value \<Rightarrow> string \<Rightarrow> js_error + js_value" where
  "js_field v name =
     (case v of
        None \<Rightarrow> Inl TypeErr
      | Some JNull \<Rightarrow> Inl TypeErr
      | Some (JObj entries) \<Rightarrow> Inr (map_of (rev entries) name)
      | Some _ \<Rightarrow> Inr None)"

definition default_error :: json where
  "default_error = JObj [(''code'', JStr ''REQUEST_FAILED''), (''message'', JStr ''Request failed'')]"

definition api :: "fetch_result \<Rightarrow> js_error + js_value" where
  "api response =
     (case response of
        NetworkFailure m \<Rightarrow> Inl (FetchError m)
      | Response ok body \<Rightarrow>
          (let body = (case body of None \<Rightarrow> JObj [] | Some v \<Rightarrow> v) in
           if \<not> ok then
             (case js_field (Some body) ''error'' of
                Inl e \<Rightarrow> Inl e
              | Inr None \<Rightarrow> Inl (Thrown default_error)
              | Inr (Some JNull) \<Rightarrow> Inl (Thrown default_error)
              | Inr (Some e) \<Rightarrow> Inl (Thrown e))
           else js_field (Some body) ''data''))"

text \<open>The headers sent: the spread of the options replaces the whole object when they have headers.\<close>

definition api_headers :: "(string \<times> string) list option \<Rightarrow> (string \<times> string) list" where
  "api_headers init = (case init of None \<Rightarrow> [(''Content-Type'', ''application/json'')] | Some headers \<Rightarrow> headers)"

section \<open>The session store\<close>

record auth_store =
  st_accessToken :: js_value
  st_user :: js_value

definition new_store :: auth_store where
  "new_store = \<lparr>st_accessToken = Some (JStr []), st_user = Some JNull\<rparr>"

definition truthy :: "js_value \<Rightarrow> bool" where
  "truthy v = (case v of
     None \<Rightarrow> False | Some JNull \<Rightarrow> False | Some (JBool b) \<Rightarrow> b | Some (JStr s) \<Rightarrow> s \<noteq> []
   | Some (JNum n) \<Rightarrow> list_ex (\<lambda>c. c \<in> set ''123456789'') (takeWhile (\<lambda>c. c \<noteq> CHR ''e'' \<and> c \<noteq> CHR ''E'') n)
   | Some _ \<Rightarrow> True)"

definition authenticated :: "auth_store \<Rightarrow> bool" where
  "authenticated st \<longleftrightarrow> truthy (st_accessToken st) \<and> truthy (st_user st)"

text \<open>\<open>this.accessToken = result.accessToken; this.user = result.user\<close>\<close>

definition take_session :: "js_value \<Rightarrow> auth_store \<Rightarrow> js_error option \<times> auth_store" where
  "take_session result st =
     (case js_field result ''accessToken'' of
        Inl e \<Rightarrow> (Some e, st)
      | Inr token \<Rightarrow>
          (case js_field result ''user'' of
             Inl e \<Rightarrow> (Some e, st\<lparr>st_accessToken := token\<rparr>)
           | Inr user \<Rightarrow> (None, st\<lparr>st_accessToken := token, st_user := user\<rparr>)))"

definition store_login :: "fetch_result \<Rightarrow> auth_store \<Rightarrow> js_error option \<times> auth_store" where
  "store_login response st = (case api response of Inl e \<Rightarrow> (Some e, st) | Inr result \<Rightarrow> take_session result st)"

definition store_register :: "fetch_result \<Rightarrow> fetch_result \<Rightarrow> auth_store \<Rightarrow> js_error option \<times> auth_store" where
  "store_register registered response st = (case api registered of Inl e \<Rightarrow> (Some e, st) | Inr _ \<Rightarrow> store_login response st)"

definition signed_out :: "auth_store \<Rightarrow> auth_store" where
  "signed_out st = st\<lparr>st_accessToken := Some (JStr []), st_user := Some JNull\<rparr>"

definition store_restore :: "fetch_result \<Rightarrow> auth_store \<Rightarrow> auth_store" where
  "store_restore response st =
     (case api response of
        Inl e \<Rightarrow> signed_out st
      | Inr result \<Rightarrow> (case take_session result st of (Some e, st) \<Rightarrow> signed_out st | (None, st) \<Rightarrow> st))"

definition store_logout :: "fetch_result \<Rightarrow> auth_store \<Rightarrow> js_error option \<times> auth_store" where
  "store_logout response st = (case api response of Inl e \<Rightarrow> (Some e, st) | Inr _ \<Rightarrow> (None, signed_out st))"

section \<open>The router\<close>

record route_target =
  to_path :: string
  to_requiresAuth :: bool

definition routes :: "(string \<times> bool) list" where
  "routes = [(''/login'', False), (''/register'', False), (''/app'', True), (''/app/tokens'', True), (''/app/agents'', True),
     (''/app/tunnels'', True)]"

definition resolve :: "string \<Rightarrow> route_target" where
  "resolve path =
     (let path = (if path = ''/'' then ''/app'' else path)
      in \<lparr>to_path = path, to_requiresAuth = (map_of routes path = Some True)\<rparr>)"

definition beforeEach :: "fetch_result \<Rightarrow> route_target \<Rightarrow> auth_store \<Rightarrow> string option \<times> auth_store" where
  "beforeEach response to st =
     (let st = (if \<not> truthy (st_accessToken st) then store_restore response st else st) in
      if to_requiresAuth to \<and> \<not> authenticated st then (Some ''/login'', st)
      else if (to_path to = ''/login'' \<or> to_path to = ''/register'') \<and> authenticated st then (Some ''/app'', st)
      else (None, st))"

text \<open>
  A page under \<open>/app\<close> is shown only to a signed-in user, and nobody is sent in circles: where the
  guard redirects to, it lets through.
\<close>

lemma guard_settles:
  assumes "beforeEach response (resolve path) st = (target, st')"
  shows "(target = None \<and> to_requiresAuth (resolve path) \<longrightarrow> authenticated st')
    \<and> (target = Some p \<longrightarrow> truthy (st_accessToken st') \<or> p = ''/login'')
    \<and> (target = Some p \<and> truthy (st_accessToken st') \<longrightarrow> fst (beforeEach response' (resolve p) st') = None)"
proof -
  define st1 where "st1 = (if \<not> truthy (st_accessToken st) then store_restore response st else st)"
  have login: "resolve ''/login'' = \<lparr>to_path = ''/login'', to_requiresAuth = False\<rparr>"
    and app: "resolve ''/app'' = \<lparr>to_path = ''/app'', to_requiresAuth = True\<rparr>"
    by (simp_all add: resolve_def routes_def)
  have again: "truthy (st_accessToken st1) \<Longrightarrow> beforeEach response' to st1 =
      (if to_requiresAuth to \<and> \<not> authenticated st1 then (Some ''/login'', st1)
       else if (to_path to = ''/login'' \<or> to_path to = ''/register'') \<and> authenticated st1 then (Some ''/app'', st1)
       else (None, st1))" for to
    unfolding beforeEach_def by (simp only: Let_def if_False not_True_eq_False)
  consider "target = Some ''/login''" "\<not> authenticated st1" "st' = st1" | "target = Some ''/app''" "authenticated st1" "st' = st1"
    | "target = None" "to_requiresAuth (resolve path) \<longrightarrow> authenticated st1" "st' = st1"
  proof -
    have "(target, st') = (if to_requiresAuth (resolve path) \<and> \<not> authenticated st1 then (Some ''/login'', st1)
        else if (to_path (resolve path) = ''/login'' \<or> to_path (resolve path) = ''/register'') \<and> authenticated st1
        then (Some ''/app'', st1) else (None, st1))"
      unfolding assms [symmetric] beforeEach_def Let_def st1_def by (rule refl)
    then show thesis using that by (metis prod.inject)
  qed
  then show ?thesis
  proof cases
    case 1
    then show ?thesis using again [of "resolve ''/login''"] by (auto simp: login)
  next
    case 2
    then show ?thesis using again [of "resolve ''/app''"] by (auto simp: app authenticated_def)
  qed auto
qed

text \<open>
  The reply of the login handler puts the store into the state of that user's session, and a
  reply with an error status leaves it alone.
\<close>

lemma login_reply_signs_in:
  assumes "tok_AccessToken tokens \<noteq> []"
  shows "store_login (Response True (Some (JObj [(''data'', session_json user tokens)]))) st =
      (None, \<lparr>st_accessToken = Some (JStr (tok_AccessToken tokens)), st_user = Some (user_json user)\<rparr>)"
    and "authenticated (snd (store_login (Response True (Some (JObj [(''data'', session_json user tokens)]))) st))"
  using assms
  by (simp_all add: store_login_def api_def js_field_def take_session_def session_json_def user_json_def authenticated_def truthy_def)

lemma refused_login:
  "store_login (Response False (Some (error_json code' message))) st =
     (Some (Thrown (JObj [(''code'', JStr code'), (''message'', JStr message)])), st)"
  by (simp add: store_login_def api_def js_field_def error_json_def)

section \<open>The token page\<close>

record tokens_view =
  tv_tokens :: js_value
  tv_name :: string
  tv_revealed :: js_value
  tv_error :: js_value

definition or_else :: "js_value \<Rightarrow> string \<Rightarrow> js_value" where
  "or_else v s = (case v of None \<Rightarrow> Some (JStr s) | Some JNull \<Rightarrow> Some (JStr s) | _ \<Rightarrow> v)"

text \<open>\<open>e.message\<close>; the text of a type error is the engine's.\<close>

definition error_message :: "string \<Rightarrow> js_error \<Rightarrow> js_value" where
  "error_message engine e = (case e of FetchError m \<Rightarrow> Some (JStr m) | TypeErr \<Rightarrow> Some (JStr engine)
     | Thrown v \<Rightarrow> (case js_field (Some v) ''message'' of Inl _ \<Rightarrow> None | Inr m \<Rightarrow> m))"

definition view_load :: "string \<Rightarrow> fetch_result \<Rightarrow> tokens_view \<Rightarrow> tokens_view" where
  "view_load engine response v =
     (case api response of
        Inl e \<Rightarrow> v\<lparr>tv_error := or_else (error_message engine e) ''Unable to load tokens''\<rparr>
      | Inr tokens \<Rightarrow> v\<lparr>tv_tokens := tokens\<rparr>)"

definition view_create :: "string \<Rightarrow> fetch_result \<Rightarrow> fetch_result \<Rightarrow> tokens_view \<Rightarrow> tokens_view" where
  "view_create engine created loaded v =
     (let v = v\<lparr>tv_error := Some (JStr []), tv_revealed := Some (JStr [])\<rparr> in
      case (case api created of Inl e \<Rightarrow> Inl e | Inr result \<Rightarrow> js_field result ''token'') of
        Inl e \<Rightarrow> v\<lparr>tv_error := or_else (error_message engine e) ''Unable to create token''\<rparr>
      | Inr token \<Rightarrow> view_load engine loaded (v\<lparr>tv_revealed := token, tv_name := []\<rparr>))"

definition view_revoke :: "string \<Rightarrow> bool \<Rightarrow> fetch_result \<Rightarrow> fetch_result \<Rightarrow> tokens_view \<Rightarrow> js_error option \<times> tokens_view" where
  "view_revoke engine confirmed revoked loaded v =
     (if \<not> confirmed then (None, v)
      else case api revoked of Inl e \<Rightarrow> (Some e, v) | Inr _ \<Rightarrow> (None, view_load engine loaded v))"

section \<open>The pages of agents and tunnels\<close>

record list_view =
  lv_items :: js_value
  lv_error :: js_value
  lv_loading :: bool

definition new_list_view :: list_view where
  "new_list_view = \<lparr>lv_items = Some (JArr []), lv_error = Some (JStr []), lv_loading = True\<rparr>"

text \<open>\<open>load\<close>, the same on both pages but for the text of the error.\<close>

definition list_load :: "string \<Rightarrow> string \<Rightarrow> fetch_result \<Rightarrow> list_view \<Rightarrow> list_view" where
  "list_load unable engine response v =
     (let v = v\<lparr>lv_loading := True, lv_error := Some (JStr [])\<rparr>;
          v = (case api response of
                 Inl e \<Rightarrow> v\<lparr>lv_error := or_else (error_message engine e) unable\<rparr>
               | Inr items \<Rightarrow> v\<lparr>lv_items := items\<rparr>)
      in v\<lparr>lv_loading := False\<rparr>)"

text \<open>\<open>value.filter(p).length\<close>: only an array has \<open>filter\<close>, and \<open>p\<close> may throw.\<close>

fun count_items :: "(json \<Rightarrow> js_error + bool) \<Rightarrow> json list \<Rightarrow> js_error + nat" where
  "count_items p [] = Inr 0"
| "count_items p (x # xs) =
     (case p x of
        Inl e \<Rightarrow> Inl e
      | Inr b \<Rightarrow> (case count_items p xs of Inl e \<Rightarrow> Inl e | Inr n \<Rightarrow> Inr (if b then Suc n else n)))"

definition js_count :: "(json \<Rightarrow> js_error + bool) \<Rightarrow> js_value \<Rightarrow> js_error + nat" where
  "js_count p v = (case v of Some (JArr xs) \<Rightarrow> count_items p xs | _ \<Rightarrow> Inl TypeErr)"

definition online :: "js_value \<Rightarrow> js_error + nat" where
  "online = js_count (\<lambda>agent. case js_field (Some agent) ''connected'' of Inl e \<Rightarrow> Inl e | Inr v \<Rightarrow> Inr (truthy v))"

definition activeCount :: "js_value \<Rightarrow> js_error + nat" where
  "activeCount = js_count (\<lambda>tunnel. case js_field (Some tunnel) ''status'' of Inl e \<Rightarrow> Inl e | Inr v \<Rightarrow> Inr (v = Some (JStr ''open'')))"

definition activeTokens :: "js_value \<Rightarrow> js_error + nat" where
  "activeTokens = js_count (\<lambda>token. case js_field (Some token) ''revokedAt'' of Inl e \<Rightarrow> Inl e | Inr v \<Rightarrow> Inr (\<not> truthy v))"

section \<open>The dashboard\<close>

record dashboard_view =
  dv_tunnels :: js_value
  dv_agents :: js_value
  dv_tokens :: js_value
  dv_traffic :: js_value
  dv_loading :: bool

definition settled :: "fetch_result \<Rightarrow> js_value \<Rightarrow> js_value" where
  "settled response v = (case api response of Inl e \<Rightarrow> v | Inr w \<Rightarrow> w)"

definition dashboard_load ::
    "fetch_result \<Rightarrow> fetch_result \<Rightarrow> fetch_result \<Rightarrow> fetch_result \<Rightarrow> dashboard_view \<Rightarrow> dashboard_view" where
  "dashboard_load t a k tr v =
     \<lparr>dv_tunnels = settled t (dv_tunnels v), dv_agents = settled a (dv_agents v), dv_tokens = settled k (dv_tokens v),
      dv_traffic = settled tr (dv_traffic v), dv_loading = False\<rparr>"

section \<open>Signing in and registering\<close>

text \<open>The page's error, where it navigates, and the store.\<close>

definition login_submit :: "string \<Rightarrow> fetch_result \<Rightarrow> auth_store \<Rightarrow> js_value \<times> string option \<times> auth_store" where
  "login_submit engine response st =
     (case store_login response st of
        (None, st) \<Rightarrow> (Some (JStr []), Some ''/app'', st)
      | (Some e, st) \<Rightarrow> (or_else (error_message engine e) ''Login failed'', None, st))"

definition register_submit ::
    "string \<Rightarrow> string \<Rightarrow> string \<Rightarrow> fetch_result \<Rightarrow> fetch_result \<Rightarrow> auth_store \<Rightarrow> js_value \<times> string option \<times> auth_store" where
  "register_submit engine password confirm created response st =
     (if password \<noteq> confirm then (Some (JStr ''Passwords do not match''), None, st)
      else
        case store_register created response st of
          (None, st) \<Rightarrow> (Some (JStr []), Some ''/app'', st)
        | (Some e, st) \<Rightarrow> (or_else (error_message engine e) ''Registration failed'', None, st))"

text \<open>
  What the pages count is what the tables say. The replies are those of the handlers of \<open>Agents\<close>,
  \<open>Tunnel_Service\<close> and \<open>Agent_Tokens\<close>; a time is written as a string that is not empty.
\<close>

definition data_reply :: "json \<Rightarrow> fetch_result" where
  "data_reply v = Response True (Some (JObj [(''data'', v)]))"

lemma api_data_reply [simp]: "api (data_reply v) = Inr (Some v)"
  by (simp add: data_reply_def api_def js_field_def)

lemma count_items_map:
  "(\<And>x. p (f x) = Inr (P x)) \<Longrightarrow> count_items p (map f xs) = Inr (length (filter P xs))"
  by (induction xs) simp_all

lemma pages_count_rows:
  shows "online (lv_items (list_load unable engine (data_reply (JArr (map (Agent_json time) agents))) v))
      = Inr (length (filter ag_connected agents))"
    and "activeCount (lv_items (list_load unable engine (data_reply (JArr (map (Tunnel_json time) tunnels))) v))
      = Inr (length (filter (\<lambda>t. tn_status t = ''open'') tunnels))"
    and "(\<And>t. truthy (Some (time t))) \<Longrightarrow> activeTokens (settled (data_reply (JArr (map (Token_json time) tokens))) w)
      = Inr (length (filter (\<lambda>t. tk_revoked_at t = None) tokens))"
proof -
  show "online (lv_items (list_load unable engine (data_reply (JArr (map (Agent_json time) agents))) v))
      = Inr (length (filter ag_connected agents))"
    unfolding online_def js_count_def list_load_def
    by (simp, intro count_items_map) (simp add: js_field_def Agent_json_def truthy_def)
  show "activeCount (lv_items (list_load unable engine (data_reply (JArr (map (Tunnel_json time) tunnels))) v))
      = Inr (length (filter (\<lambda>t. tn_status t = ''open'') tunnels))"
    unfolding activeCount_def js_count_def list_load_def
    by (simp, intro count_items_map) (simp add: js_field_def Tunnel_json_def)
  show "activeTokens (settled (data_reply (JArr (map (Token_json time) tokens))) w)
      = Inr (length (filter (\<lambda>t. tk_revoked_at t = None) tokens))" if times: "\<And>t. truthy (Some (time t))"
    unfolding activeTokens_def js_count_def settled_def
  proof (simp, intro count_items_map)
    fix t
    show "(case js_field (Some (Token_json time t)) ''revokedAt'' of Inl e \<Rightarrow> Inl e | Inr v \<Rightarrow> Inr (\<not> truthy v)) = Inr (tk_revoked_at t = None)"
      using times by (cases "tk_revoked_at t") (simp_all add: js_field_def Token_json_def opt_time_def truthy_def [of "Some JNull"])
  qed
qed

text \<open>A failed request never clears what a page shows: the dashboard keeps each of its lists.\<close>

lemma dashboard_keeps_on_failure:
  "api t = Inl e \<Longrightarrow> dv_tunnels (dashboard_load t a k tr v) = dv_tunnels v"
  "api a = Inl e \<Longrightarrow> dv_agents (dashboard_load t a k tr v) = dv_agents v"
  "lv_items (list_load unable engine response l) = (case api response of Inl e \<Rightarrow> lv_items l | Inr items \<Rightarrow> items)"
  by (simp_all add: dashboard_load_def settled_def list_load_def Let_def split: sum.split)

end
