(* ===== verification/Spec2Isabelle.thy ===== *)
theory Spec2Isabelle
  imports Frames Chunk_Assembler Public_Host Rate_Limiter Tunnel_Registry Session_Manager Proxy_Headers
    Messages Local_Http Agent_Client Agent_Connect Public_Handler End_To_End
    Auth_Http Agent_Main Main_Server Tunnel_Lifecycle Agent_Access Traffic_Flush
    Server_Process Route_Ownership Frontend
begin

text \<open>
  Verification of myNgrok, a self-hosted HTTP tunnel. A public client asks the backend for
  \<^verbatim>\<open><subdomain>.<base domain>\<close>; the backend (\<^verbatim>\<open>src/backend\<close>) sends the request over a WebSocket to
  the agent (\<^verbatim>\<open>src/agent\<close>) that opened the tunnel; the agent asks the service on its own machine
  and sends the answer back the same way. Users register, create tokens for their agents and see
  agents, tunnels and traffic through a web interface (\<^verbatim>\<open>src/frontend\<close>) on a JSON API; PostgreSQL
  keeps what has to survive a restart.

  \<^bold>\<open>How the programs are modelled.\<close> Go maps are association lists (\<open>gomap\<close>), strings lists of bytes,
  \<open>uintN\<close> words, times nanoseconds since year 1, errors the left side of a sum. Every method is a
  function of the state it reads and the next state. A method that blocks or gives up its lock is
  split there, and what other goroutines do in between is an event or an argument. Randomness,
  the clock, the network, bcrypt and what PostgreSQL makes of an argument are arguments; where a
  theorem needs something of them it is a named hypothesis (\<open>pg_keeps\<close>, \<open>canonical\<close>, \<open>calls_ok\<close>).
  The parts of the Go library the programs rely on are modelled on bytes.

  \<^bold>\<open>Theories, in the order of the program.\<close>

  \<^item> \<open>Go_Prelude\<close>, \<open>Go_Strings\<close>, \<open>Go_Json\<close>, \<open>Go_Http\<close>, \<open>Encodings\<close>, \<open>Sha256\<close>: the language and its
    library: maps, channels, \<^verbatim>\<open>strings\<close>, \<^verbatim>\<open>encoding/json\<close>, \<^verbatim>\<open>net/http\<close> replies and body readers,
    base64, hex, SHA-256 and HMAC.

  \<^item> \<open>Frames\<close>, \<open>Messages\<close>: the wire protocol of both programs (\<^verbatim>\<open>internal/protocol\<close>;
    \<^verbatim>\<open>gatewayclient/frame.go\<close>, \<^verbatim>\<open>protocol.go\<close>). Locale \<open>byte_codec\<close>, interpreted on the four pairs of
    encoder and decoder: the codecs are inverse to each other and across programs.

  \<^item> \<open>Chunk_Assembler\<close>: bodies cut into numbered chunks (\<^verbatim>\<open>chunk_assembler.go\<close>). Locale
    \<open>chunk_receiver\<close>, interpreted on the agent's assembler and on the gateway's.

  \<^item> \<open>Demux\<close>: many requests on one connection. Locale \<open>demux\<close>, interpreted on both read loops: the
    messages of one request are handled as if they were alone.

  \<^item> \<open>Local_Http\<close>, \<open>Agent_Client\<close>, \<open>Agent_Main\<close>: the agent (\<^verbatim>\<open>local_http.go\<close>, \<^verbatim>\<open>client.go\<close>,
    \<^verbatim>\<open>cmd/tunnel-agent/main.go\<close>): local exchange, read loop, worker pool, jobs, reconnecting, command
    line.

  \<^item> \<open>Session_Manager\<close>, \<open>Agent_Connect\<close>: the gateway (\<^verbatim>\<open>internal/gateway\<close>). The manager's channels are
    addresses in the state; \<open>sm_step\<close> is one call of any goroutine, and locale \<open>mailboxes\<close> carries
    the properties that hold in every interleaving. A connection is the handshake, the turns of its
    select loop (\<open>serve_step\<close>) between calls of others, and the deferred cleanup.

  \<^item> \<open>Public_Host\<close>, \<open>Rate_Limiter\<close>, \<open>Tunnel_Registry\<close>, \<open>Proxy_Headers\<close>, \<open>Public_Handler\<close>: public
    requests (\<^verbatim>\<open>internal/tunnels\<close>). Locales \<open>window_limiter\<close> (both limiters), \<open>route_table\<close> (the
    registry refines one map of open tunnels), \<open>header_filter\<close> (both filters).

  \<^item> \<open>Store\<close>, \<open>Statements\<close>: the tables of \<^verbatim>\<open>migrations/*.up.sql\<close> as records and each SQL statement of
    the services as a definition. \<open>exec\<close> runs one while other calls may change the database before
    it, and may fail before or after it took effect. \<open>db_step\<close> is any statement that changes
    something; what all of them keep is proved once, and locale \<open>db_service\<close> gives it to every
    service call interpreted in it.

  \<^item> \<open>Auth_Service\<close>, \<open>Web_Api\<close>, \<open>Auth_Http\<close>, \<open>Agent_Tokens\<close>, \<open>Agents\<close>, \<open>Tunnel_Service\<close>, \<open>Traffic\<close>: the
    services and the handlers of the JSON API.

  \<^item> \<open>Server\<close>, \<open>Config\<close>, \<open>Migrations\<close>: middleware, routes and metrics (\<^verbatim>\<open>internal/server\<close>), the
    environment (\<^verbatim>\<open>internal/config\<close>), opening the database and migrating it. Locale
    \<open>request_relation\<close>: what every handler keeps, every request keeps.

  \<^item> \<open>Main_Server\<close>: \<^verbatim>\<open>cmd/server/main.go\<close>: the state of the process, its handlers, the closures
    between gateway and services, the flush, the start; \<open>activity\<close> is everything that reaches the
    database. \<open>Server_Process\<close>: \<open>main\<close> and the goroutines of \<open>run\<close> (flusher, listener, the select that
    waits for a signal) as steps of one process.

  \<^item> \<open>Gateway_System\<close>, \<open>Route_Ownership\<close>: all agent connections at once. \<open>system_step\<close> interleaves the
    steps of the connections with one another and with everything else; \<open>system_inv\<close> relates the
    sessions of the manager, the routing table and the tables of the database in every state the
    server reaches, and so discharges the well-formedness other theories assume of the routing table.

  \<^item> \<open>Tunnel_Lifecycle\<close>, \<open>Agent_Access\<close>, \<open>Traffic_Flush\<close>, \<open>End_To_End\<close> and this theory: properties
    that span components. \<open>Frontend\<close>: the logic of the web interface.

  \<^bold>\<open>What is shown.\<close> End to end: the request the local service gets is the public one, the answer is
  delivered once and unchanged, the handshake agrees, heartbeats keep a session alive, and how many
  uploads may be open at once (this theory). The running server: every routed address leads to a live
  connection of the user who owns it, every connection can leave and takes its routes with it, and
  after a signal the process finishes in order. Gateway: at most one answer per request, answering
  never blocks, a removed session fails exactly its requests, queues are first in, first out, a
  connection cannot stall and leaves nothing behind, memory for responses is bounded. Public side:
  the exact messages, calls and replies on every branch, the routing table, header filtering, host
  names, rate limits, accounting. Accounts: registration and login, single use and revocation of
  refresh tokens, isolation between users, revoked agent tokens. Data: the tables are well formed
  whatever happens, tunnels keep their address, traffic is flushed exactly, migrations run once.
  Some theorems state behaviour that differs from what the code or its documentation intends:
  \<open>logout_revokes_only_in_development\<close>, \<open>overlapping_refreshes_both_pass\<close>,
  \<open>late_cleanup_hides_live_tunnel\<close>, \<open>revocation_misses_registering_connection\<close>,
  \<open>broken_reply_looks_complete\<close>, \<open>concurrent_uploads\<close>, \<open>reconnect_backoff\<close>.

  \<^bold>\<open>Bounds.\<close> Loops recurse over the input they consume (reads of a body, messages, rows), and a
  call that has not returned is the value \<open>Waiting\<close> or \<open>None\<close>, so that returning is part of what is
  proved. Only the JSON parser has fuel, twice the length of the text and two; \<open>json_parse_fuel\<close>
  shows that more changes nothing. Limits are those of the source (32 KiB chunks, 32 MiB bodies,
  64 KiB messages, queues of 32).

  \<^bold>\<open>Not modelled.\<close> TLS, TCP and the WebSocket framing under \<^verbatim>\<open>coder/websocket\<close>; how \<open>net/http\<close> puts a
  reply on the wire and manages connections; constructors and accessors that only store or return a
  pointer; messages no program sends (\<^verbatim>\<open>close_tunnel\<close>, \<^verbatim>\<open>error\<close>); bcrypt; the text of PostgreSQL's errors; scheduling
  and timers (they are the choice of the next event); floating-point output (\<^verbatim>\<open>formatBytes\<close>, the
  seconds of the metrics page); templates, styles and the layout of the web interface; the down
  migrations, which no program runs; deployment files and build scripts.
\<close>

section \<open>From the public client to the local service and back\<close>

text \<open>
  C1: a public request reaches the local service unchanged. Take a request that the public
  handler admits and uploads completely, and an agent whose session stays up and whose
  incoming messages for this request are those the handler got accepted, in whatever way they
  are interleaved with the messages of other requests. Then the agent starts exactly one
  request under that id: the same method, URI and body, and the headers the gateway prepared
  (as JSON delivers them, in the order of their names), and keeps nothing of it.
\<close>

theorem request_reaches_local_service:
  fixes b :: "byte list"
  defines "i \<equiv> ''req_'' @ hex_EncodeToString b"
  assumes "admitted uni baseDomain registry env r limiter tunnel" and "uploaded env b"
    and "fst (public_ServeHTTP uni message baseDomain registry env w r limiter) = (result, actions)"
    and "utf8_request (request_payload uni r i)"
    and "req_ContentLength r = -1 \<or> req_ContentLength r = int (length (body_of (pe_reads env)))"
    and "32 * 2 ^ 20 \<le> maxAlloc"
    and "run_eff (agent_step maxAlloc) [] ms = Some (pending, effects)"
    and "filter (\<lambda>m. agent_key m = Some i) ms = map wire (accepted_messages actions)"
  shows "filter (\<lambda>e. effect_key e = Some i) effects =
      [StartJob \<lparr>rq_ID = i, rq_Method = req_Method r, rq_Path = req_RequestURI r,
         rq_Headers = sort_key fst (publicRequestHeaders uni r i), rq_Body = body_of (pe_reads env)\<rparr>]
    \<and> map_of pending i = None"
proof -
  let ?p = "request_payload uni r i"
  have id: "hrq_RequestID ?p = i" "i \<noteq> []" "length i < 65536"
    using request_id_ok [of b] assms(3) by (simp_all add: request_payload_def i_def uploaded_def)
  have len: "req_ContentLength r \<le> maxAlloc" "0 \<le> maxAlloc"
    using assms(3,6,7) by (auto simp: uploaded_def)
  have "filter (\<lambda>m. agent_key m = Some i) ms = map wire (upload_sequence ?p (chunks_of (pe_reads env)))"
    using assms(9) uploaded_messages [OF assms(2-4)] by (simp add: i_def)
  moreover have "run_eff (agent_kstep maxAlloc) None (map wire (upload_sequence ?p (chunks_of (pe_reads env))))
      = Some (None, [StartJob (started_request ?p (body_of (pe_reads env)))])"
    using upload_received [OF assms(5), of "chunks_of (pe_reads env)" maxAlloc] chunk_sizes [of "pe_reads env"] id len assms(3,6)
    by (simp add: request_payload_def uploaded_def)
  ultimately show ?thesis
    using agent_loop.run_own [OF assms(8), of i]
    by (simp add: pending_inv_def started_request_def request_payload_def nil_header_def)
qed

definition empty_env :: public_env where
  "empty_env = example_env\<lparr>pe_reads := [([], EOF)]\<rparr>"

lemma empty_env_ok:
  "admitted (\<lambda>s. s) ''example.com'' example_registry empty_env example_request
     (newPublicRateLimiter publicRateLimit publicRateWindow) routed_tunnel"
  "uploaded empty_env (replicate 12 0)"
  using example_admitted
  by (simp_all add: admitted_def empty_env_def uploaded_def example_env_def small_body_def body_of_def)

lemma example_request_utf8:
  "utf8_request (request_payload (\<lambda>s. s) example_request (''req_'' @ hex_EncodeToString (replicate 12 0)))"
  by (code_simp, simp add: utf8_header_def int64_def maxInt64_def utf8_valid_def wf_map_def)

theorem request_reaches_local_service_witness:
  "\<exists>result actions pending effects.
     fst (public_ServeHTTP (\<lambda>s. s) (\<lambda>_. []) ''example.com'' example_registry empty_env [] example_request
       (newPublicRateLimiter publicRateLimit publicRateWindow)) = (result, actions)
     \<and> run_eff (agent_step (2 ^ 40)) [] (map wire (accepted_messages actions)) = Some (pending, effects)
     \<and> length (filter (\<lambda>e. effect_key e = Some (''req_'' @ hex_EncodeToString (replicate 12 0))) effects) = 1"
proof -
  let ?i = "''req_'' @ hex_EncodeToString (replicate 12 0)"
  let ?p = "request_payload (\<lambda>s. s) example_request ?i"
  obtain result actions where run: "fst (public_ServeHTTP (\<lambda>s. s) (\<lambda>_. []) ''example.com'' example_registry empty_env []
      example_request (newPublicRateLimiter publicRateLimit publicRateWindow)) = (result, actions)"
    by (metis prod.collapse)
  have seq: "accepted_messages actions = upload_sequence ?p []"
    using uploaded_messages [OF empty_env_ok run] by (simp add: empty_env_def chunks_of_def)
  have p: "hrq_RequestID ?p = ?i" "hrq_ContentLength ?p = 0" "length ?i < 65536"
    by (simp_all add: request_payload_def example_request_def)
  obtain pending effects where ag: "run_eff (agent_step (2 ^ 40)) [] (map wire (accepted_messages actions)) = Some (pending, effects)"
    using upload_alone [OF example_request_utf8, of "[]" "2 ^ 40"] p unfolding seq by auto
  have "filter (\<lambda>m. agent_key m = Some ?i) (map wire (accepted_messages actions)) = map wire (accepted_messages actions)"
    using upload_keys [OF example_request_utf8, of "[]"] p unfolding seq by (auto simp: filter_id_conv simp del: set_map)
  from request_reaches_local_service [OF empty_env_ok run example_request_utf8 _ _ ag this] run ag
  show ?thesis by (auto simp: empty_env_def body_of_def example_request_def)
qed

text \<open>
  C2: the local service's answer reaches the public client unchanged. Take a job whose local
  service answers with a complete body of at most 32 MiB, and a gateway session that stays up
  and whose incoming messages for this request are those of the job, interleaved in whatever
  way with those of other requests. Then exactly one response is delivered for the request,
  with the status, the body and the headers without the hop-by-hop ones, and the public
  handler that receives it answers with them.
\<close>

theorem response_reaches_public_client:
  fixes request :: agent_Request
  defines "i \<equiv> rq_ID request"
  defines "response \<equiv> \<lambda>status header body. \<lparr>res_StatusCode = status,
    res_Headers = sort_key fst (agent_withoutHopByHopHeaders header), res_Body = body, res_Error = []\<rparr>"
  assumes "normalizeLocalAddress localAddress = Inr base"
    and "newRequest (rq_Method request) (base @ rq_Path request) = None"
    and "exch (local_request base request) = Exchange status header reads"
    and "i \<noteq> []" and "length i < 65536"
    and "small_reads reads" and "whole_body reads" and "length (body_of reads) \<le> 32 * 2 ^ 20"
    and "utf8_response (start_payload i status header)"
    and "wf_map responses" and "run_eff gateway_step responses ms = Some (responses', effects)"
    and "filter (\<lambda>m. gateway_key m = Some i) ms
      = map wire (jb_sent (snd (run_job message newRequest exch localAddress request [])))"
  shows "filter (\<lambda>e. gateway_effect_key e = Some i) effects = [Deliver i (response status header (body_of reads))]
    \<and> map_of responses' i = None
    \<and> fst (answer tunnel i r w (GotResponse (response status header (body_of reads))) st)
      = WriteHeader status
          (fold add_values (withoutHopByHopHeaders (sort_key fst (agent_withoutHopByHopHeaders header))) w) (body_of reads)"
proof -
  let ?p = "start_payload i status header"
  have ends: "reads_end reads = Returned None" "reads_taken reads = reads"
    using whole_reads [OF assms(9)] by simp_all
  have sent: "jb_sent (snd (run_job message newRequest exch localAddress request []))
      = download_sequence ?p (chunks_of reads)"
    using run_job_reply(2) [where message = message and newRequest = newRequest and exch = exch, OF assms(3-5)] assms(6-8) ends
    by (simp add: i_def download_sequence_def start_payload_def)
  have "\<forall>c \<in> set (chunks_of reads). length c \<le> maxBinaryFramePayload"
    using assms(8) by (auto simp: small_reads_def chunks_of_def)
  then have "run_eff gateway_kstep v (map wire (download_sequence ?p (chunks_of reads)))
      = Some (None, [Deliver i (delivered_response ?p (body_of reads))])" for v
    using download_received [OF assms(11), of "chunks_of reads" v] assms(6,7,10)
    by (simp add: start_payload_def maxTunnelResponseBodyBytes_def)
  with sent assms(14) have "filter (\<lambda>e. gateway_effect_key e = Some i) effects = [Deliver i (delivered_response ?p (body_of reads))]
      \<and> map_of responses' i = None"
    using gateway_loop.run_own [OF assms(13,12), of i] by simp
  then show ?thesis
    by (simp add: delivered_response_def start_payload_def nil_header_def response_def)
qed

theorem response_reaches_public_client_witness:
  "\<exists>responses' effects. run_eff gateway_step [] (map wire (jb_sent (snd (run_job (\<lambda>_. []) (\<lambda>_ _. None)
       (\<lambda>_. Exchange 200 [] [([], EOF)]) (show_nat 3000) example_agent_request [])))) = Some (responses', effects)
     \<and> filter (\<lambda>e. gateway_effect_key e = Some ''r'') effects
       = [Deliver ''r'' \<lparr>res_StatusCode = 200, res_Headers = [], res_Body = [], res_Error = []\<rparr>]"
proof -
  let ?exch = "\<lambda>_. Exchange 200 [] [([], EOF)]"
  let ?base = "''http://127.0.0.1:'' @ show_nat 3000"
  let ?p = "start_payload ''r'' 200 []"
  have addr: "normalizeLocalAddress (show_nat 3000) = Inr ?base"
    by (rule normalizeLocalAddress_port) simp_all
  have reads: "small_reads [([], EOF)]" "reads_end [([], EOF)] = Returned None"
    "chunks_of (reads_taken [([], EOF)]) = []"
    by (simp_all add: small_reads_def chunks_of_def)
  have filtered: "agent_withoutHopByHopHeaders [] = []"
    by code_simp
  then have utf8: "utf8_response ?p"
    by (simp add: start_payload_def utf8_response_def utf8_valid_def utf8_header_def int64_def maxInt64_def)
  have sent: "jb_sent (snd (run_job (\<lambda>_. []) (\<lambda>_ _. None) ?exch (show_nat 3000) example_agent_request []))
      = download_sequence ?p []"
    using run_job_reply(2) [OF addr, of "\<lambda>_ _. None" example_agent_request ?exch 200 "[]" "[([], EOF)]" None "\<lambda>_. []"] reads
    by (simp add: example_agent_request_def download_sequence_def start_payload_def)
  let ?ms = "map wire (download_sequence ?p [])"
  have "map gateway_decode ?ms = [Inr (G_Start (gateway_response ?p)), Inr (G_End ''r'')]"
    using download_decoded [OF utf8, of "[]"] by (simp add: start_payload_def)
  then obtain responses' effects where gw: "run_eff gateway_step [] ?ms = Some (responses', effects)"
    by (auto simp: gateway_step_def gateway_receive_def gateway_response_def start_payload_def
        maxTunnelResponseBodyBytes_def maxPendingResponseStreams_def map_eq_Cons_conv)
  have own: "filter (\<lambda>m. gateway_key m = Some ''r'') ?ms = ?ms"
    using download_keys [OF utf8, of "[]"] by (auto simp: filter_id_conv start_payload_def simp del: set_map)
  show ?thesis
    using response_reaches_public_client [OF addr, of "\<lambda>_ _. None" example_agent_request ?exch 200 "[]" "[([], EOF)]" "[]"
        ?ms responses' effects "\<lambda>_. []"] reads utf8 gw own sent filtered
    by (auto simp: example_agent_request_def body_of_def)
qed

section \<open>Sessions\<close>

text \<open>
  C14: an agent and a gateway agree on their session. The gateway accepts the hello the agent
  sends, registers one session with the hash of the token and an empty queue for 32 messages,
  and the hello it answers with makes the agent take that same session id; the request the
  agent then sends to open its tunnel is taken as a request to open one for its local address.
\<close>

theorem handshake_agrees:
  assumes "list_all utf8_valid [cfg_Version cfg, hostname, goos, goarch]"
    and "hi_read inp = Some (hello_message cfg hostname goos goarch)" and "hi_random inp = Some bytes"
    and "ch_agents h \<longrightarrow> hi_connect inp rawToken
      \<lparr>chp_ProtocolVersion = 1, chp_AgentVersion = cfg_Version cfg, chp_InstanceID = hostname,
       chp_Hostname = hostname, chp_OS = goos, chp_Arch = goarch\<rparr> = Some agentID"
    and "\<not> ch_agents h \<longrightarrow> agentID = []" and "hi_now inp \<noteq> 0"
  shows "\<exists>sessionID s1 session c. handshake h rawToken inp s = Inr (sessionID, agentID, s1)
    \<and> map_of (gs_sessions s1) sessionID = Some session \<and> ses_AgentTokenHash session = hash_hex rawToken
    \<and> ses_AgentID session = agentID \<and> ses_LastSeen session = hi_now inp
    \<and> ses_Outbound session = Some c \<and> c < length (gs_outbound s1) \<and> gs_outbound s1 ! c = \<lparr>ch_cap = 32, ch_buf = []\<rparr>
    \<and> read_server_hello (server_hello_message sessionID) = Inr sessionID
    \<and> (utf8_valid (TrimSpace (cfg_LocalAddress cfg)) \<longrightarrow>
        (case open_message cfg sessionID of
           None \<Rightarrow> TrimSpace (cfg_LocalAddress cfg) = []
         | Some d \<Rightarrow> gateway_decode (MessageText, d) =
             Inr (G_Open \<lparr>otp_RequestID = ''open_'' @ sessionID, otp_LocalAddress = TrimSpace (cfg_LocalAddress cfg)\<rparr>)))"
proof -
  let ?sid = "''ses_'' @ RawURL_EncodeToString bytes"
  have utf8: "utf8_valid ?sid" "utf8_valid (''open_'' @ ?sid)"
    using RawURL_chars [of bytes] by (intro id_chars_utf8; simp add: id_char_def is_lower_def)+
  have "read_server_hello (server_hello_message ?sid) = Inr ?sid"
    using agent_reads_server_hello [of "\<lparr>shp_ProtocolVersion = protocol_Version, shp_SessionID = ?sid,
        shp_HeartbeatIntervalSeconds = defaultHeartbeatInterval div Second\<rparr>"] utf8(1)
    by (simp add: read_server_hello_def server_hello_message_def ServerHello_def protocol_Version_def
        protocolVersion_def int64_def maxInt64_def)
  moreover have "gateway_decode (MessageText, d) =
      Inr (G_Open \<lparr>otp_RequestID = ''open_'' @ ?sid, otp_LocalAddress = TrimSpace (cfg_LocalAddress cfg)\<rparr>)"
    if "open_message cfg ?sid = Some d" "utf8_valid (TrimSpace (cfg_LocalAddress cfg))" for d
    using gateway_decode_open [OF utf8(2) that(2)] that(1) by (auto simp: open_message_def Let_def split: if_splits)
  moreover have "Unmarshal (typed_struct ClientHelloPayload_struct) (hello_message cfg hostname goos goarch) ([], zero_ClientHello)
      = Some (ClientHello, \<lparr>chp_ProtocolVersion = 1, chp_AgentVersion = cfg_Version cfg, chp_InstanceID = hostname,
          chp_Hostname = hostname, chp_OS = goos, chp_Arch = goarch\<rparr>)"
    using gateway_reads_client_hello [of "\<lparr>ach_ProtocolVersion = protocolVersion, ach_AgentVersion = cfg_Version cfg,
        ach_InstanceID = hostname, ach_Hostname = hostname, ach_OS = goos, ach_Arch = goarch\<rparr>"] assms(1)
    by (simp add: hello_message_def protocolVersion_def int64_def maxInt64_def)
  ultimately show ?thesis
    using assms(2-6)
    by (auto simp: handshake_def newSessionID_def protocol_Version_def make_outbound_def session_Register_def
        make_chan_def sessionOutboundQueueCapacity_def open_message_def Let_def split: option.splits)
qed

theorem handshake_agrees_witness:
  "\<exists>sessionID s1. handshake \<lparr>ch_agents = True, ch_cleanup = True\<rparr> ''tkn_1''
     (example_handshake\<lparr>hi_read := Some (hello_message example_config ''host'' ''linux'' ''amd64'')\<rparr>) new_gateway
     = Inr (sessionID, ''agent'', s1) \<and> read_server_hello (server_hello_message sessionID) = Inr sessionID"
proof -
  have "list_all utf8_valid [cfg_Version example_config, ''host'', ''linux'', ''amd64'']"
    by (simp add: example_config_def utf8_valid_def)
  from handshake_agrees [OF this, of "example_handshake\<lparr>hi_read := Some (hello_message example_config ''host'' ''linux'' ''amd64'')\<rparr>"
      "[1, 2, 3]" "\<lparr>ch_agents = True, ch_cleanup = True\<rparr>" "''tkn_1''" "''agent''" new_gateway]
  show ?thesis by (auto simp: example_handshake_def)
qed

text \<open>
  the heartbeat works. What the gateway writes on a tick makes the agent answer with a
  pong and changes nothing else there; that pong makes the gateway note the time in the session
  and tell the agent service, and the session goes on.
\<close>

theorem heartbeat_keeps_session_alive:
  assumes "si_writeOk inp" and "map_of (gs_sessions (ss_gateway st)) sessionID = Some session"
  shows "\<exists>ping pong st'.
      serve_step h sessionID inp st SE_Tick = Some (Serving st, [WriteMessage \<lparr>om_Type = MessageText, om_Data = ping\<rparr>])
    \<and> agent_receive maxAlloc pending (MessageText, ping) = Inr (pending, [SendText pong])
    \<and> serve_step h sessionID inp st (SE_Inbound MessageText pong) = Some (Serving st',
        if ch_agents h \<and> ses_AgentID session \<noteq> [] then [TouchAgent (ses_AgentID session)] else [])
    \<and> map_of (gs_sessions (ss_gateway st')) sessionID = Some (session\<lparr>ses_LastSeen := si_now inp\<rparr>)
    \<and> ss_responses st' = ss_responses st"
proof -
  have "agent_receive maxAlloc pending (MessageText, ping_message) = Inr (pending, [SendText (Marshal (envelope_json ''pong'' None))])"
    by (simp add: agent_receive_def agent_decode_ping)
  moreover have "gateway_receive (ss_responses st) (MessageText, Marshal (envelope_json ''pong'' None)) = Inr (ss_responses st, [Alive])"
    by (simp add: gateway_receive_def gateway_decode_pong)
  ultimately show ?thesis
    using assms by (auto simp: session_Touch_def touchAgent_def session_AgentID_def Let_def)
qed

definition alive_session :: Session where
  "alive_session = \<lparr>ses_ID = ''s'', ses_AgentID = ''a'', ses_AgentTokenHash = [], ses_LastSeen = 1,
     ses_Outbound = None, ses_Cancel = None\<rparr>"

theorem heartbeat_keeps_session_alive_witness:
  "\<exists>pong st'. serve_step \<lparr>ch_agents = True, ch_cleanup = True\<rparr> ''s'' \<lparr>si_now = 9, si_writeOk = True, si_openTunnel = None\<rparr>
       \<lparr>ss_gateway = session_Register 1 alive_session new_gateway, ss_responses = []\<rparr> (SE_Inbound MessageText pong)
     = Some (Serving st', [TouchAgent ''a''])"
proof -
  have "map_of (gs_sessions (session_Register 1 alive_session new_gateway)) ''s'' = Some alive_session"
    by (simp add: session_Register_def new_gateway_def NewSessionManager_def alive_session_def)
  then show ?thesis
    using heartbeat_keeps_session_alive [of "\<lparr>si_now = 9, si_writeOk = True, si_openTunnel = None\<rparr>"
        "\<lparr>ss_gateway = session_Register 1 alive_session new_gateway, ss_responses = []\<rparr>" "''s''" alive_session
        "\<lparr>ch_agents = True, ch_cleanup = True\<rparr>" 0 "[]"]
    by (auto simp: alive_session_def)
qed

text \<open>
  C24: how many uploads an agent takes at a time. Messages of any number of requests may
  arrive interleaved in any way: if the messages of each request alone are in order and fewer
  than 32 requests are unfinished whenever one starts, the session goes on. A 33rd start ends
  the session, for all of its requests; the gateway sends it without counting.
\<close>

theorem concurrent_uploads:
  "((\<forall>m \<in> set ms. agent_key m \<noteq> None)
    \<and> (\<forall>k. run_eff (agent_kstep maxAlloc) None (filter (\<lambda>m. agent_key m = Some k) ms) \<noteq> None)
    \<and> (\<forall>ps m qs. ms = ps @ m # qs \<and> agent_opens m \<longrightarrow>
         card {k. \<exists>v es. run_eff (agent_kstep maxAlloc) None (filter (\<lambda>m. agent_key m = Some k) ps) = Some (Some v, es)} < 32)
    \<longrightarrow> run_eff (agent_step maxAlloc) [] ms \<noteq> None)
   \<and> (length pending = 32 \<and> agent_decode m = Inr (A_Start p) \<and> arq_RequestID p \<noteq> []
      \<and> map_of pending (arq_RequestID p) = None \<longrightarrow> agent_receive maxAlloc pending m = Inl TooManyPending)"
  (is "(?keys \<and> ?each \<and> ?room \<longrightarrow> ?ok) \<and> ?full")
proof
  show "?keys \<and> ?each \<and> ?room \<longrightarrow> ?ok"
  proof (rule impI, rule agent_loop.run_enabled)
    assume h: "?keys \<and> ?each \<and> ?room"
    show "pending_inv []" "map_of [] k = None" for k :: string
      by (simp_all add: pending_inv_def)
    show "agent_key m \<noteq> None" if "m \<in> set ms" for m
      using h that by blast
    show "run_eff (agent_kstep maxAlloc) None (filter (\<lambda>m. agent_key m = Some k) ms) \<noteq> None" for k
      using h by blast
    show "card (agent_loop.opened_after maxAlloc ps) < maxPendingRequestStreams" if "ms = ps @ m # qs" "agent_opens m" for ps m qs
      unfolding agent_loop.opened_after_def maxPendingRequestStreams_def using h that by blast
  qed
  show ?full
    by (simp add: agent_receive_def maxPendingRequestStreams_def)
qed

definition crowded :: pending_requests where
  "crowded = map (\<lambda>n. (replicate n CHR ''x'', (zero_httpRequest, \<lparr>ca_expected = -1, ca_next = 0, ca_body = []\<rparr>))) [0..<32]"

theorem concurrent_uploads_witness:
  "agent_receive 0 crowded (wire (request_start_message (request_payload (\<lambda>s. s) example_request
     (''req_'' @ hex_EncodeToString (replicate 12 0))))) = Inl TooManyPending"
proof -
  let ?p = "request_payload (\<lambda>s. s) example_request (''req_'' @ hex_EncodeToString (replicate 12 0))"
  have "agent_decode (wire (request_start_message ?p)) = Inr (A_Start (agent_request ?p))"
    using agent_decode_start [OF example_request_utf8] by (simp add: wire_def request_start_message_def)
  moreover have id: "arq_RequestID (agent_request ?p) = CHR ''r'' # ''eq_'' @ hex_EncodeToString (replicate 12 0)"
    by (simp add: agent_request_def request_payload_def)
  moreover have "CHR ''r'' # s \<notin> fst ` set crowded" for s
  proof
    assume "CHR ''r'' # s \<in> fst ` set crowded"
    then obtain n where "CHR ''r'' # s = replicate n CHR ''x''" by (auto simp: crowded_def)
    then show False by (cases n) auto
  qed
  moreover have "length crowded = 32"
    by (simp add: crowded_def)
  ultimately show ?thesis
    using concurrent_uploads [of "[]" 0 crowded "wire (request_start_message ?p)" "agent_request ?p"]
    by (simp add: map_of_eq_None_iff)
qed

text \<open>
  identifiers carry all of their randomness. Session ids, request ids and therefore
  everything keyed by them are equal only if the random bytes they were made of are; they are
  never empty and consist of letters, digits, dashes and underscores.
\<close>

theorem identifiers_are_faithful:
  "(newSessionID (Some a) = newSessionID (Some b) \<longleftrightarrow> a = b)
   \<and> (publicRequestID (Some a) = publicRequestID (Some b) \<longleftrightarrow> a = b)
   \<and> (\<exists>s q. newSessionID (Some a) = Some s \<and> publicRequestID (Some a) = Some q \<and> s \<noteq> [] \<and> q \<noteq> []
        \<and> list_all id_char s \<and> list_all id_char q)"
proof -
  have "list_all id_char (''ses_'' @ RawURL_EncodeToString a)" "list_all id_char (''req_'' @ hex_EncodeToString a)"
    using RawURL_chars [of a] hex_chars [of a] by (simp_all add: id_char_def is_lower_def)
  then show ?thesis
    using RawURL_inj hex_inj by (auto simp: newSessionID_def publicRequestID_def)
qed

end
